(* ===== verification/Prelude.thy ===== *)
theory Prelude
  imports Main "HOL-Library.Word" "HOL-Library.AList" "HOL-Library.Multiset"
begin

text \<open>
  Shared vocabulary of the development: the widths of the C++ integer types, the
  values a C++ call can end with (a result or an exception), the generic lemmas on
  lists and words the components use, and the interface locale of a component whose
  operations preserve an invariant.
\<close>

unbundle bit_operations_syntax

text \<open>That an operation keeps the invariant of its component; each component adds its own.\<close>

named_theorems preserves

section \<open>Types of the program\<close>

type_synonym u8 = "8 word"
type_synonym u16 = "16 word"
type_synonym u32 = "32 word"
type_synonym u64 = "64 word"
type_synonym bytes = "8 word list"

text \<open>
  How a call can end without a value: the exceptions the C++ standard library throws on
  behalf of the program, the program's own \<open>throw std::runtime_error\<close>, and undefined
  behaviour (signed overflow, reads past a buffer), which is never given a result.
\<close>

datatype cxx_error =
    Out_of_range
  | Invalid_argument
  | Length_error
  | Runtime_error string
  | Undefined_behaviour

type_synonym 'a result = "cxx_error + 'a"

fun bind_result :: "'a result \<Rightarrow> ('a \<Rightarrow> 'b result) \<Rightarrow> 'b result" where
  "bind_result (Inl e) f = Inl e"
| "bind_result (Inr x) f = f x"

lemma bind_result_Inr_iff [simp]:
  "bind_result r f = Inr y \<longleftrightarrow> (\<exists>x. r = Inr x \<and> f x = Inr y)"
  by (cases r) auto

lemma bind_result_Inl_iff:
  "bind_result r f = Inl e \<longleftrightarrow> r = Inl e \<or> (\<exists>x. r = Inr x \<and> f x = Inl e)"
  by (cases r) auto

text \<open>A loop that stops at the first exception of its body.\<close>

fun map_result :: "('a \<Rightarrow> 'b result) \<Rightarrow> 'a list \<Rightarrow> 'b list result" where
  "map_result f [] = Inr []"
| "map_result f (x # xs) =
     bind_result (f x) (\<lambda>y. bind_result (map_result f xs) (\<lambda>ys. Inr (y # ys)))"

lemma map_result_Inr:
  "(\<And>x. x \<in> set xs \<Longrightarrow> f x = Inr (g x)) \<Longrightarrow> map_result f xs = Inr (map g xs)"
  by (induction xs) auto

section \<open>Bytes and characters\<close>

text \<open>
  A \<open>std::string\<close> holds bytes: its model is \<open>string\<close>, whose characters are exactly
  the 256 byte values. A conversion between \<open>std::string\<close> and
  \<open>std::vector<uint8_t>\<close> copies the bytes.
\<close>

definition byte_of :: "char \<Rightarrow> u8" where
  "byte_of c = of_nat (of_char c)"

definition char_of_byte :: "u8 \<Rightarrow> char" where
  "char_of_byte b = char_of (unat b)"

definition bytes_of :: "string \<Rightarrow> bytes" where
  "bytes_of s = map byte_of s"

definition string_of :: "bytes \<Rightarrow> string" where
  "string_of bs = map char_of_byte bs"

lemma of_char_less_256 [simp]: "(of_char c :: nat) < 256"
  using of_char_mod_256 [of c, where ?'a = nat] by (metis mod_less_divisor zero_less_numeral)

lemma unat_byte_of [simp]: "unat (byte_of c) = of_char c"
  by (simp add: byte_of_def unat_of_nat)

lemma char_of_byte_of [simp]: "char_of_byte (byte_of c) = c"
  by (simp add: char_of_byte_def)

lemma byte_of_char_of_byte [simp]: "byte_of (char_of_byte b) = b"
proof -
  have "unat b < 256"
    using unsigned_less [of b] by simp
  then show ?thesis
    by (simp add: byte_of_def char_of_byte_def)
qed

lemma string_of_bytes_of [simp]: "string_of (bytes_of s) = s"
  by (simp add: string_of_def bytes_of_def comp_def)

lemma bytes_of_string_of [simp]: "bytes_of (string_of bs) = bs"
  by (simp add: string_of_def bytes_of_def comp_def)

lemma length_bytes_of [simp]: "length (bytes_of s) = length s"
  by (simp add: bytes_of_def)

lemma length_string_of [simp]: "length (string_of bs) = length bs"
  by (simp add: string_of_def)

lemma string_of_append [simp]: "string_of (xs @ ys) = string_of xs @ string_of ys"
  by (simp add: string_of_def)

lemma bytes_of_append [simp]: "bytes_of (xs @ ys) = bytes_of xs @ bytes_of ys"
  by (simp add: bytes_of_def)

lemma string_of_inject [simp]: "string_of xs = string_of ys \<longleftrightarrow> xs = ys"
  by (metis bytes_of_string_of)

section \<open>Words\<close>

lemma unat_inject: "unat a = unat b \<longleftrightarrow> a = b"
  by (simp add: word_unat_eq_iff)

lemma unat_u32_less: "unat (x :: u32) < 4294967296"
  by (rule less_le_trans [OF unsigned_less]) simp

lemma unat_u64_less: "unat (x :: u64) < 18446744073709551616"
  by (rule less_le_trans [OF unsigned_less]) simp

lemma unat_add_no_wrap:
  "unat a + unat b < 2 ^ LENGTH('a) \<Longrightarrow> unat (a + b :: 'a::len word) = unat a + unat b"
  by (simp add: unat_word_ariths)

lemma unat_sub_no_wrap:
  "unat (b :: 'a::len word) \<le> unat a \<Longrightarrow> unat (a - b) = unat a - unat b"
  by (simp add: unat_sub word_le_nat_alt)

lemma unat_sum_list_le:
  "unat (sum_list (xs :: 'a::len word list)) \<le> sum_list (map unat xs)"
proof (induction xs)
  case Nil
  then show ?case by simp
next
  case (Cons x xs)
  have "unat (x + sum_list xs) \<le> unat x + unat (sum_list xs)"
    by (simp add: unat_word_ariths)
  with Cons show ?case by simp
qed

lemma unat_sum_list_no_wrap:
  "sum_list (map unat xs) < 2 ^ LENGTH('a) \<Longrightarrow>
     unat (sum_list (xs :: 'a::len word list)) = sum_list (map unat xs)"
proof (induction xs)
  case Nil
  then show ?case by simp
next
  case (Cons x xs)
  then have "unat (sum_list xs) = sum_list (map unat xs)" by simp
  with Cons.prems show ?case by (simp add: unat_word_ariths)
qed

section \<open>Lists\<close>

lemma append_eq_append_sep:
  "x \<notin> set us \<Longrightarrow> x \<notin> set us' \<Longrightarrow> us @ x # vs = us' @ x # vs' \<longleftrightarrow> us = us' \<and> vs = vs'"
  by (auto simp: append_eq_append_conv2 Cons_eq_append_conv append_eq_Cons_conv)

lemma append_eq_append_sep_last:
  "x \<notin> set vs \<Longrightarrow> x \<notin> set vs' \<Longrightarrow> us @ x # vs = us' @ x # vs' \<longleftrightarrow> us = us' \<and> vs = vs'"
proof -
  assume *: "x \<notin> set vs" "x \<notin> set vs'"
  have "us @ x # vs = us' @ x # vs' \<longleftrightarrow> rev (us @ x # vs) = rev (us' @ x # vs')"
    by (simp only: rev_is_rev_conv)
  also have "\<dots> \<longleftrightarrow> rev vs @ x # rev us = rev vs' @ x # rev us'"
    by simp
  also have "\<dots> \<longleftrightarrow> rev vs = rev vs' \<and> rev us = rev us'"
    using * by (subst append_eq_append_sep) auto
  finally show ?thesis by auto
qed

section \<open>The interface of an invariant\<close>

text \<open>
  A component is a state and a set of operations; \<open>apply_op\<close> runs one. Whatever every
  operation keeps, every sequence of operations keeps. Each component interprets this
  locale on its own operations, which is how its invariant reaches whole runs.
\<close>

locale preserved =
  fixes apply_op :: "'op \<Rightarrow> 's \<Rightarrow> 's"
    and inv :: "'s \<Rightarrow> bool"
  assumes step: "inv s \<Longrightarrow> inv (apply_op x s)"
begin

lemma run: "inv s \<Longrightarrow> inv (fold apply_op xs s)"
  by (induction xs arbitrary: s) (auto intro: step)

lemma run_prefix: "inv s \<Longrightarrow> inv (fold apply_op (take n xs) s)"
  by (rule run)

end

text \<open>
  A component whose operations also move a measure in one direction only (a height, a
  counter of payments): the measure of a run is bounded by the measure of its start.
\<close>

locale monotone_run = preserved apply_op inv
  for apply_op :: "'op \<Rightarrow> 's \<Rightarrow> 's" and inv :: "'s \<Rightarrow> bool" +
  fixes measure_of :: "'s \<Rightarrow> 'c::preorder"
  assumes grows: "inv s \<Longrightarrow> measure_of s \<le> measure_of (apply_op x s)"
begin

lemma run_grows: "inv s \<Longrightarrow> measure_of s \<le> measure_of (fold apply_op xs s)"
proof (induction xs arbitrary: s)
  case Nil
  then show ?case by simp
next
  case (Cons x xs)
  have "measure_of s \<le> measure_of (apply_op x s)"
    using Cons.prems by (rule grows)
  also have "\<dots> \<le> measure_of (fold apply_op xs (apply_op x s))"
    using Cons.prems by (intro Cons.IH step)
  finally show ?case by simp
qed

end

end
