(* ===== verification/Cxx_Strings.thy ===== *)
theory Cxx_Strings
  imports Prelude
begin

text \<open>
  The operations of \<open>std::string\<close>, the stream inserters and the number parsers the program
  calls, as the C++17 standard states them: \<open>find\<close> and \<open>substr\<close> with \<open>npos\<close> and the
  wrap-around of \<open>size_t\<close>, decimal and hexadecimal output with \<open>setw\<close>/\<open>setfill\<close>,
  \<open>stoi\<close> in base 16, \<open>stoul\<close> in base 10, and whitespace tokenising.
\<close>

section \<open>Positions and substrings\<close>

definition npos :: nat where
  "npos = 18446744073709551615"

definition sz_add :: "nat \<Rightarrow> nat \<Rightarrow> nat" where
  "sz_add a b = (a + b) mod 18446744073709551616"

definition sz_sub :: "nat \<Rightarrow> nat \<Rightarrow> nat" where
  "sz_sub a b = (a + (18446744073709551616 - b mod 18446744073709551616)) mod 18446744073709551616"

definition starts_with :: "string \<Rightarrow> string \<Rightarrow> bool" where
  "starts_with p s \<longleftrightarrow> take (length p) s = p"

fun find_idx :: "string \<Rightarrow> string \<Rightarrow> nat option" where
  "find_idx p [] = (if p = [] then Some 0 else None)"
| "find_idx p (c # cs) =
     (if starts_with p (c # cs) then Some 0 else map_option Suc (find_idx p cs))"

text \<open>\<open>s.find(p, pos)\<close>.\<close>

definition str_find_from :: "string \<Rightarrow> string \<Rightarrow> nat \<Rightarrow> nat" where
  "str_find_from s p pos =
     (if length s < pos then npos
      else case find_idx p (drop pos s) of None \<Rightarrow> npos | Some i \<Rightarrow> pos + i)"

definition str_find :: "string \<Rightarrow> string \<Rightarrow> nat" where
  "str_find s p = str_find_from s p 0"

text \<open>\<open>s.substr(pos, n)\<close>: throws \<open>std::out_of_range\<close> past the end.\<close>

definition str_substr :: "string \<Rightarrow> nat \<Rightarrow> nat \<Rightarrow> string result" where
  "str_substr s pos n = (if length s < pos then Inl Out_of_range else Inr (take n (drop pos s)))"

text \<open>\<open>s.resize(n, c)\<close>.\<close>

definition str_resize :: "'a list \<Rightarrow> nat \<Rightarrow> 'a \<Rightarrow> 'a list" where
  "str_resize s n c = take n s @ replicate (n - length s) c"

lemma str_substr_prefix [simp]: "str_substr s 0 n = Inr (take n s)"
  by (simp add: str_substr_def)

lemma length_str_resize [simp]: "length (str_resize s n c) = n"
  by (simp add: str_resize_def)

lemma sz_add_small: "a + b < 18446744073709551616 \<Longrightarrow> sz_add a b = a + b"
  by (simp add: sz_add_def)

lemma sz_sub_small:
  assumes "b \<le> a" and "a < 18446744073709551616"
  shows "sz_sub a b = a - b"
proof -
  from assms have "a + (18446744073709551616 - b) = 18446744073709551616 + (a - b)" by simp
  moreover from assms have "b mod 18446744073709551616 = b" by simp
  ultimately have "sz_sub a b = (18446744073709551616 + (a - b)) mod 18446744073709551616"
    by (simp only: sz_sub_def)
  with assms show ?thesis by (simp only: mod_add_self1) simp
qed

lemma find_idx_SomeD:
  "find_idx p s = Some i \<Longrightarrow> i + length p \<le> length s \<and> starts_with p (drop i s)"
proof (induction p s arbitrary: i rule: find_idx.induct)
  case (1 p)
  then show ?case by (auto simp: starts_with_def split: if_splits)
next
  case (2 p c cs)
  show ?case
  proof (cases "starts_with p (c # cs)")
    case True
    then have "length p \<le> length (c # cs)"
      unfolding starts_with_def by (metis length_take min.cobounded1)
    with True "2.prems" show ?thesis by simp
  next
    case False
    with "2.prems" obtain j where "find_idx p cs = Some j" and "i = Suc j" by auto
    with "2.IH" [OF False, of j] show ?thesis by simp
  qed
qed

lemma find_idx_prefix: "starts_with p s \<Longrightarrow> find_idx p s = Some 0"
  by (cases s) (auto simp: starts_with_def)

lemma starts_with_append [simp]: "starts_with p (p @ s)"
  by (simp add: starts_with_def)

lemma str_find_le: "str_find_from s p pos \<noteq> npos \<Longrightarrow> str_find_from s p pos + length p \<le> length s"
  by (auto simp: str_find_from_def dest!: find_idx_SomeD split: if_splits option.splits)

lemma find_idx_char:
  "c \<notin> set us \<Longrightarrow> find_idx [c] (us @ c # vs) = Some (length us)"
  by (induction us) (auto simp: starts_with_def)

lemma find_idx_char_None: "c \<notin> set us \<Longrightarrow> find_idx [c] us = None"
  by (induction us) (auto simp: starts_with_def)

lemma find_idx_skip:
  "c \<notin> set us \<Longrightarrow> find_idx (c # p) (us @ s) = map_option ((+) (length us)) (find_idx (c # p) s)"
proof (induction us)
  case Nil
  then show ?case by (cases "find_idx (c # p) s") auto
next
  case (Cons u us)
  then have "\<not> starts_with (c # p) (u # us @ s)" by (auto simp: starts_with_def)
  with Cons show ?case by (cases "find_idx (c # p) s") auto
qed

section \<open>Number output\<close>

definition digit_char :: "nat \<Rightarrow> char" where
  "digit_char d = char_of (if d < 10 then 48 + d else 87 + d)"

function num_str :: "nat \<Rightarrow> nat \<Rightarrow> string" where
  "num_str b n =
     (if b < 2 \<or> n < b then [digit_char n] else num_str b (n div b) @ [digit_char (n mod b)])"
  by pat_completeness auto
termination
  by (relation "measure snd") auto

declare num_str.simps [simp del]

text \<open>\<open>std::to_string\<close> and \<open><<\<close> of an unsigned value; of a signed value; of a \<open>bool\<close>.\<close>

definition nat_str :: "nat \<Rightarrow> string" where
  "nat_str n = num_str 10 n"

definition int_str :: "int \<Rightarrow> string" where
  "int_str i = (if i < 0 then CHR ''-'' # nat_str (nat (- i)) else nat_str (nat i))"

definition bool_str :: "bool \<Rightarrow> string" where
  "bool_str b = (if b then ''1'' else ''0'')"

text \<open>\<open><< std::setw(w) << std::setfill(c)\<close>.\<close>

definition setw_fill :: "nat \<Rightarrow> char \<Rightarrow> string \<Rightarrow> string" where
  "setw_fill w c s = replicate (w - length s) c @ s"

definition hex_setw :: "nat \<Rightarrow> nat \<Rightarrow> string" where
  "hex_setw w n = setw_fill w (CHR ''0'') (num_str 16 n)"

definition digit_val :: "char \<Rightarrow> nat option" where
  "digit_val c =
     (let n = of_char c in
      if 48 \<le> n \<and> n < 58 then Some (n - 48)
      else if 97 \<le> n \<and> n < 103 then Some (n - 87)
      else if 65 \<le> n \<and> n < 71 then Some (n - 55)
      else None)"

definition digits_val :: "nat \<Rightarrow> string \<Rightarrow> nat" where
  "digits_val b s = foldl (\<lambda>a c. a * b + the (digit_val c)) 0 s"

lemma digit_val_digit_char [simp]: "d < 16 \<Longrightarrow> digit_val (digit_char d) = Some d"
  by (simp add: digit_val_def digit_char_def Let_def)

lemma digits_val_num_str: "2 \<le> b \<Longrightarrow> b \<le> 16 \<Longrightarrow> digits_val b (num_str b n) = n"
proof (induction b n rule: num_str.induct)
  case (1 b n)
  show ?case
  proof (cases "n < b")
    case True
    with 1 show ?thesis
      by (simp add: num_str.simps [of b n] digits_val_def)
  next
    case False
    have "n mod b < 16"
      using "1.prems" mod_less_divisor [of b n] by linarith
    with False 1 show ?thesis
      by (simp add: num_str.simps [of b n] digits_val_def)
  qed
qed

lemma digits_val_zeros [simp]: "digits_val b (replicate k (CHR ''0'') @ s) = digits_val b s"
  by (induction k) (simp_all add: digits_val_def digit_val_def)

lemma num_str_inject: "2 \<le> b \<Longrightarrow> b \<le> 16 \<Longrightarrow> num_str b m = num_str b n \<longleftrightarrow> m = n"
  by (metis digits_val_num_str)

lemma nat_str_inject [simp]: "nat_str m = nat_str n \<longleftrightarrow> m = n"
  by (simp add: nat_str_def num_str_inject)

lemma num_str_not_Nil [simp]: "num_str b n \<noteq> []"
  by (subst num_str.simps) simp

lemma nat_str_not_Nil [simp]: "nat_str n \<noteq> []"
  by (simp add: nat_str_def)

lemma num_str_digits:
  "2 \<le> b \<Longrightarrow> set (num_str b n) \<subseteq> digit_char ` {..<b}"
proof (induction b n rule: num_str.induct)
  case (1 b n)
  then show ?case
    by (subst num_str.simps) (auto simp: image_iff)
qed

lemma nat_str_chars: "c \<in> set (nat_str n) \<Longrightarrow> 48 \<le> (of_char c :: nat) \<and> (of_char c :: nat) < 58"
  using num_str_digits [of 10 n] by (auto simp: nat_str_def digit_char_def)

lemma nat_str_no_char [simp]:
  "CHR '':'' \<notin> set (nat_str n)"
  "CHR ''|'' \<notin> set (nat_str n)"
  "CHR ''-'' \<notin> set (nat_str n)"
  "CHR '' '' \<notin> set (nat_str n)"
  by (auto dest: nat_str_chars)

lemma length_num_str_le: "2 \<le> b \<Longrightarrow> n < b ^ k \<Longrightarrow> 0 < k \<Longrightarrow> length (num_str b n) \<le> k"
proof (induction b n arbitrary: k rule: num_str.induct)
  case (1 b n)
  show ?case
  proof (cases "n < b")
    case True
    with "1.prems" show ?thesis by (simp add: num_str.simps [of b n])
  next
    case False
    with "1.prems" have "k \<noteq> 1" by auto
    with "1.prems" obtain j where k: "k = Suc j" and "0 < j"
      by (cases k) auto
    with "1.prems" have "n div b < b ^ j"
      by (simp add: less_mult_imp_div_less mult.commute)
    with 1 False k \<open>0 < j\<close> show ?thesis
      by (simp add: num_str.simps [of b n])
  qed
qed

lemma length_hex_setw: "n < 16 ^ w \<Longrightarrow> 0 < w \<Longrightarrow> length (hex_setw w n) = w"
  using length_num_str_le [of 16 n w] by (simp add: hex_setw_def setw_fill_def)

lemma digit_char_0 [simp]: "digit_char 0 = CHR ''0''"
  by code_simp

section \<open>Hexadecimal bytes\<close>

text \<open>\<open>std::hex << std::setw(2) << std::setfill('0') << (int)x\<close>.\<close>

definition hex_byte :: "u8 \<Rightarrow> string" where
  "hex_byte b = hex_setw 2 (unat b)"

definition is_hex :: "string \<Rightarrow> bool" where
  "is_hex s \<longleftrightarrow> list_all (\<lambda>c. digit_val c \<noteq> None) s"

lemma unat_u8_less [simp]: "unat (b :: u8) < 256"
  using unsigned_less [of b] by simp

lemma hex_setw_2:
  assumes "n < 256"
  shows "hex_setw 2 n = [digit_char (n div 16), digit_char (n mod 16)]"
proof (cases "n < 16")
  case True
  then show ?thesis
    by (simp add: hex_setw_def setw_fill_def num_str.simps [of 16 n])
next
  case False
  from assms have "n div 16 < 16" by simp
  then have "num_str 16 (n div 16) = [digit_char (n div 16)]"
    by (subst num_str.simps) simp
  with False show ?thesis
    by (simp add: hex_setw_def setw_fill_def num_str.simps [of 16 n])
qed

lemma hex_byte_eq: "hex_byte b = [digit_char (unat b div 16), digit_char (unat b mod 16)]"
  by (simp add: hex_byte_def hex_setw_2)

lemma length_hex_byte [simp]: "length (hex_byte b) = 2"
  by (simp add: hex_byte_eq)

lemma is_hex_append [simp]: "is_hex (xs @ ys) \<longleftrightarrow> is_hex xs \<and> is_hex ys"
  by (simp add: is_hex_def)

lemma is_hex_Nil [simp]: "is_hex []"
  by (simp add: is_hex_def)

lemma is_hex_Cons [simp]: "is_hex (c # cs) \<longleftrightarrow> digit_val c \<noteq> None \<and> is_hex cs"
  by (simp add: is_hex_def)

lemma is_hex_take [simp]: "is_hex s \<Longrightarrow> is_hex (take n s)"
  unfolding is_hex_def list_all_iff by (meson in_set_takeD)

lemma is_hex_drop [simp]: "is_hex s \<Longrightarrow> is_hex (drop n s)"
  unfolding is_hex_def list_all_iff by (meson in_set_dropD)

lemma is_hex_num_str: "2 \<le> b \<Longrightarrow> b \<le> 16 \<Longrightarrow> is_hex (num_str b n)"
  using num_str_digits [of b n] by (force simp: is_hex_def list_all_iff)

lemma is_hex_hex_setw [simp]: "is_hex (hex_setw w n)"
  by (simp add: hex_setw_def setw_fill_def is_hex_num_str)
    (simp add: is_hex_def list_all_iff digit_val_def)

lemma is_hex_hex_byte [simp]: "is_hex (hex_byte b)"
  by (simp add: hex_byte_def)

lemma is_hex_concat [simp]: "is_hex (concat xss) \<longleftrightarrow> (\<forall>xs \<in> set xss. is_hex xs)"
  by (induction xss) auto

section \<open>Number parsing\<close>

text \<open>\<open>isspace\<close> in the C locale.\<close>

definition is_space :: "char \<Rightarrow> bool" where
  "is_space c \<longleftrightarrow> (let n = (of_char c :: nat) in n = 32 \<or> 9 \<le> n \<and> n \<le> 13)"

fun split_sign :: "string \<Rightarrow> bool \<times> string" where
  "split_sign (c # cs) =
     (if c = CHR ''-'' then (True, cs) else if c = CHR ''+'' then (False, cs) else (False, c # cs))"
| "split_sign [] = (False, [])"

fun skip_0x :: "string \<Rightarrow> string" where
  "skip_0x (a # b # c # cs) =
     (if a = CHR ''0'' \<and> (b = CHR ''x'' \<or> b = CHR ''X'') \<and> digit_val c \<noteq> None
      then c # cs else a # b # c # cs)"
| "skip_0x s = s"

definition is_digit :: "nat \<Rightarrow> char \<Rightarrow> bool" where
  "is_digit b c \<longleftrightarrow> (case digit_val c of None \<Rightarrow> False | Some d \<Rightarrow> d < b)"

text \<open>\<open>std::stoi(s, nullptr, 16)\<close>; \<open>int\<close> has 32 bits.\<close>

definition stoi16 :: "string \<Rightarrow> int result" where
  "stoi16 s =
     (let (neg, r) = split_sign (dropWhile is_space s);
          ds = takeWhile (is_digit 16) (skip_0x r);
          v = int (digits_val 16 ds);
          i = (if neg then - v else v)
      in if ds = [] then Inl Invalid_argument
         else if i < -2147483648 \<or> 2147483647 < i then Inl Out_of_range
         else Inr i)"

text \<open>\<open>std::stoul(s)\<close>; \<open>unsigned long\<close> has 64 bits, and a sign negates modulo \<open>2\<^sup>6\<^sup>4\<close>.\<close>

definition stoul10 :: "string \<Rightarrow> u64 result" where
  "stoul10 s =
     (let (neg, r) = split_sign (dropWhile is_space s);
          ds = takeWhile (is_digit 10) r;
          v = digits_val 10 ds
      in if ds = [] then Inl Invalid_argument
         else if npos < v then Inl Out_of_range
         else Inr (if neg then - of_nat v else of_nat v))"

text \<open>\<open>(uint8_t)std::stoi(s, nullptr, 16)\<close>.\<close>

definition parse_byte :: "string \<Rightarrow> u8 result" where
  "parse_byte s = bind_result (stoi16 s) (\<lambda>i. Inr (of_int i))"

text \<open>The loop \<open>for (i = 0; i < h.size(); i += 2)\<close> over \<open>h.substr(i, 2)\<close>.\<close>

fun hex_pairs :: "string \<Rightarrow> string list" where
  "hex_pairs (a # b # cs) = [a, b] # hex_pairs cs"
| "hex_pairs [a] = [[a]]"
| "hex_pairs [] = []"

definition parse_hex :: "string \<Rightarrow> bytes result" where
  "parse_hex h = map_result parse_byte (hex_pairs h)"

lemma digit_val_bounds: "digit_val c = Some d \<Longrightarrow> d < 16"
  by (auto simp: digit_val_def Let_def split: if_splits)

lemma hex_digit_no_space: "digit_val c \<noteq> None \<Longrightarrow> \<not> is_space c \<and> c \<noteq> CHR ''-'' \<and> c \<noteq> CHR ''+''"
  by (auto simp: digit_val_def is_space_def Let_def split: if_splits)

lemma parse_byte_2:
  assumes a: "digit_val a = Some m" and b: "digit_val b = Some n"
  shows "parse_byte [a, b] = Inr (of_nat (16 * m + n))"
proof -
  have "m < 16" "n < 16" using assms by (auto dest: digit_val_bounds)
  moreover have "\<not> is_space a" "a \<noteq> CHR ''-''" "a \<noteq> CHR ''+''"
    using hex_digit_no_space [of a] a by auto
  ultimately show ?thesis
    using assms by (simp add: parse_byte_def stoi16_def is_digit_def digits_val_def Let_def)
qed

lemma parse_byte_hex_byte [simp]: "parse_byte (hex_byte b) = Inr b"
proof -
  have "unat b < 16 * 16" by simp
  then have "unat b div 16 < 16" by (rule less_mult_imp_div_less)
  moreover have "unat b mod 16 < 16" by simp
  ultimately
  have "parse_byte (hex_byte b) = Inr (of_nat (16 * (unat b div 16) + unat b mod 16))"
    unfolding hex_byte_eq by (intro parse_byte_2) simp_all
  then show ?thesis by simp
qed

lemma hex_pairs_hex_bytes: "hex_pairs (concat (map hex_byte bs)) = map hex_byte bs"
  by (induction bs) (simp_all add: hex_byte_eq)

lemma parse_hex_bytes [simp]: "parse_hex (concat (map hex_byte bs)) = Inr bs"
  by (simp add: parse_hex_def hex_pairs_hex_bytes) (induction bs, simp_all)

text \<open>A text of lower-case digits is the rendering of some bytes.\<close>

lemma lower_hex_bytes:
  assumes "set s \<subseteq> digit_char ` {..<16}" and "even (length s)"
  shows "\<exists>bs. s = concat (map hex_byte bs)"
  using assms
proof (induction s rule: hex_pairs.induct)
  case (1 a b cs)
  then obtain m n bs where "a = digit_char m" "m < 16" "b = digit_char n" "n < 16"
    and "cs = concat (map hex_byte bs)" by auto
  then have "a # b # cs = concat (map hex_byte (of_nat (16 * m + n) # bs))"
    by (simp add: hex_byte_eq unat_of_nat del: of_nat_add of_nat_mult)
  then show ?case by blast
next
  case 3
  then show ?case by (intro exI [of _ "[]"]) simp
qed simp

lemma parse_hex_Inr:
  assumes "is_hex h" and "even (length h)"
  shows "\<exists>bs. parse_hex h = Inr bs \<and> length bs = length h div 2"
  using assms
proof (induction h rule: hex_pairs.induct)
  case (1 a b cs)
  then obtain bs where "parse_hex cs = Inr bs" "length bs = length cs div 2" by auto
  moreover from "1.prems" obtain m n where "digit_val a = Some m" "digit_val b = Some n" by auto
  ultimately show ?case
    by (auto simp: parse_hex_def parse_byte_2)
qed (simp_all add: parse_hex_def)

lemma digits_val_append:
  "digits_val b (xs @ [c]) = digits_val b xs * b + the (digit_val c)"
  by (simp add: digits_val_def)

lemma nat_str_scan:
  "dropWhile is_space (nat_str n) = nat_str n" "split_sign (nat_str n) = (False, nat_str n)"
  "takeWhile (is_digit 10) (nat_str n) = nat_str n" "digits_val 10 (nat_str n) = n"
proof -
  have dig: "\<forall>c \<in> set (nat_str n). is_digit 10 c \<and> \<not> is_space c \<and> c \<noteq> CHR ''-'' \<and> c \<noteq> CHR ''+''"
  proof
    fix c assume "c \<in> set (nat_str n)"
    then obtain d where "d < 10" and "c = digit_char d"
      using num_str_digits [of 10 n] by (auto simp: nat_str_def)
    then have "digit_val c = Some d" by simp
    with \<open>d < 10\<close> hex_digit_no_space [of c]
    show "is_digit 10 c \<and> \<not> is_space c \<and> c \<noteq> CHR ''-'' \<and> c \<noteq> CHR ''+''"
      by (simp add: is_digit_def)
  qed
  obtain c cs where s: "nat_str n = c # cs"
    by (cases "nat_str n") auto
  show "dropWhile is_space (nat_str n) = nat_str n" "split_sign (nat_str n) = (False, nat_str n)"
    using dig s by simp_all
  show "takeWhile (is_digit 10) (nat_str n) = nat_str n"
    using dig by (simp add: takeWhile_eq_all_conv)
  show "digits_val 10 (nat_str n) = n"
    by (simp add: nat_str_def digits_val_num_str)
qed

lemma stoul10_nat_str [simp]: "n \<le> npos \<Longrightarrow> stoul10 (nat_str n) = Inr (of_nat n)"
  by (simp add: stoul10_def Let_def nat_str_scan)

text \<open>\<open>std::stoi(s)\<close>, in base ten.\<close>

definition stoi10 :: "string \<Rightarrow> int result" where
  "stoi10 s =
     (let (neg, r) = split_sign (dropWhile is_space s);
          ds = takeWhile (is_digit 10) r;
          v = int (digits_val 10 ds);
          i = (if neg then - v else v)
      in if ds = [] then Inl Invalid_argument
         else if i < -2147483648 \<or> 2147483647 < i then Inl Out_of_range
         else Inr i)"

lemma stoi10_nat_str [simp]: "n \<le> 2147483647 \<Longrightarrow> stoi10 (nat_str n) = Inr (int n)"
  by (simp add: stoi10_def Let_def nat_str_scan)

section \<open>Whitespace tokens\<close>

text \<open>\<open>while (iss >> token)\<close>: the maximal runs of characters that are not white space.\<close>

function ws_tokens :: "string \<Rightarrow> string list" where
  "ws_tokens s =
     (let r = dropWhile is_space s in
      if r = [] then []
      else takeWhile (\<lambda>c. \<not> is_space c) r # ws_tokens (dropWhile (\<lambda>c. \<not> is_space c) r))"
  by pat_completeness auto
termination
proof (relation "measure length")
  fix s r :: string
  assume r: "r = dropWhile is_space s" and "r \<noteq> []"
  then have "\<not> is_space (hd r)"
    using hd_dropWhile [of is_space s] by simp
  with \<open>r \<noteq> []\<close> have "length (dropWhile (\<lambda>c. \<not> is_space c) r) < length r"
    by (cases r) (simp_all add: length_dropWhile_le less_Suc_eq_le)
  also have "\<dots> \<le> length s"
    using r by (simp add: length_dropWhile_le)
  finally show "(dropWhile (\<lambda>c. \<not> is_space c) r, s) \<in> measure length" by simp
qed simp

declare ws_tokens.simps [simp del]

lemma ws_tokens_word:
  assumes "w \<noteq> []" and "\<forall>c \<in> set w. \<not> is_space c" and "is_space b"
  shows "ws_tokens (w @ b # s) = w # ws_tokens s" and "ws_tokens w = [w]"
proof -
  have Nil: "ws_tokens [] = []" by (simp add: ws_tokens.simps)
  have drop: "ws_tokens (b # s) = ws_tokens s"
    using \<open>is_space b\<close> by (simp add: ws_tokens.simps [of "b # s"] ws_tokens.simps [of s])
  have d: "dropWhile is_space (w @ t) = w @ t" for t using assms(1,2) by (cases w) simp_all
  have "takeWhile (\<lambda>c. \<not> is_space c) (w @ b # s) = w"
    and "dropWhile (\<lambda>c. \<not> is_space c) (w @ b # s) = b # s"
    using assms(2,3) by (simp_all add: takeWhile_append dropWhile_append)
  then show "ws_tokens (w @ b # s) = w # ws_tokens s"
    using \<open>w \<noteq> []\<close> drop by (subst ws_tokens.simps) (simp add: d Let_def)
  have "takeWhile (\<lambda>c. \<not> is_space c) w = w" and "dropWhile (\<lambda>c. \<not> is_space c) w = []"
    using assms(2) by (simp_all add: takeWhile_eq_all_conv)
  then show "ws_tokens w = [w]"
    using \<open>w \<noteq> []\<close> d [of "[]"] Nil
    by (subst ws_tokens.simps) (simp add: Let_def del: takeWhile_eq_all_conv dropWhile_eq_Nil_conv)
qed

lemma ws_tokens_Nil [simp]: "ws_tokens [] = []"
  by (simp add: ws_tokens.simps)

end
