(* ===== verification/Iterated_Hash.thy ===== *)
theory Iterated_Hash
  imports Prelude
begin

text \<open>
  What SHA-256 and RIPEMD-160 have in common: the padded message is cut into blocks and a compression
  function folds them into a chaining value. The locale \<open>iterated_hash\<close> states what the padding has to
  provide, and derives that two messages with one chaining value are equal or make the compression
  function collide on two of the calls the two computations make.
\<close>

section \<open>Calls of the compression function\<close>

text \<open>The arguments, block and chaining value, of every call of a computation, in order.\<close>

fun calls :: "('b \<Rightarrow> 's \<Rightarrow> 's) \<Rightarrow> 'b list \<Rightarrow> 's \<Rightarrow> ('b \<times> 's) list" where
  "calls f [] s = []"
| "calls f (b # bs) s = (b, s) # calls f bs (f b s)"

text \<open>Two different calls with one result.\<close>

definition clash :: "('b \<Rightarrow> 's \<Rightarrow> 's) \<Rightarrow> ('b \<times> 's) set \<Rightarrow> bool" where
  "clash f C \<longleftrightarrow> (\<exists>x \<in> C. \<exists>y \<in> C. x \<noteq> y \<and> f (fst x) (snd x) = f (fst y) (snd y))"

lemma clashI: "x \<in> C \<Longrightarrow> y \<in> C \<Longrightarrow> x \<noteq> y \<Longrightarrow> f (fst x) (snd x) = f (fst y) (snd y) \<Longrightarrow> clash f C"
  by (auto simp: clash_def)

lemma clash_mono: "clash f C \<Longrightarrow> C \<subseteq> D \<Longrightarrow> clash f D"
  unfolding clash_def by blast

lemma clash_empty [simp]: "\<not> clash f {}" "\<not> clash f {x}"
  by (simp_all add: clash_def)

lemma calls_snoc: "calls f (bs @ [b]) s = calls f bs s @ [(b, fold f bs s)]"
  by (induction bs arbitrary: s) simp_all

lemma length_calls [simp]: "length (calls f bs s) = length bs"
  by (induction bs arbitrary: s) simp_all

text \<open>Equal numbers of blocks with equal results: equal blocks, or a clash.\<close>

lemma fold_calls:
  assumes "length bs = length cs" and "fold f bs s = fold f cs s"
  shows "bs = cs \<or> clash f (set (calls f bs s) \<union> set (calls f cs s))"
  using assms
proof (induction bs arbitrary: cs rule: rev_induct)
  case Nil
  then show ?case by simp
next
  case (snoc b bs)
  from snoc.prems(1) obtain c cs' where cs: "cs = cs' @ [c]" by (cases cs rule: rev_cases) auto
  show ?case
  proof (cases "(b, fold f bs s) = (c, fold f cs' s)")
    case True
    with snoc.IH [of cs'] snoc.prems(1) cs
    have "bs = cs' \<or> clash f (set (calls f bs s) \<union> set (calls f cs' s))" by simp
    moreover have "set (calls f bs s) \<union> set (calls f cs' s) \<subseteq> set (calls f (bs @ [b]) s) \<union> set (calls f cs s)"
      by (auto simp: calls_snoc cs)
    ultimately have "bs = cs' \<or> clash f (set (calls f (bs @ [b]) s) \<union> set (calls f cs s))"
      using clash_mono by blast
    with True show ?thesis by (simp add: cs)
  next
    case False
    have "clash f (set (calls f (bs @ [b]) s) \<union> set (calls f cs s))"
      by (rule clashI [of "(b, fold f bs s)" _ "(c, fold f cs' s)"])
        (use False snoc.prems(2) in \<open>simp_all add: calls_snoc cs\<close>)
    then show ?thesis by blast
  qed
qed

section \<open>The interface\<close>

locale iterated_hash =
  fixes pad :: "'m \<Rightarrow> 'b list"
    and compress :: "'b \<Rightarrow> 's \<Rightarrow> 's"
    and start :: 's
    and fits :: "'m \<Rightarrow> bool"
  assumes pad_not_Nil: "pad m \<noteq> []"
    and pad_last: "fits m \<Longrightarrow> fits m' \<Longrightarrow> last (pad m) = last (pad m') \<Longrightarrow> length (pad m) = length (pad m')"
    and pad_inject: "fits m \<Longrightarrow> fits m' \<Longrightarrow> pad m = pad m' \<Longrightarrow> m = m'"
begin

abbreviation chaining :: "'m \<Rightarrow> 's" where
  "chaining m \<equiv> fold compress (pad m) start"

abbreviation used :: "'m \<Rightarrow> ('b \<times> 's) set" where
  "used m \<equiv> set (calls compress (pad m) start)"

text \<open>Either the last calls differ, and clash, or the numbers of blocks agree.\<close>

lemma chaining_binds:
  assumes "fits m" and "fits m'" and "chaining m = chaining m'"
  shows "m = m' \<or> clash compress (used m \<union> used m')"
proof (cases "length (pad m) = length (pad m')")
  case True
  with fold_calls [OF this assms(3)] pad_inject [OF assms(1,2)] show ?thesis by blast
next
  case False
  then have last: "last (pad m) \<noteq> last (pad m')" using pad_last [OF assms(1,2)] by blast
  obtain bs b cs c where pads: "pad m = bs @ [b]" "pad m' = cs @ [c]"
    using pad_not_Nil [of m] pad_not_Nil [of m'] by (metis rev_exhaust)
  have "clash compress (used m \<union> used m')"
    by (rule clashI [of "(b, fold compress bs start)" _ "(c, fold compress cs start)"])
      (use last assms(3) in \<open>simp_all add: pads calls_snoc\<close>)
  then show ?thesis by blast
qed

text \<open>A collision of different messages therefore is one of the compression function.\<close>

lemma collision_clashes:
  "fits m \<Longrightarrow> fits m' \<Longrightarrow> m \<noteq> m' \<Longrightarrow> chaining m = chaining m' \<Longrightarrow> clash compress (used m \<union> used m')"
  using chaining_binds by blast

end

end
