(* ===== verification/SHA256.thy ===== *)
theory SHA256
  imports Cxx_Strings Iterated_Hash
begin

text \<open>
  \<open>src/src/crypto/sha256.{h,cpp}\<close>: the constants, the bit functions, the padding loop, the
  message schedule, the compression of one 64-byte block and the hash as 64 hexadecimal
  digits. The interface a hash function offers to the rest of the program (64 hexadecimal
  digits for every input) is the locale \<open>hex_digest\<close>, interpreted on \<open>SHA256_hash\<close>.
\<close>

section \<open>Constants and bit functions\<close>

definition SHA256_K :: "u32 list" where
  "SHA256_K = concat [
    [0x428a2f98, 0x71374491, 0xb5c0fbcf, 0xe9b5dba5],
    [0x3956c25b, 0x59f111f1, 0x923f82a4, 0xab1c5ed5],
    [0xd807aa98, 0x12835b01, 0x243185be, 0x550c7dc3],
    [0x72be5d74, 0x80deb1fe, 0x9bdc06a7, 0xc19bf174],
    [0xe49b69c1, 0xefbe4786, 0x0fc19dc6, 0x240ca1cc],
    [0x2de92c6f, 0x4a7484aa, 0x5cb0a9dc, 0x76f988da],
    [0x983e5152, 0xa831c66d, 0xb00327c8, 0xbf597fc7],
    [0xc6e00bf3, 0xd5a79147, 0x06ca6351, 0x14292967],
    [0x27b70a85, 0x2e1b2138, 0x4d2c6dfc, 0x53380d13],
    [0x650a7354, 0x766a0abb, 0x81c2c92e, 0x92722c85],
    [0xa2bfe8a1, 0xa81a664b, 0xc24b8b70, 0xc76c51a3],
    [0xd192e819, 0xd6990624, 0xf40e3585, 0x106aa070],
    [0x19a4c116, 0x1e376c08, 0x2748774c, 0x34b0bcb5],
    [0x391c0cb3, 0x4ed8aa4a, 0x5b9cca4f, 0x682e6ff3],
    [0x748f82ee, 0x78a5636f, 0x84c87814, 0x8cc70208],
    [0x90befffa, 0xa4506ceb, 0xbef9a3f7, 0xc67178f2]
  ]"

type_synonym sha_state = "u32 \<times> u32 \<times> u32 \<times> u32 \<times> u32 \<times> u32 \<times> u32 \<times> u32"

definition SHA256_H0 :: sha_state where
  "SHA256_H0 = (0x6a09e667, 0xbb67ae85, 0x3c6ef372, 0xa54ff53a,
                0x510e527f, 0x9b05688c, 0x1f83d9ab, 0x5be0cd19)"

definition rotr :: "u32 \<Rightarrow> nat \<Rightarrow> u32" where
  "rotr x n = drop_bit n x OR push_bit (32 - n) x"

definition ch :: "u32 \<Rightarrow> u32 \<Rightarrow> u32 \<Rightarrow> u32" where
  "ch x y z = (x AND y) XOR (NOT x AND z)"

definition maj :: "u32 \<Rightarrow> u32 \<Rightarrow> u32 \<Rightarrow> u32" where
  "maj x y z = (x AND y) XOR (x AND z) XOR (y AND z)"

definition sigma0 :: "u32 \<Rightarrow> u32" where
  "sigma0 x = rotr x 2 XOR rotr x 13 XOR rotr x 22"

definition sigma1 :: "u32 \<Rightarrow> u32" where
  "sigma1 x = rotr x 6 XOR rotr x 11 XOR rotr x 25"

definition gamma0 :: "u32 \<Rightarrow> u32" where
  "gamma0 x = rotr x 7 XOR rotr x 18 XOR drop_bit 3 x"

definition gamma1 :: "u32 \<Rightarrow> u32" where
  "gamma1 x = rotr x 17 XOR rotr x 19 XOR drop_bit 10 x"

section \<open>Padding and blocks\<close>

lemma pad_measure:
  assumes "n mod 64 \<noteq> (56 :: nat)"
  shows "Suc ((120 - Suc n mod 64) mod 64) = (120 - n mod 64) mod 64"
proof -
  have small: "(120 - r) mod 64 = 56 - r" if "r \<le> 56" for r :: nat
  proof -
    from that have "120 - r = (56 - r) + 64" by simp
    then show ?thesis by (simp only: mod_add_self2) simp
  qed
  have large: "(120 - r) mod 64 = 120 - r" if "56 < r" for r :: nat
    using that by simp
  define r where "r = n mod 64"
  have "r < 64" by (simp add: r_def)
  then consider "r < 56" | "56 < r" "r < 63" | "r = 63"
    using assms r_def by linarith
  then show ?thesis
  proof cases
    case 1
    then have "Suc n mod 64 = Suc r" by (simp add: r_def mod_Suc)
    with 1 small [of r] small [of "Suc r"] show ?thesis unfolding r_def [symmetric] by simp
  next
    case 2
    then have "Suc n mod 64 = Suc r" by (simp add: r_def mod_Suc)
    with 2 large [of r] large [of "Suc r"] show ?thesis unfolding r_def [symmetric] by simp
  next
    case 3
    then have "Suc n mod 64 = 0" by (simp add: r_def mod_Suc)
    with 3 show ?thesis unfolding r_def [symmetric] by simp
  qed
qed

text \<open>\<open>while (msg.size() % 64 != 56) msg.push_back(0x00)\<close>.\<close>

function pad_zeros :: "bytes \<Rightarrow> bytes" where
  "pad_zeros msg = (if length msg mod 64 = 56 then msg else pad_zeros (msg @ [0]))"
  by pat_completeness auto
termination
proof (relation "measure (\<lambda>msg. (120 - length msg mod 64) mod 64)")
  fix msg :: bytes
  assume "length msg mod 64 \<noteq> 56"
  then have "(120 - Suc (length msg) mod 64) mod 64 < (120 - length msg mod 64) mod 64"
    using pad_measure [of "length msg"] by linarith
  then show "(msg @ [0], msg) \<in> measure (\<lambda>msg. (120 - length msg mod 64) mod 64)"
    by simp
qed simp

declare pad_zeros.simps [simp del]

text \<open>The 64-bit length, most significant byte first.\<close>

definition length_be :: "u64 \<Rightarrow> bytes" where
  "length_be n = map (\<lambda>i. ucast (drop_bit (i * 8) n AND 0xFF)) [7, 6, 5, 4, 3, 2, 1, 0]"

definition SHA256_pad :: "string \<Rightarrow> bytes" where
  "SHA256_pad input =
     (let msg = bytes_of input;
          bitLen = of_nat (length msg) * 8
      in pad_zeros (msg @ [0x80]) @ length_be bitLen)"

text \<open>The loop \<open>for (i = 0; i < msg.size(); i += n)\<close> over the blocks of \<open>n\<close> bytes.\<close>

function blocks :: "nat \<Rightarrow> 'a list \<Rightarrow> 'a list list" where
  "blocks n xs = (if n = 0 \<or> xs = [] then [] else take n xs # blocks n (drop n xs))"
  by pat_completeness auto
termination
  by (relation "measure (\<lambda>(n, xs). length xs)") auto

declare blocks.simps [simp del]

section \<open>Compression\<close>

definition word_be :: "bytes \<Rightarrow> u32" where
  "word_be b = push_bit 24 (ucast (b ! 0)) OR push_bit 16 (ucast (b ! 1))
     OR push_bit 8 (ucast (b ! 2)) OR ucast (b ! 3)"

text \<open>The message schedule \<open>w[0 .. 63]\<close> of a block.\<close>

definition schedule_step :: "nat \<Rightarrow> u32 list \<Rightarrow> u32 list" where
  "schedule_step j w =
     w @ [gamma1 (w ! (j - 2)) + w ! (j - 7) + gamma0 (w ! (j - 15)) + w ! (j - 16)]"

definition schedule :: "bytes \<Rightarrow> u32 list" where
  "schedule block = fold schedule_step [16..<64] (map word_be (blocks 4 block))"

fun round256 :: "u32 \<times> u32 \<Rightarrow> sha_state \<Rightarrow> sha_state" where
  "round256 (k, wj) (a, b, c, d, e, f, g, hh) =
     (let t1 = hh + sigma1 e + ch e f g + k + wj;
          t2 = sigma0 a + maj a b c
      in (t1 + t2, a, b, c, d + t1, e, f, g))"

fun add_state :: "sha_state \<Rightarrow> sha_state \<Rightarrow> sha_state" where
  "add_state (h0, h1, h2, h3, h4, h5, h6, h7) (a, b, c, d, e, f, g, hh) =
     (h0 + a, h1 + b, h2 + c, h3 + d, h4 + e, h5 + f, h6 + g, h7 + hh)"

definition compress256 :: "bytes \<Rightarrow> sha_state \<Rightarrow> sha_state" where
  "compress256 block h = add_state h (fold round256 (zip SHA256_K (schedule block)) h)"

fun SHA256_toHex :: "sha_state \<Rightarrow> string" where
  "SHA256_toHex (h0, h1, h2, h3, h4, h5, h6, h7) =
     concat (map (\<lambda>x. hex_setw 8 (unat x)) [h0, h1, h2, h3, h4, h5, h6, h7])"

definition SHA256_hash :: "string \<Rightarrow> string" where
  "SHA256_hash input = SHA256_toHex (fold compress256 (blocks 64 (SHA256_pad input)) SHA256_H0)"

section \<open>Padding is a whole number of blocks\<close>

lemma pad_zeros_append: "\<exists>k < 64. pad_zeros msg = msg @ replicate k 0 \<and> (length msg + k) mod 64 = 56"
proof -
  have "\<exists>k. k \<le> (120 - length msg mod 64) mod 64 \<and> pad_zeros msg = msg @ replicate k 0
      \<and> (length msg + k) mod 64 = 56"
  proof (induction msg rule: pad_zeros.induct)
    case (1 msg)
    show ?case
    proof (cases "length msg mod 64 = 56")
      case True
      then show ?thesis by (intro exI [of _ 0]) (simp add: pad_zeros.simps [of msg])
    next
      case False
      then obtain k where k: "k \<le> (120 - Suc (length msg) mod 64) mod 64"
        and eq: "pad_zeros (msg @ [0]) = (msg @ [0]) @ replicate k 0"
        and len: "(Suc (length msg) + k) mod 64 = 56"
        using "1.IH" by auto
      have "Suc k \<le> (120 - length msg mod 64) mod 64"
        using k pad_measure [OF False] by linarith
      with eq len False show ?thesis
        by (intro exI [of _ "Suc k"]) (simp add: pad_zeros.simps [of msg])
    qed
  qed
  then show ?thesis
    by (meson le_less_trans mod_less_divisor zero_less_numeral)
qed

lemma length_length_be [simp]: "length (length_be n) = 8"
  by (simp add: length_be_def)

lemma SHA256_pad_blocks: "length (SHA256_pad input) mod 64 = 0"
proof -
  obtain k where "pad_zeros (bytes_of input @ [0x80]) = (bytes_of input @ [0x80]) @ replicate k 0"
    and mod: "(length (bytes_of input @ [0x80]) + k) mod 64 = 56"
    using pad_zeros_append by blast
  then have "length (SHA256_pad input) = length (bytes_of input @ [0x80]) + k + 8"
    by (simp add: SHA256_pad_def Let_def)
  also have "\<dots> mod 64 = ((length (bytes_of input @ [0x80]) + k) mod 64 + 8) mod 64"
    by (rule mod_add_left_eq [symmetric])
  finally show ?thesis
    unfolding mod by simp
qed

lemma SHA256_pad_prefix: "take (length input) (SHA256_pad input) = bytes_of input"
proof -
  obtain k where "pad_zeros (bytes_of input @ [0x80]) = (bytes_of input @ [0x80]) @ replicate k 0"
    using pad_zeros_append by blast
  then show ?thesis
    by (simp add: SHA256_pad_def Let_def)
qed

lemma blocks_Nil [simp]: "blocks n [] = []"
  by (simp add: blocks.simps)

lemma blocks_step: "0 < n \<Longrightarrow> xs \<noteq> [] \<Longrightarrow> blocks n xs = take n xs # blocks n (drop n xs)"
  by (simp add: blocks.simps [of n xs])

lemma length_blocks:
  assumes "0 < n"
  shows "length xs = n * m \<Longrightarrow> length (blocks n xs) = m \<and> (\<forall>b \<in> set (blocks n xs). length b = n)"
proof (induction m arbitrary: xs)
  case 0
  then show ?case by simp
next
  case (Suc m)
  with assms have ne: "xs \<noteq> []" and len: "length (drop n xs) = n * m"
    and tk: "length (take n xs) = n" by auto
  from Suc.IH [OF len] tk show ?case
    unfolding blocks_step [OF assms ne] by (simp only: list.size list.set) auto
qed

lemma concat_blocks: "0 < n \<Longrightarrow> concat (blocks n xs) = xs"
proof (induction n xs rule: blocks.induct)
  case (1 n xs)
  then show ?case
    by (cases "xs = []") (simp_all add: blocks_step)
qed

lemma last_blocks:
  assumes "0 < n" and "xs \<noteq> []" and "length xs mod n = 0"
  shows "blocks n xs \<noteq> []" and "last (blocks n xs) = drop (length xs - n) xs"
proof -
  have "blocks n xs \<noteq> [] \<and> last (blocks n xs) = drop (length xs - n) xs"
    using assms
  proof (induction n xs rule: blocks.induct)
    case (1 n xs)
    show ?case
    proof (cases "drop n xs = []")
      case True
      with 1 have "length xs = n"
        by (metis dvd_imp_le drop_eq_Nil length_greater_0_conv mod_0_imp_dvd order.antisym)
      with 1 True show ?thesis by (simp add: blocks_step)
    next
      case False
      then have "n < length xs" by simp
      moreover have "length (drop n xs) mod n = 0"
        using 1 \<open>n < length xs\<close> by (simp add: le_mod_geq [symmetric])
      ultimately have "blocks n (drop n xs) \<noteq> []"
        and "last (blocks n (drop n xs)) = drop (length (drop n xs) - n) (drop n xs)"
        using "1.IH" "1.prems" False by simp_all
      moreover have "drop (length (drop n xs) - n) (drop n xs) = drop (length xs - n) xs"
      proof -
        have "n dvd length (drop n xs)" using \<open>length (drop n xs) mod n = 0\<close> by (rule mod_0_imp_dvd)
        then have "n \<le> length (drop n xs)" by (rule dvd_imp_le) (use False in simp)
        then show ?thesis by simp
      qed
      ultimately show ?thesis
        using "1.prems" by (simp add: blocks_step [of n xs])
    qed
  qed
  then show "blocks n xs \<noteq> []" and "last (blocks n xs) = drop (length xs - n) xs" by blast+
qed

section \<open>The padding determines the message\<close>

text \<open>
  The padding of SHA-256, and with another order of the bytes of the length the one of RIPEMD-160:
  the message, a bit, zeros, and the number of bits. Below \<open>2 ^ 61\<close> bytes that number is exact.
\<close>

definition md_pad :: "(u64 \<Rightarrow> bytes) \<Rightarrow> bytes \<Rightarrow> bytes" where
  "md_pad tail m = pad_zeros (m @ [0x80]) @ tail (of_nat (length m) * 8)"

lemma md_pad_shape:
  assumes "\<And>n. length (tail n) = 8"
  shows "\<exists>k < 64. md_pad tail m = m @ [0x80] @ replicate k 0 @ tail (of_nat (length m) * 8)
           \<and> (Suc (length m) + k) mod 64 = 56"
  using pad_zeros_append [of "m @ [0x80]"] by (auto simp: md_pad_def)

lemma pad_count:
  assumes "(n + k) mod 64 = (56 :: nat)" and "k < 64"
  shows "k = (if n mod 64 \<le> 56 then 56 - n mod 64 else 120 - n mod 64)"
proof -
  define r where "r = n mod 64"
  have "r < 64" and mod: "(r + k) mod 64 = 56" using assms(1) by (simp_all add: r_def mod_add_left_eq)
  consider "r + k < 64" | "64 \<le> r + k" "r + k - 64 < 64" using \<open>r < 64\<close> assms(2) by linarith
  then show ?thesis unfolding r_def [symmetric]
  proof cases
    case 1
    with mod show "k = (if r \<le> 56 then 56 - r else 120 - r)" by simp
  next
    case 2
    then have "r + k - 64 = 56" using mod by (simp add: le_mod_geq)
    with 2 assms(2) have "56 < r" and "k = 120 - r" by linarith+
    then show "k = (if r \<le> 56 then 56 - r else 120 - r)" by simp
  qed
qed

lemma md_pad_length:
  assumes "\<And>n. length (tail n) = 8"
  shows "length (md_pad tail m) mod 64 = 0" and "md_pad tail m \<noteq> []"
    and "length m = length m' \<Longrightarrow> length (md_pad tail m) = length (md_pad tail m')"
proof -
  obtain k where k: "k < 64" "md_pad tail m = m @ [0x80] @ replicate k 0 @ tail (of_nat (length m) * 8)"
    "(Suc (length m) + k) mod 64 = 56" using md_pad_shape [of tail m] assms by blast
  obtain k' where k': "k' < 64" "md_pad tail m' = m' @ [0x80] @ replicate k' 0 @ tail (of_nat (length m') * 8)"
    "(Suc (length m') + k') mod 64 = 56" using md_pad_shape [of tail m'] assms by blast
  from k(2) show "md_pad tail m \<noteq> []" by simp
  have "length (md_pad tail m) = (Suc (length m) + k) + 8" by (simp add: k(2) assms)
  also have "\<dots> mod 64 = ((Suc (length m) + k) mod 64 + 8) mod 64" by (rule mod_add_left_eq [symmetric])
  finally show "length (md_pad tail m) mod 64 = 0" unfolding k(3) by simp
  assume eq: "length m = length m'"
  then have "k = k'" using pad_count [OF k(3,1)] pad_count [OF k'(3,1)] by simp
  with eq show "length (md_pad tail m) = length (md_pad tail m')" by (simp add: k(2) k'(2) assms)
qed

lemma bit_length_inject:
  assumes "a < 2 ^ 61" and "b < 2 ^ 61" and "of_nat a * 8 = (of_nat b * 8 :: u64)"
  shows "a = b"
proof -
  have val: "unat (of_nat n * 8 :: u64) = n * 8" if "n < 2 ^ 61" for n
  proof -
    have "unat (of_nat n :: u64) = n" using that by (simp add: unat_of_nat)
    with that show ?thesis by (simp add: unat_word_ariths)
  qed
  from arg_cong [OF assms(3), of unat] show ?thesis unfolding val [OF assms(1)] val [OF assms(2)] by simp
qed

lemma md_pad_blocks_not_Nil: "(\<And>n. length (tail n) = 8) \<Longrightarrow> blocks 64 (md_pad tail m) \<noteq> []"
  using last_blocks(1) [of 64 "md_pad tail m"] md_pad_length(1,2) [of tail m] by simp

lemma md_pad_blocks:
  assumes "\<And>n. length (tail n) = 8" and "inj tail"
    and "length m < 2 ^ 61" and "length m' < 2 ^ 61"
  shows "last (blocks 64 (md_pad tail m)) = last (blocks 64 (md_pad tail m')) \<Longrightarrow>
      length (blocks 64 (md_pad tail m)) = length (blocks 64 (md_pad tail m'))"
    and "blocks 64 (md_pad tail m) = blocks 64 (md_pad tail m') \<Longrightarrow> m = m'"
proof -
  note pad = md_pad_length [of tail, OF assms(1)]
  let ?bs = "\<lambda>m. blocks 64 (md_pad tail m)"
  have tail: "drop 56 (last (?bs m)) = tail (of_nat (length m) * 8)" for m
  proof -
    obtain k where k: "md_pad tail m = m @ [0x80] @ replicate k 0 @ tail (of_nat (length m) * 8)"
      using md_pad_shape [of tail m] assms(1) by blast
    have "64 dvd length (md_pad tail m)" using pad(1) by (rule mod_0_imp_dvd)
    then have "64 \<le> length (md_pad tail m)" using pad(2) [of m] by (intro dvd_imp_le) auto
    then have "drop 56 (last (?bs m)) = drop (length (md_pad tail m) - 8) (md_pad tail m)"
      using last_blocks(2) [of 64 "md_pad tail m"] pad(1,2) by simp
    then show ?thesis by (simp add: k assms(1))
  qed
  have len: "length m = length m'" if "last (?bs m) = last (?bs m')"
  proof -
    have "tail (of_nat (length m) * 8) = tail (of_nat (length m') * 8)"
      using that unfolding tail [of m, symmetric] tail [of m', symmetric] by (rule arg_cong)
    then show ?thesis by (intro bit_length_inject [OF assms(3,4)] injD [OF assms(2)])
  qed
  show "length (?bs m) = length (?bs m')" if "last (?bs m) = last (?bs m')"
  proof -
    obtain q where q: "length (md_pad tail m) = 64 * q" using pad(1) by (meson mod_0_imp_dvd dvdE)
    have q': "length (md_pad tail m') = 64 * q" by (rule trans [OF sym [OF pad(3) [OF len [OF that]]] q])
    have "(0 :: nat) < 64" by simp
    from conjunct1 [OF length_blocks [OF this q]] conjunct1 [OF length_blocks [OF this q']]
    show ?thesis by (rule trans [OF _ sym])
  qed
  show "m = m'" if eq: "?bs m = ?bs m'"
  proof -
    have "md_pad tail m = md_pad tail m'" using arg_cong [OF eq, of concat] by (simp add: concat_blocks)
    moreover have "length m = length m'" using eq by (intro len) simp
    moreover have "take (length n) (md_pad tail n) = n" for n
      using pad_zeros_append [of "n @ [0x80]"] by (auto simp: md_pad_def)
    ultimately show ?thesis by (metis (no_types))
  qed
qed

lemma inj_length_be: "inj length_be"
proof (rule injI)
  fix a b :: u64 assume eq: "length_be a = length_be b"
  have "bit a i = bit b i" if "i < 64" for i
  proof -
    have "i div 8 < 8" using that by simp
    moreover have "[7, 6, 5, 4, 3, 2, 1, 0] = rev [0..<8]" by code_simp
    ultimately have "ucast (drop_bit (i div 8 * 8) a AND 0xFF) = (ucast (drop_bit (i div 8 * 8) b AND 0xFF) :: u8)"
      using eq unfolding length_be_def by simp
    moreover have "(0xFF :: u64) = mask 8" by (simp add: mask_eq_exp_minus_1)
    ultimately have "bit (ucast (drop_bit (i div 8 * 8) a AND mask 8) :: u8) (i mod 8)
        = bit (ucast (drop_bit (i div 8 * 8) b AND mask 8) :: u8) (i mod 8)" by simp
    moreover have "bit (ucast (drop_bit (i div 8 * 8) w AND mask 8) :: u8) (i mod 8) = bit w i" for w :: u64
      unfolding bit_ucast_iff bit_and_iff bit_mask_iff bit_drop_bit_eq comp_def div_mult_mod_eq
      using that by (auto simp del: One_nat_def)
    ultimately show ?thesis by blast
  qed
  then show "a = b" by (intro bit_word_eqI) simp
qed

section \<open>The interface of a hash\<close>

locale hex_digest =
  fixes digest :: "string \<Rightarrow> string"
  assumes digest_length: "length (digest s) = 64"
    and digest_hex: "is_hex (digest s)"
begin

text \<open>What the callers use: any prefix is a fixed number of hexadecimal digits.\<close>

lemma prefix_length: "n \<le> 64 \<Longrightarrow> length (take n (digest s)) = n"
  by (simp add: digest_length)

lemma prefix_hex: "is_hex (take n (digest s))"
  by (simp add: digest_hex)

lemma digest_not_Nil: "digest s \<noteq> []"
  using digest_length [of s] by auto

lemma no_char: "digit_val c = None \<Longrightarrow> c \<notin> set (digest s)"
  using digest_hex [of s] by (auto simp: is_hex_def list_all_iff)

lemma decodes: "\<exists>bs. parse_hex (digest s) = Inr bs \<and> length bs = 32"
  using parse_hex_Inr [of "digest s"] by (simp add: digest_length digest_hex)

lemma long_target_missed: "64 < n \<Longrightarrow> take n (digest s) \<noteq> replicate n c"
proof
  assume "64 < n" and "take n (digest s) = replicate n c"
  then have "length (take n (digest s)) = n" by simp
  with \<open>64 < n\<close> show False by (simp add: digest_length)
qed

end

lemma length_hex8 [simp]: "length (hex_setw 8 (unat (x :: u32))) = 8"
  using unsigned_less [of x] by (intro length_hex_setw) simp_all

lemma SHA256_toHex_shape: "length (SHA256_toHex h) = 64 \<and> is_hex (SHA256_toHex h)"
  by (cases h rule: SHA256_toHex.cases) simp

interpretation sha: hex_digest SHA256_hash
  by unfold_locales (simp_all add: SHA256_hash_def SHA256_toHex_shape)

lemmas SHA256_shape [simp] = sha.digest_length sha.digest_hex sha.digest_not_Nil

section \<open>Where collisions come from\<close>

lemma SHA256_pad_md: "SHA256_pad input = md_pad length_be (bytes_of input)"
  by (simp add: SHA256_pad_def md_pad_def)

interpretation sha_blocks: iterated_hash "\<lambda>s. blocks 64 (SHA256_pad s)" compress256 SHA256_H0 "\<lambda>s. length s < 2 ^ 61"
proof
  note md = md_pad_blocks [of length_be, OF length_length_be inj_length_be]
  show "blocks 64 (SHA256_pad s) \<noteq> []" for s
    unfolding SHA256_pad_md by (rule md_pad_blocks_not_Nil) simp
  fix s t :: string
  assume len: "length s < 2 ^ 61" "length t < 2 ^ 61"
  then have len': "length (bytes_of s) < 2 ^ 61" "length (bytes_of t) < 2 ^ 61" by simp_all
  show "length (blocks 64 (SHA256_pad s)) = length (blocks 64 (SHA256_pad t))"
    if "last (blocks 64 (SHA256_pad s)) = last (blocks 64 (SHA256_pad t))"
    using md(1) [OF len'] that by (simp add: SHA256_pad_md)
  show "s = t" if "blocks 64 (SHA256_pad s) = blocks 64 (SHA256_pad t)"
  proof -
    have "bytes_of s = bytes_of t" using md(2) [OF len'] that by (simp add: SHA256_pad_md)
    then show "s = t" by (metis string_of_bytes_of)
  qed
qed

text \<open>The output shows the whole chaining value.\<close>

lemma digits_val_hex_setw: "digits_val 16 (hex_setw w n) = n"
  by (simp add: hex_setw_def setw_fill_def digits_val_zeros digits_val_num_str)

lemma hex_setw_inject: "hex_setw w m = hex_setw w n \<Longrightarrow> m = n"
  by (metis digits_val_hex_setw)

lemma SHA256_toHex_inject: "SHA256_toHex h = SHA256_toHex h' \<Longrightarrow> h = h'"
  by (cases h rule: SHA256_toHex.cases; cases h' rule: SHA256_toHex.cases)
    (auto dest!: hex_setw_inject simp: unat_inject append_eq_append_conv)

abbreviation sha_calls :: "string \<Rightarrow> (bytes \<times> sha_state) set" where
  "sha_calls \<equiv> sha_blocks.used"

lemma SHA256_binds:
  assumes "length s < 2 ^ 61" and "length t < 2 ^ 61" and "SHA256_hash s = SHA256_hash t"
  shows "s = t \<or> clash compress256 (sha_calls s \<union> sha_calls t)"
  using sha_blocks.chaining_binds [OF assms(1,2)] SHA256_toHex_inject assms(3) by (auto simp: SHA256_hash_def)

lemma SHA256_hash_bytes: "\<exists>bs. SHA256_hash s = concat (map hex_byte bs) \<and> length bs = 32"
proof -
  have digits: "set (hex_setw 8 n) \<subseteq> digit_char ` {..<16}" for n
  proof -
    have "CHR ''0'' \<in> digit_char ` {..<16}" by (rule image_eqI [of _ _ 0]) simp_all
    then show ?thesis using num_str_digits [of 16 n] by (auto simp: hex_setw_def setw_fill_def)
  qed
  have "set (SHA256_toHex h) \<subseteq> digit_char ` {..<16}" for h
    by (cases h rule: SHA256_toHex.cases) (use digits in auto)
  then obtain bs where bs: "SHA256_hash s = concat (map hex_byte bs)"
    using lower_hex_bytes [of "SHA256_hash s"] by (auto simp: SHA256_hash_def SHA256_toHex_shape)
  moreover have "length (concat (map hex_byte bs)) = 2 * length bs" by (induction bs) simp_all
  ultimately show ?thesis using sha.digest_length [of s] by auto
qed

text \<open>The double hash of the program, \<open>SHA256::hash(SHA256::hash(s))\<close>.\<close>

definition double_hash :: "string \<Rightarrow> string" where
  "double_hash s = SHA256_hash (SHA256_hash s)"

interpretation dsha: hex_digest double_hash
  by unfold_locales (simp_all add: double_hash_def)

lemmas double_hash_shape [simp] = dsha.digest_length dsha.digest_hex dsha.digest_not_Nil

text \<open>
  No fixed-length hash is injective, so statements about binding name the texts that were hashed:
  \<open>collides S\<close> says that two different texts of the given set have the same double hash.
\<close>

definition collides :: "string set \<Rightarrow> bool" where
  "collides S \<longleftrightarrow> (\<exists>x \<in> S. \<exists>y \<in> S. x \<noteq> y \<and> double_hash x = double_hash y)"

lemma double_hash_bound: "double_hash x = double_hash y \<Longrightarrow> x = y \<or> collides {x, y}"
  by (auto simp: collides_def)

lemma collides_mono: "collides S \<Longrightarrow> S \<subseteq> T \<Longrightarrow> collides T"
  by (auto simp: collides_def)

text \<open>
  Behind such a collision stand two different calls of the compression function with one result:
  \<open>double_calls\<close> are the calls of the two hashes of a text.
\<close>

definition double_calls :: "string \<Rightarrow> (bytes \<times> sha_state) set" where
  "double_calls s = sha_calls s \<union> sha_calls (SHA256_hash s)"

lemma double_hash_binds:
  assumes "length s < 2 ^ 61" and "length t < 2 ^ 61" and "double_hash s = double_hash t"
  shows "s = t \<or> clash compress256 (double_calls s \<union> double_calls t)"
proof -
  have "length (SHA256_hash s) < 2 ^ 61" "length (SHA256_hash t) < 2 ^ 61" by simp_all
  from SHA256_binds [OF this] assms(3)
  have "SHA256_hash s = SHA256_hash t \<or> clash compress256 (sha_calls (SHA256_hash s) \<union> sha_calls (SHA256_hash t))"
    by (simp add: double_hash_def)
  then consider "clash compress256 (sha_calls (SHA256_hash s) \<union> sha_calls (SHA256_hash t))"
    | "s = t" | "clash compress256 (sha_calls s \<union> sha_calls t)"
    using SHA256_binds [OF assms(1,2)] by blast
  then show ?thesis
  proof cases
    case 1
    then have "clash compress256 (double_calls s \<union> double_calls t)"
      by (rule clash_mono) (auto simp: double_calls_def)
    then show ?thesis ..
  next
    case 3
    then have "clash compress256 (double_calls s \<union> double_calls t)"
      by (rule clash_mono) (auto simp: double_calls_def)
    then show ?thesis ..
  qed simp
qed

lemma collides_clash:
  assumes "collides S" and "\<forall>s \<in> S. length s < 2 ^ 61"
  shows "clash compress256 (\<Union>s \<in> S. double_calls s)"
proof -
  obtain s t where st: "s \<in> S" "t \<in> S" "s \<noteq> t" "double_hash s = double_hash t"
    using assms(1) by (auto simp: collides_def)
  then have "clash compress256 (double_calls s \<union> double_calls t)" using double_hash_binds assms(2) by blast
  then show ?thesis by (rule clash_mono) (use st in blast)
qed

lemma collides_singleton [simp]: "\<not> collides {x}"
  by (simp add: collides_def)

section \<open>Properties\<close>

lemma length_md_pad:
  assumes "\<And>n. length (tail n) = 8"
  shows "length (md_pad tail m) = 64 * ((length m + 8) div 64 + 1)"
proof -
  obtain k where k: "k < 64" "length (md_pad tail m) = length m + 9 + k"
    using md_pad_shape [of tail m] assms by auto
  obtain q where q: "length (md_pad tail m) = 64 * q"
    using md_pad_length(1) [of tail m] assms by (meson mod_0_imp_dvd dvdE)
  with k obtain r where r: "q = Suc r" by (cases q) auto
  with k q have "64 * r \<le> length m + 8" "length m + 8 < 64 * Suc r" by simp_all
  then have "(length m + 8) div 64 = r" by (rule div_nat_eqI)
  with q r show ?thesis by simp
qed

text \<open>C13: SHA-256 collides only where its compression function does: two texts of fewer than \<open>2 ^ 61\<close> bytes
  with one hash are equal, or two different calls of the compression function, among those the two
  computations make, have one result; a text of \<open>n\<close> bytes takes \<open>(n + 8) div 64 + 1\<close> calls. The same
  holds for the double hash behind identifiers, block hashes and Merkle roots, so every collision
  that the statements about binding name is one of the compression function.\<close>

theorem hash_collisions:
  assumes "length s < 2 ^ 61" and "length t < 2 ^ 61" and "SHA256_hash s = SHA256_hash t"
  shows "(s = t \<or> clash compress256 (sha_calls s \<union> sha_calls t))
       \<and> length (calls compress256 (blocks 64 (SHA256_pad s)) SHA256_H0) = (length s + 8) div 64 + 1
       \<and> (collides S \<and> (\<forall>x \<in> S. length x < 2 ^ 61) \<longrightarrow> clash compress256 (\<Union>x \<in> S. double_calls x))"
proof -
  have "(0 :: nat) < 64" by simp
  moreover have "length (SHA256_pad s) = 64 * ((length s + 8) div 64 + 1)"
    using length_md_pad [of length_be "bytes_of s"] by (simp add: SHA256_pad_md)
  ultimately have "length (blocks 64 (SHA256_pad s)) = (length s + 8) div 64 + 1"
    by (rule conjunct1 [OF length_blocks])
  then show ?thesis using SHA256_binds [OF assms] collides_clash [of S] by (simp only: length_calls) blast
qed

theorem hash_collisions_witness:
  "length (calls compress256 (blocks 64 (SHA256_pad ''abc'')) SHA256_H0) = 1"
  using hash_collisions [of "''abc''" "''abc''" "{}"] by simp

end
