(* ===== verification/RIPEMD160.thy ===== *)
theory RIPEMD160
  imports SHA256
begin

text \<open>
  \<open>src/src/crypto/ripemd160.{h,cpp}\<close>: the tables, the round functions, the little-endian
  padding, the two parallel lines of 80 steps, and the 20-byte result.
\<close>

definition RIPEMD160_K1 :: "u32 list" where
  "RIPEMD160_K1 = [0x00000000, 0x5A827999, 0x6ED9EBA1, 0x8F1BBCDC, 0xA953FD4E]"

definition RIPEMD160_K2 :: "u32 list" where
  "RIPEMD160_K2 = [0x50A28BE6, 0x5C4DD124, 0x6D703EF3, 0x7A6D76E9, 0x00000000]"

definition RIPEMD160_R1 :: "nat list" where
  "RIPEMD160_R1 = concat [
    [0, 1, 2, 3, 4, 5, 6, 7, 8, 9, 10, 11, 12, 13, 14, 15],
    [7, 4, 13, 1, 10, 6, 15, 3, 12, 0, 9, 5, 2, 14, 11, 8],
    [3, 10, 14, 4, 9, 15, 8, 1, 2, 7, 0, 6, 13, 11, 5, 12],
    [1, 9, 11, 10, 0, 8, 12, 4, 13, 3, 7, 15, 14, 5, 6, 2],
    [4, 0, 5, 9, 7, 12, 2, 10, 14, 1, 3, 8, 11, 6, 15, 13]
  ]"

definition RIPEMD160_R2 :: "nat list" where
  "RIPEMD160_R2 = concat [
    [5, 14, 7, 0, 9, 2, 11, 4, 13, 6, 15, 8, 1, 10, 3, 12],
    [6, 11, 3, 7, 0, 13, 5, 10, 14, 15, 8, 12, 4, 9, 1, 2],
    [15, 5, 1, 3, 7, 14, 6, 9, 11, 8, 12, 2, 10, 0, 4, 13],
    [8, 6, 4, 1, 3, 11, 15, 0, 5, 12, 2, 13, 9, 7, 10, 14],
    [12, 15, 10, 4, 1, 5, 8, 7, 6, 2, 13, 14, 0, 3, 9, 11]
  ]"

definition RIPEMD160_S1 :: "nat list" where
  "RIPEMD160_S1 = concat [
    [11, 14, 15, 12, 5, 8, 7, 9, 11, 13, 14, 15, 6, 7, 9, 8],
    [7, 6, 8, 13, 11, 9, 7, 15, 7, 12, 15, 9, 11, 7, 13, 12],
    [11, 13, 6, 7, 14, 9, 13, 15, 14, 8, 13, 6, 5, 12, 7, 5],
    [11, 12, 14, 15, 14, 15, 9, 8, 9, 14, 5, 6, 8, 6, 5, 12],
    [9, 15, 5, 11, 6, 8, 13, 12, 5, 12, 13, 14, 11, 8, 5, 6]
  ]"

definition RIPEMD160_S2 :: "nat list" where
  "RIPEMD160_S2 = concat [
    [8, 9, 9, 11, 13, 15, 15, 5, 7, 7, 8, 11, 14, 14, 12, 6],
    [9, 13, 15, 7, 12, 8, 9, 11, 7, 7, 12, 7, 6, 15, 13, 11],
    [9, 7, 15, 11, 8, 6, 6, 14, 12, 13, 5, 14, 13, 13, 7, 5],
    [15, 5, 8, 11, 14, 14, 6, 14, 6, 9, 12, 9, 12, 5, 15, 8],
    [8, 5, 12, 9, 12, 5, 14, 6, 8, 13, 6, 5, 15, 13, 11, 11]
  ]"

definition rol :: "u32 \<Rightarrow> nat \<Rightarrow> u32" where
  "rol x n = push_bit n x OR drop_bit (32 - n) x"

definition RIPEMD160_f :: "nat \<Rightarrow> u32 \<Rightarrow> u32 \<Rightarrow> u32 \<Rightarrow> u32" where
  "RIPEMD160_f j x y z =
     (if j < 16 then x XOR y XOR z
      else if j < 32 then (x AND y) OR (NOT x AND z)
      else if j < 48 then (x OR NOT y) XOR z
      else if j < 64 then (x AND z) OR (y AND NOT z)
      else x XOR (y OR NOT z))"

definition length_le :: "u64 \<Rightarrow> bytes" where
  "length_le n = map (\<lambda>i. ucast (drop_bit (8 * i) n)) [0, 1, 2, 3, 4, 5, 6, 7]"

definition RIPEMD160_pad :: "bytes \<Rightarrow> bytes" where
  "RIPEMD160_pad input =
     (let bitLen = of_nat (length input) * 8
      in pad_zeros (input @ [0x80]) @ length_le bitLen)"

definition word_le :: "bytes \<Rightarrow> u32" where
  "word_le b = ucast (b ! 0) OR push_bit 8 (ucast (b ! 1))
     OR push_bit 16 (ucast (b ! 2)) OR push_bit 24 (ucast (b ! 3))"

type_synonym rmd_line = "u32 \<times> u32 \<times> u32 \<times> u32 \<times> u32"

text \<open>One iteration of the loop over \<open>j\<close>: the left line, then the right line.\<close>

fun rmd_left :: "u32 list \<Rightarrow> nat \<Rightarrow> rmd_line \<Rightarrow> rmd_line" where
  "rmd_left X j (al, bl, cl, dl, el) =
     (let T = rol (al + RIPEMD160_f j bl cl dl + X ! (RIPEMD160_R1 ! j) + RIPEMD160_K1 ! (j div 16))
                (RIPEMD160_S1 ! j) + el
      in (el, T, bl, rol cl 10, dl))"

fun rmd_right :: "u32 list \<Rightarrow> nat \<Rightarrow> rmd_line \<Rightarrow> rmd_line" where
  "rmd_right X j (ar, br, cr, dr, er) =
     (let T = rol (ar + RIPEMD160_f (79 - j) br cr dr + X ! (RIPEMD160_R2 ! j) + RIPEMD160_K2 ! (j div 16))
                (RIPEMD160_S2 ! j) + er
      in (er, T, br, rol cr 10, dr))"

fun rmd_merge :: "rmd_line \<Rightarrow> rmd_line \<Rightarrow> rmd_line \<Rightarrow> rmd_line" where
  "rmd_merge (h0, h1, h2, h3, h4) (al, bl, cl, dl, el) (ar, br, cr, dr, er) =
     (h1 + cl + dr, h2 + dl + er, h3 + el + ar, h4 + al + br, h0 + bl + cr)"

definition rmd_block :: "bytes \<Rightarrow> rmd_line \<Rightarrow> rmd_line" where
  "rmd_block blk h =
     (let X = map word_le (blocks 4 blk);
          (l, r) = fold (\<lambda>j (l, r). (rmd_left X j l, rmd_right X j r)) [0..<80] (h, h)
      in rmd_merge h l r)"

definition bytes_le :: "u32 \<Rightarrow> bytes" where
  "bytes_le h = [ucast h, ucast (drop_bit 8 h), ucast (drop_bit 16 h), ucast (drop_bit 24 h)]"

fun rmd_result :: "rmd_line \<Rightarrow> bytes" where
  "rmd_result (h0, h1, h2, h3, h4) = concat (map bytes_le [h0, h1, h2, h3, h4])"

definition RIPEMD160_hashBytes :: "bytes \<Rightarrow> bytes" where
  "RIPEMD160_hashBytes input =
     rmd_result (fold rmd_block (blocks 64 (RIPEMD160_pad input))
       (0x67452301, 0xEFCDAB89, 0x98BADCFE, 0x10325476, 0xC3D2E1F0))"

definition RIPEMD160_toHex :: "bytes \<Rightarrow> string" where
  "RIPEMD160_toHex d = concat (map hex_byte d)"

definition RIPEMD160_hash :: "string \<Rightarrow> string" where
  "RIPEMD160_hash input = RIPEMD160_toHex (RIPEMD160_hashBytes (bytes_of input))"

lemma length_RIPEMD160_hashBytes [simp]: "length (RIPEMD160_hashBytes input) = 20"
proof -
  have "length (rmd_result h) = 20" for h
    by (cases h rule: rmd_result.cases) (simp add: bytes_le_def)
  then show ?thesis by (simp add: RIPEMD160_hashBytes_def)
qed

lemma length_concat_hex_bytes [simp]: "length (concat (map hex_byte bs)) = 2 * length bs"
  by (induction bs) auto

lemma RIPEMD160_hash_shape: "length (RIPEMD160_hash s) = 40 \<and> is_hex (RIPEMD160_hash s)"
  by (simp add: RIPEMD160_hash_def RIPEMD160_toHex_def)

text \<open>The padded message is a whole number of blocks, so no read of \<open>X\<close> is past its end.\<close>

lemma RIPEMD160_pad_md: "RIPEMD160_pad input = md_pad length_le input"
  by (simp add: RIPEMD160_pad_def md_pad_def)

lemma length_length_le [simp]: "length (length_le n) = 8"
  by (simp add: length_le_def)

lemma RIPEMD160_pad_blocks: "length (RIPEMD160_pad input) mod 64 = 0"
  unfolding RIPEMD160_pad_md by (rule md_pad_length(1)) simp

section \<open>Where collisions come from\<close>

lemma inj_length_le: "inj length_le"
proof (rule injI)
  fix a b :: u64 assume eq: "length_le a = length_le b"
  have "bit a i = bit b i" if "i < 64" for i
  proof -
    have "i div 8 < 8" using that by simp
    moreover have "[0, 1, 2, 3, 4, 5, 6, 7] = [0..<8]" by code_simp
    ultimately have "ucast (drop_bit (8 * (i div 8)) a) = (ucast (drop_bit (8 * (i div 8)) b) :: u8)"
      using eq unfolding length_le_def by simp
    moreover have "bit (ucast (drop_bit (8 * (i div 8)) w) :: u8) (i mod 8) = bit w i" for w :: u64
      unfolding bit_ucast_iff bit_drop_bit_eq comp_def mult_div_mod_eq using that by auto
    ultimately show ?thesis by metis
  qed
  then show "a = b" by (intro bit_word_eqI) simp
qed

interpretation rmd_blocks: iterated_hash "\<lambda>m. blocks 64 (RIPEMD160_pad m)" rmd_block
  "(0x67452301, 0xEFCDAB89, 0x98BADCFE, 0x10325476, 0xC3D2E1F0)" "\<lambda>m. length m < 2 ^ 61"
proof
  note md = md_pad_blocks [of length_le, OF length_length_le inj_length_le]
  fix m m' :: bytes
  show "blocks 64 (RIPEMD160_pad m) \<noteq> []"
    unfolding RIPEMD160_pad_md by (rule md_pad_blocks_not_Nil) simp
  assume len: "length m < 2 ^ 61" "length m' < 2 ^ 61"
  show "length (blocks 64 (RIPEMD160_pad m)) = length (blocks 64 (RIPEMD160_pad m'))"
    if "last (blocks 64 (RIPEMD160_pad m)) = last (blocks 64 (RIPEMD160_pad m'))"
    using md(1) [OF len] that by (simp add: RIPEMD160_pad_md)
  show "m = m'" if "blocks 64 (RIPEMD160_pad m) = blocks 64 (RIPEMD160_pad m')"
    using md(2) [OF len] that by (simp add: RIPEMD160_pad_md)
qed

text \<open>The result shows the whole chaining value.\<close>

lemma bytes_le_inject: "bytes_le a = bytes_le b \<Longrightarrow> a = b"
proof -
  assume eq: "bytes_le a = bytes_le b"
  have "bit a i = bit b i" if "i < 32" for i
  proof -
    have "i div 8 < 4" using that by simp
    then consider "i div 8 = 0" | "i div 8 = 1" | "i div 8 = 2" | "i div 8 = 3" by linarith
    then have "ucast (drop_bit (8 * (i div 8)) a) = (ucast (drop_bit (8 * (i div 8)) b) :: u8)"
      using eq by cases (simp_all add: bytes_le_def)
    moreover have "bit (ucast (drop_bit (8 * (i div 8)) w) :: u8) (i mod 8) = bit w i" for w :: u32
      unfolding bit_ucast_iff bit_drop_bit_eq comp_def mult_div_mod_eq using that by auto
    ultimately show ?thesis by metis
  qed
  then show "a = b" by (intro bit_word_eqI) simp
qed

lemma length_bytes_le [simp]: "length (bytes_le h) = 4"
  by (simp add: bytes_le_def)

lemma rmd_result_inject: "rmd_result h = rmd_result h' \<Longrightarrow> h = h'"
  by (cases h rule: rmd_result.cases; cases h' rule: rmd_result.cases) (auto dest!: bytes_le_inject)

abbreviation rmd_calls :: "bytes \<Rightarrow> (bytes \<times> rmd_line) set" where
  "rmd_calls \<equiv> rmd_blocks.used"

lemma RIPEMD160_binds:
  assumes "length s < 2 ^ 61" and "length t < 2 ^ 61" and "RIPEMD160_hashBytes s = RIPEMD160_hashBytes t"
  shows "s = t \<or> clash rmd_block (rmd_calls s \<union> rmd_calls t)"
  using rmd_blocks.chaining_binds [OF assms(1,2)] rmd_result_inject assms(3) by (auto simp: RIPEMD160_hashBytes_def)

end
