(* ===== verification/Base58.thy ===== *)
theory Base58
  imports RIPEMD160
begin

text \<open>
  \<open>src/src/crypto/base58.{h,cpp}\<close>: the base 256 to base 58 conversion by repeated division of
  a byte vector, its inverse by repeated multiplication, and the checksummed forms. The
  specification is arithmetic: a byte vector denotes a number (\<open>val256\<close>), and encoding and
  decoding keep the number and the count of leading zero bytes.
\<close>

section \<open>The code\<close>

definition ALPHABET :: string where
  "ALPHABET = ''123456789ABCDEFGHJKLMNPQRSTUVWXYZabcdefghijkmnopqrstuvwxyz''"

text \<open>The inner loop of \<open>encode\<close>: one long division of \<open>tmp\<close> by 58.\<close>

fun div58 :: "bytes \<Rightarrow> nat \<Rightarrow> bytes \<Rightarrow> bytes \<times> nat" where
  "div58 [] rem nxt = (nxt, rem)"
| "div58 (b # bs) rem nxt =
     (let cur = rem * 256 + unat b
      in div58 bs (cur mod 58)
           (if nxt \<noteq> [] \<or> 0 < cur div 58 then nxt @ [of_nat (cur div 58)] else nxt))"

text \<open>The number a byte vector denotes, most significant byte first.\<close>

definition val256 :: "bytes \<Rightarrow> nat" where
  "val256 bs = foldl (\<lambda>a b. a * 256 + unat b) 0 bs"

lemma val256_Nil [simp]: "val256 [] = 0"
  by (simp add: val256_def)

lemma val256_snoc [simp]: "val256 (bs @ [b]) = val256 bs * 256 + unat b"
  by (simp add: val256_def)

lemma div58_spec:
  assumes "div58 bs r nxt = (nxt', r')" and "r < 58"
    and "nxt = [] \<or> hd nxt \<noteq> 0"
  shows "foldl (\<lambda>a b. a * 256 + unat b) (val256 nxt * 58 + r) bs = val256 nxt' * 58 + r' \<and>
         r' < 58 \<and> (nxt' = [] \<or> hd nxt' \<noteq> 0)"
  using assms
proof (induction bs arbitrary: r nxt)
  case Nil
  then show ?case by simp
next
  case (Cons b bs)
  define cur where "cur = r * 256 + unat b"
  define nx where "nx = (if nxt \<noteq> [] \<or> 0 < cur div 58 then nxt @ [of_nat (cur div 58)] else nxt)"
  have step: "div58 bs (cur mod 58) nx = (nxt', r')"
    unfolding nx_def cur_def using Cons.prems(1) by (simp add: Let_def split del: if_split)
  have "cur < 58 * 256"
    using Cons.prems(2) unat_u8_less [of b] unfolding cur_def by linarith
  then have q: "cur div 58 < 256"
    by (simp add: div_less_iff_less_mult)
  then have uq: "unat (of_nat (cur div 58) :: u8) = cur div 58"
    by (simp add: unat_of_nat)
  have val: "val256 nx * 58 + cur mod 58 = (val256 nxt * 58 + r) * 256 + unat b"
  proof (cases "nxt \<noteq> [] \<or> 0 < cur div 58")
    case True
    then have "val256 nx * 58 + cur mod 58 = val256 nxt * 256 * 58 + (cur div 58 * 58 + cur mod 58)"
      by (simp add: nx_def uq distrib_right)
    also have "cur div 58 * 58 + cur mod 58 = cur" by (rule div_mult_mod_eq)
    finally show ?thesis by (simp add: cur_def)
  next
    case False
    then have "nxt = []" and "cur div 58 = 0" by auto
    then have "cur mod 58 = cur" by (metis div_mult_mod_eq mult_0 add_0)
    with \<open>nxt = []\<close> False show ?thesis by (simp add: nx_def cur_def)
  qed
  have "nx = [] \<or> hd nx \<noteq> 0"
  proof -
    have "(of_nat (cur div 58) :: u8) \<noteq> 0" if "0 < cur div 58"
      using that uq by (metis unsigned_0 less_irrefl)
    with Cons.prems(3) show ?thesis by (cases nxt) (auto simp: nx_def)
  qed
  from Cons.IH [OF step _ this] have
    "foldl (\<lambda>a b. a * 256 + unat b) (val256 nx * 58 + cur mod 58) bs = val256 nxt' * 58 + r' \<and>
      r' < 58 \<and> (nxt' = [] \<or> hd nxt' \<noteq> 0)" by simp
  then show ?case by (simp add: val)
qed

lemma div58_val:
  assumes "div58 tmp 0 [] = (nxt, r)"
  shows "val256 nxt = val256 tmp div 58" and "r = val256 tmp mod 58"
    and "r < 58" and "nxt = [] \<or> hd nxt \<noteq> 0"
proof -
  from div58_spec [OF assms] have "val256 tmp = val256 nxt * 58 + r" and r: "r < 58"
    and hd: "nxt = [] \<or> hd nxt \<noteq> 0"
    by (auto simp: val256_def)
  then show "val256 nxt = val256 tmp div 58" and "r = val256 tmp mod 58" by auto
  from r hd show "r < 58" and "nxt = [] \<or> hd nxt \<noteq> 0" by auto
qed

lemma foldl_256_ge: "c \<le> foldl (\<lambda>a b. a * 256 + unat (b :: u8)) c bs"
proof (induction bs arbitrary: c)
  case Nil
  then show ?case by simp
next
  case (Cons b bs)
  have "c \<le> c * 256 + unat b" by simp
  also have "\<dots> \<le> foldl (\<lambda>a b. a * 256 + unat b) (c * 256 + unat b) bs" by (rule Cons.IH)
  finally show ?case by simp
qed

lemma val256_pos: "bs \<noteq> [] \<Longrightarrow> hd bs \<noteq> 0 \<Longrightarrow> 0 < val256 bs"
proof (cases bs)
  case (Cons b cs)
  moreover assume "hd bs \<noteq> 0"
  ultimately have "0 < unat b" by (simp add: unat_gt_0)
  then show ?thesis
    using foldl_256_ge [of "unat b" cs] Cons by (simp add: val256_def)
qed simp

text \<open>
  The outer loop of \<open>encode\<close>: \<open>result\<close> collects the digits, least significant first. It
  stops because each round divides the number by 58, and a number 0 leaves \<open>next\<close> empty.
\<close>

function encode_loop :: "bytes \<Rightarrow> string \<Rightarrow> string" where
  "encode_loop tmp result =
     (if tmp = [] then result
      else let (nxt, rem) = div58 tmp 0 [] in encode_loop nxt (result @ [ALPHABET ! rem]))"
  by pat_completeness auto
termination
proof (relation "measure (\<lambda>(tmp, _). if tmp = [] then 0 else Suc (val256 tmp))")
  fix tmp result p nxt r
  assume "tmp \<noteq> []" and "p = div58 tmp 0 []" and "(nxt, r) = p"
  then have d: "div58 tmp 0 [] = (nxt, r)" by simp
  note v = div58_val [OF d]
  have "val256 nxt < val256 tmp" if "nxt \<noteq> []"
    using v(1) val256_pos [of nxt] v(4) that by (metis div_less_dividend div_0 gr0I less_numeral_extra(3) one_less_numeral_iff semiring_norm(76))
  with \<open>tmp \<noteq> []\<close>
  show "((nxt, result @ [ALPHABET ! r]), tmp, result)
        \<in> measure (\<lambda>(tmp, _). if tmp = [] then 0 else Suc (val256 tmp))"
    by simp
qed simp

declare encode_loop.simps [simp del]

definition Base58_encode :: "bytes \<Rightarrow> string" where
  "Base58_encode data =
     (let zeros = length (takeWhile (\<lambda>b. b = 0) data);
          result = encode_loop data []
      in rev (result @ replicate zeros (CHR ''1'')))"

text \<open>\<open>while (carry) { result.insert(result.begin(), carry & 0xFF); carry >>= 8; }\<close>\<close>

function insert_carry :: "nat \<Rightarrow> bytes \<Rightarrow> bytes" where
  "insert_carry carry result =
     (if carry = 0 then result else insert_carry (carry div 256) (of_nat (carry mod 256) # result))"
  by pat_completeness auto
termination
  by (relation "measure fst") auto

declare insert_carry.simps [simp del]

text \<open>
  One character of \<open>decode\<close>: from the last byte to the first, \<open>carry += 58 * byte\<close>,
  \<open>byte = carry & 0xFF\<close>, \<open>carry >>= 8\<close>; then the carry is put in front.
\<close>

fun mul58_add :: "bytes \<Rightarrow> nat \<Rightarrow> bytes \<times> nat" where
  "mul58_add [] carry = ([], carry)"
| "mul58_add (b # bs) carry =
     (let (rs, c) = mul58_add bs carry;
          c' = c + 58 * unat b
      in (of_nat (c' mod 256) # rs, c' div 256))"

definition decode_digit :: "char \<Rightarrow> bytes \<Rightarrow> bytes result" where
  "decode_digit c result =
     (let pos = str_find ALPHABET [c]
      in if pos = npos then Inl Invalid_argument
         else let (rs, carry) = mul58_add result pos in Inr (insert_carry carry rs))"

fun decode_chars :: "string \<Rightarrow> bytes \<Rightarrow> bytes result" where
  "decode_chars [] result = Inr result"
| "decode_chars (c # cs) result = bind_result (decode_digit c result) (decode_chars cs)"

definition Base58_decode :: "string \<Rightarrow> bytes result" where
  "Base58_decode encoded =
     (let zeros = length (takeWhile (\<lambda>c. c = CHR ''1'') encoded)
      in bind_result (decode_chars encoded []) (\<lambda>result. Inr (replicate zeros 0 @ result)))"

text \<open>
  The checksum of \<open>encodeCheck\<close> and \<open>decodeCheck\<close>: the first four bytes of the SHA-256 of
  the bytes of the SHA-256. The hexadecimal digests are parsed with \<open>std::stoi\<close>.
\<close>

definition checksum4 :: "bytes \<Rightarrow> bytes result" where
  "checksum4 data =
     bind_result (parse_hex (SHA256_hash (string_of data)))
       (\<lambda>h1bytes. let h2 = SHA256_hash (string_of h1bytes)
                  in map_result (\<lambda>i. parse_byte (take 2 (drop i h2))) [0, 2, 4, 6])"

definition Base58_encodeCheck :: "u8 \<Rightarrow> bytes \<Rightarrow> string result" where
  "Base58_encodeCheck version payload =
     (let data = [version] @ payload
      in bind_result (checksum4 data) (\<lambda>cs. Inr (Base58_encode (data @ cs))))"

text \<open>
  \<open>decodeCheck\<close>: \<open>None\<close> is \<open>false\<close> (an exception is caught and gives \<open>false\<close>),
  \<open>Some (version, payload)\<close> is \<open>true\<close> with the two output parameters.
\<close>

definition Base58_decodeCheck :: "string \<Rightarrow> (u8 \<times> bytes) option" where
  "Base58_decodeCheck encoded =
     (case Base58_decode encoded of
        Inl _ \<Rightarrow> None
      | Inr data \<Rightarrow>
          if length data < 5 then None
          else (let version = data ! 0;
                    payload = drop 1 (take (length data - 4) data);
                    checksum = drop (length data - 4) data
                in case checksum4 (take (length data - 4) data) of
                     Inl _ \<Rightarrow> None
                   | Inr cs \<Rightarrow> if checksum = cs then Some (version, payload) else None))"

definition Base58_isValid :: "string \<Rightarrow> bool" where
  "Base58_isValid address \<longleftrightarrow> Base58_decodeCheck address \<noteq> None"

section \<open>Encoding and decoding keep the number\<close>

definition digit58 :: "nat \<Rightarrow> char" where
  "digit58 d = ALPHABET ! d"

text \<open>The base 58 digits of a positive number, most significant first; none for 0.\<close>

function digits58 :: "nat \<Rightarrow> nat list" where
  "digits58 n = (if n = 0 then [] else digits58 (n div 58) @ [n mod 58])"
  by pat_completeness auto
termination
  by (relation "measure id") auto

declare digits58.simps [simp del]

lemma digits58_0 [simp]: "digits58 0 = []"
  by (simp add: digits58.simps)

lemma digits58_pos: "0 < n \<Longrightarrow> digits58 n = digits58 (n div 58) @ [n mod 58]"
  by (simp add: digits58.simps [of n])

lemma digits58_less: "d \<in> set (digits58 n) \<Longrightarrow> d < 58"
proof (induction n rule: digits58.induct)
  case (1 n)
  then show ?case by (cases "n = 0") (auto simp: digits58_pos)
qed

lemma digits58_hd: "0 < n \<Longrightarrow> digits58 n \<noteq> [] \<and> hd (digits58 n) \<noteq> 0"
proof (induction n rule: digits58.induct)
  case (1 n)
  then show ?case
    by (cases "n div 58 = 0") (auto simp: digits58_pos hd_append)
qed

lemma foldl_digits58: "foldl (\<lambda>a d. a * 58 + d) 0 (digits58 n) = n"
proof (induction n rule: digits58.induct)
  case (1 n)
  then show ?case by (cases "n = 0") (simp_all add: digits58_pos)
qed

lemma encode_loop_digits:
  "tmp \<noteq> [] \<Longrightarrow> 0 < val256 tmp \<Longrightarrow>
     encode_loop tmp result = result @ map digit58 (rev (digits58 (val256 tmp)))"
proof (induction tmp result rule: encode_loop.induct)
  case (1 tmp result)
  obtain nxt r where d: "div58 tmp 0 [] = (nxt, r)" by (cases "div58 tmp 0 []")
  note v = div58_val [OF d]
  have unfold: "encode_loop tmp result = encode_loop nxt (result @ [ALPHABET ! r])"
    using "1.prems"(1) d by (simp add: encode_loop.simps [of tmp])
  have IH: "nxt \<noteq> [] \<Longrightarrow> 0 < val256 nxt \<Longrightarrow>
      encode_loop nxt (result @ [ALPHABET ! r]) =
      (result @ [ALPHABET ! r]) @ map digit58 (rev (digits58 (val256 nxt)))"
    using "1.IH" "1.prems"(1) d by simp
  show ?case
  proof (cases "nxt = []")
    case True
    then have "val256 tmp div 58 = 0" using v(1) by simp
    with unfold True v(2) "1.prems"(2) show ?thesis
      by (simp add: digits58_pos encode_loop.simps [of "[]"] digit58_def)
  next
    case False
    then have "0 < val256 nxt" using v(4) val256_pos by blast
    with IH [OF False] unfold v(1,2) "1.prems"(2) show ?thesis
      by (simp add: digits58_pos [of "val256 tmp"] digit58_def)
  qed
qed

text \<open>The prefix of zero bytes and the rest of a vector that is not all zeros.\<close>

lemma split_zeros:
  assumes "\<exists>b \<in> set data. b \<noteq> (0 :: u8)"
  obtains r where "data = replicate (length (takeWhile (\<lambda>b. b = 0) data)) 0 @ r"
    and "r \<noteq> []" and "hd r \<noteq> 0" and "0 < val256 data" and "val256 data = val256 r"
proof -
  let ?z = "takeWhile (\<lambda>b. b = 0) data" and ?r = "dropWhile (\<lambda>b. b = 0) data"
  have z: "?z = replicate (length ?z) 0"
    by (rule replicate_eqI [OF refl]) (auto dest: set_takeWhileD)
  have ne: "?r \<noteq> []" using assms by (simp add: dropWhile_eq_Nil_conv)
  then have hd: "hd ?r \<noteq> 0" using hd_dropWhile by blast
  have "val256 (replicate n 0 @ r) = val256 r" for n r
    by (induction n) (simp_all add: val256_def)
  then have "val256 data = val256 ?r" using z by (metis takeWhile_dropWhile_id)
  moreover have "data = replicate (length ?z) 0 @ ?r"
    using z takeWhile_dropWhile_id by metis
  moreover have "0 < val256 ?r" using ne hd by (rule val256_pos)
  ultimately show ?thesis using that [of ?r] ne hd by simp
qed

lemma encode_form:
  assumes "\<exists>b \<in> set data. b \<noteq> 0"
  shows "Base58_encode data =
    replicate (length (takeWhile (\<lambda>b. b = 0) data)) (CHR ''1'') @ map digit58 (digits58 (val256 data))"
proof -
  obtain r where "data = replicate (length (takeWhile (\<lambda>b. b = 0) data)) 0 @ r"
    and "r \<noteq> []" and "0 < val256 data"
    using split_zeros [OF assms] by metis
  moreover from this have "data \<noteq> []" by auto
  ultimately show ?thesis
    by (simp add: Base58_encode_def Let_def encode_loop_digits rev_map)
qed

lemma val256_Cons: "val256 (x # xs) = unat x * 256 ^ length xs + val256 xs"
proof (induction xs rule: rev_induct)
  case (snoc y ys)
  have "val256 (x # ys @ [y]) = val256 ((x # ys) @ [y])" by simp
  also have "\<dots> = val256 (x # ys) * 256 + unat y" by (rule val256_snoc)
  finally show ?case using snoc by (simp add: algebra_simps)
qed (simp add: val256_def)

lemma div_mod_pow: "x div 256 * (256 * p) + x mod 256 * p = x * (p :: nat)"
proof -
  have "x div 256 * (256 * p) + x mod 256 * p = (x div 256 * 256 + x mod 256) * p"
    by (simp only: distrib_right mult.assoc)
  then show ?thesis by (simp only: div_mult_mod_eq)
qed

text \<open>Decoding one character multiplies the number by 58 and adds its position.\<close>

lemma mul58_add_spec:
  "mul58_add bs carry = (rs, c) \<Longrightarrow>
     length rs = length bs \<and> c * 256 ^ length bs + val256 rs = val256 bs * 58 + carry"
proof (induction bs arbitrary: rs c)
  case Nil
  then show ?case by simp
next
  case (Cons b bs)
  obtain rs0 c0 where m: "mul58_add bs carry = (rs0, c0)" by (cases "mul58_add bs carry")
  define x where "x = c0 + 58 * unat b"
  from m Cons.prems have rs: "rs = of_nat (x mod 256) # rs0" and c: "c = x div 256"
    by (auto simp: Let_def x_def)
  from Cons.IH [OF m] have len: "length rs0 = length bs"
    and IH: "c0 * 256 ^ length bs + val256 rs0 = val256 bs * 58 + carry" by auto
  have "unat (of_nat (x mod 256) :: u8) = x mod 256" by (simp add: unat_of_nat)
  then have "c * 256 ^ length (b # bs) + val256 rs =
      (x div 256 * 256 + x mod 256) * 256 ^ length bs + val256 rs0"
    by (simp add: rs c val256_Cons len div_mod_pow)
  also have "\<dots> = x * 256 ^ length bs + val256 rs0"
    by (simp only: div_mult_mod_eq)
  also have "\<dots> = val256 (b # bs) * 58 + carry"
    using IH by (simp add: val256_Cons x_def algebra_simps)
  finally show ?case by (simp add: rs len)
qed

lemma insert_carry_spec:
  "val256 (insert_carry c rs) = c * 256 ^ length rs + val256 rs \<and>
   (0 < c \<or> rs = [] \<or> hd rs \<noteq> 0 \<longrightarrow> insert_carry c rs = [] \<or> hd (insert_carry c rs) \<noteq> 0)"
proof (induction c rs rule: insert_carry.induct)
  case (1 c rs)
  show ?case
  proof (cases "c = 0")
    case True
    then show ?thesis by (simp add: insert_carry.simps [of 0])
  next
    case False
    let ?x = "of_nat (c mod 256) :: u8"
    have u: "unat ?x = c mod 256" by (simp add: unat_of_nat)
    have hd: "c div 256 = 0 \<Longrightarrow> ?x \<noteq> 0"
    proof -
      assume "c div 256 = 0"
      then have "c mod 256 \<noteq> 0" using False by (metis div_mult_mod_eq mult_0 add_0)
      then show ?thesis using u by (metis unsigned_0)
    qed
    have "c div 256 * 256 ^ length (?x # rs) + val256 (?x # rs)
        = (c div 256 * 256 + c mod 256) * 256 ^ length rs + val256 rs"
      by (simp add: val256_Cons u div_mod_pow)
    also have "\<dots> = c * 256 ^ length rs + val256 rs" by (simp only: div_mult_mod_eq)
    finally have "val256 (insert_carry c rs) = c * 256 ^ length rs + val256 rs"
      using "1.IH" [OF False] False by (simp add: insert_carry.simps [of c])
    moreover have "insert_carry c rs = [] \<or> hd (insert_carry c rs) \<noteq> 0"
    proof -
      have "0 < c div 256 \<or> ?x # rs = [] \<or> hd (?x # rs) \<noteq> 0" using hd by auto
      then have "insert_carry (c div 256) (?x # rs) = [] \<or> hd (insert_carry (c div 256) (?x # rs)) \<noteq> 0"
        using "1.IH" [OF False] by blast
      with False show ?thesis by (simp add: insert_carry.simps [of c])
    qed
    ultimately show ?thesis by blast
  qed
qed

lemma val256_less: "val256 bs < 256 ^ length bs"
proof (induction bs rule: rev_induct)
  case (snoc b bs)
  have "val256 bs * 256 + unat b < (val256 bs + 1) * 256"
    using unat_u8_less [of b] by simp
  also have "\<dots> \<le> 256 ^ length bs * 256" using snoc by (intro mult_le_mono1) simp
  finally show ?case by simp
qed simp

lemma val256_ge: "bs \<noteq> [] \<Longrightarrow> hd bs \<noteq> 0 \<Longrightarrow> 256 ^ (length bs - 1) \<le> val256 bs"
proof (cases bs)
  case (Cons b cs)
  moreover assume "hd bs \<noteq> 0"
  ultimately have "1 \<le> unat b" by (simp add: Suc_leI unat_gt_0)
  then have "1 * 256 ^ length cs \<le> unat b * 256 ^ length cs" by (rule mult_le_mono1)
  then have "256 ^ length cs \<le> unat b * 256 ^ length cs + val256 cs" by linarith
  with Cons show ?thesis by (simp add: val256_Cons)
qed simp

text \<open>A vector with no leading zero byte is determined by its number.\<close>

lemma val256_inj_length: "length xs = length ys \<Longrightarrow> val256 xs = val256 ys \<Longrightarrow> xs = ys"
proof (induction xs arbitrary: ys rule: rev_induct)
  case (snoc x xs)
  then obtain y zs where ys: "ys = zs @ [y]" and "length zs = length xs"
    by (metis append_butlast_last_id length_append_singleton length_butlast diff_Suc_1 length_0_conv nat.distinct(1))
  from snoc.prems(2) ys have eq: "val256 xs * 256 + unat x = val256 zs * 256 + unat y" by simp
  have "unat x = (val256 xs * 256 + unat x) mod 256" by simp
  moreover have "unat y = (val256 zs * 256 + unat y) mod 256" by simp
  ultimately have "unat x = unat y" using eq by simp
  with eq have "x = y" and "val256 xs = val256 zs" by (simp_all add: word_unat_eq_iff)
  with snoc.IH [of zs] \<open>length zs = length xs\<close> ys show ?case by simp
qed simp

lemma val256_inj:
  assumes "xs = [] \<or> hd xs \<noteq> 0" and "ys = [] \<or> hd ys \<noteq> 0" and "val256 xs = val256 ys"
  shows "xs = ys"
proof -
  have le: "length us \<le> length vs"
    if "us = [] \<or> hd us \<noteq> 0" and "val256 us = val256 vs" for us vs :: bytes
  proof (rule ccontr)
    assume "\<not> length us \<le> length vs"
    then have "us \<noteq> []" and "length vs \<le> length us - 1" by auto
    then have "256 ^ length vs \<le> (256 :: nat) ^ (length us - 1)" by (intro power_increasing) auto
    also have "\<dots> \<le> val256 us" using that(1) \<open>us \<noteq> []\<close> by (intro val256_ge) auto
    finally show False using val256_less [of vs] that(2) by simp
  qed
  from le [OF assms(1,3)] le [OF assms(2) assms(3) [symmetric]] have "length xs = length ys" by simp
  then show ?thesis using assms(3) by (rule val256_inj_length)
qed

section \<open>Round trips\<close>

lemma ALPHABET_find:
  assumes "d < 58"
  shows "str_find ALPHABET [digit58 d] = d"
proof -
  have "\<forall>d \<in> set [0..<58]. str_find ALPHABET [digit58 d] = d"
    by code_simp
  with assms show ?thesis by simp
qed

lemma digit58_1: "d < 58 \<Longrightarrow> digit58 d = CHR ''1'' \<longleftrightarrow> d = 0"
  using ALPHABET_find [of d] ALPHABET_find [of 0]
  by (auto simp: digit58_def ALPHABET_def)

lemma decode_digit_ok:
  assumes "d < 58" and "r = [] \<or> hd r \<noteq> 0"
  shows "\<exists>r'. decode_digit (digit58 d) r = Inr r' \<and> val256 r' = val256 r * 58 + d
           \<and> (r' = [] \<or> hd r' \<noteq> 0)"
proof -
  obtain rs c where m: "mul58_add r d = (rs, c)" by (cases "mul58_add r d")
  note spec = mul58_add_spec [OF m]
  have "d \<noteq> npos" using assms(1) by (simp add: npos_def)
  then have dec: "decode_digit (digit58 d) r = Inr (insert_carry c rs)"
    using m by (simp add: decode_digit_def ALPHABET_find [OF assms(1)])
  have "0 < c \<or> rs = [] \<or> hd rs \<noteq> 0"
  proof (rule ccontr)
    assume *: "\<not> (0 < c \<or> rs = [] \<or> hd rs \<noteq> 0)"
    then obtain x xs where rs: "rs = x # xs" "x = 0" "c = 0" by (cases rs) auto
    with spec have ne: "r \<noteq> []" and len: "length r - 1 = length xs" by auto
    have "val256 r * 58 + d = val256 xs" using spec rs by (simp add: val256_Cons)
    moreover have "val256 xs < 256 ^ length xs" by (rule val256_less)
    moreover have "256 ^ length xs \<le> val256 r" using val256_ge [OF ne] assms(2) ne len by auto
    ultimately show False by linarith
  qed
  then show ?thesis
    using dec spec insert_carry_spec [of c rs] by auto
qed

lemma decode_chars_digits:
  assumes "\<forall>d \<in> set ds. d < 58" and "r = [] \<or> hd r \<noteq> 0"
  shows "\<exists>r'. decode_chars (map digit58 ds) r = Inr r'
           \<and> val256 r' = foldl (\<lambda>a d. a * 58 + d) (val256 r) ds \<and> (r' = [] \<or> hd r' \<noteq> 0)"
  using assms
proof (induction ds arbitrary: r)
  case Nil
  then show ?case by simp
next
  case (Cons d ds)
  obtain r1 where "decode_digit (digit58 d) r = Inr r1" and v: "val256 r1 = val256 r * 58 + d"
    and "r1 = [] \<or> hd r1 \<noteq> 0"
    using decode_digit_ok [of d r] Cons.prems by auto
  then show ?case
    using Cons.IH [of r1] Cons.prems by (simp flip: v)
qed

lemma takeWhile_encode:
  assumes "0 < n"
  shows "takeWhile (\<lambda>c. c = CHR ''1'') (replicate z (CHR ''1'') @ map digit58 (digits58 n))
           = replicate z (CHR ''1'')"
proof -
  obtain d ds where ds: "digits58 n = d # ds" and "d \<noteq> 0"
    using digits58_hd [OF assms] by (cases "digits58 n") auto
  moreover have "d < 58" using digits58_less [of d n] ds by simp
  ultimately have "digit58 d \<noteq> CHR ''1''" by (simp add: digit58_1)
  with ds show ?thesis by (induction z) auto
qed

text \<open>
  The one vector shape that does not come back is a non-empty run of zero bytes: the long
  division emits a digit for it as well as the loop over leading zeros.
\<close>

lemma Base58_decode_encode:
  assumes "\<exists>b \<in> set data. b \<noteq> 0"
  shows "Base58_decode (Base58_encode data) = Inr data"
proof -
  obtain r where data: "data = replicate (length (takeWhile (\<lambda>b. b = 0) data)) 0 @ r"
    and r: "r \<noteq> []" "hd r \<noteq> 0" and pos: "0 < val256 data" and val: "val256 data = val256 r"
    using split_zeros [OF assms] by metis
  define z where "z = length (takeWhile (\<lambda>b. b = 0) data)"
  have enc: "Base58_encode data = map digit58 (replicate z 0 @ digits58 (val256 data))"
    unfolding encode_form [OF assms] z_def by (simp add: digit58_def ALPHABET_def)
  have enc1: "Base58_encode data = replicate z (CHR ''1'') @ map digit58 (digits58 (val256 data))"
    unfolding encode_form [OF assms] z_def ..
  have "\<forall>d \<in> set (replicate z 0 @ digits58 (val256 data)). d < 58"
    by (auto dest: digits58_less)
  from decode_chars_digits [OF this, of "[]"] obtain r' where
    dec: "decode_chars (Base58_encode data) [] = Inr r'" and hd': "r' = [] \<or> hd r' \<noteq> 0"
    and "val256 r' = foldl (\<lambda>a d. a * 58 + d) 0 (replicate z 0 @ digits58 (val256 data))"
    unfolding enc by auto
  moreover have "foldl (\<lambda>a d. a * 58 + d) 0 (replicate z 0 @ ds) = foldl (\<lambda>a d. a * 58 + d) 0 ds"
    for ds :: "nat list"
    by (induction z) simp_all
  ultimately have "val256 r' = val256 r"
    by (simp add: foldl_digits58 val)
  then have "r' = r" using hd' r by (intro val256_inj) auto
  moreover have "takeWhile (\<lambda>c. c = CHR ''1'') (Base58_encode data) = replicate z (CHR ''1'')"
    unfolding enc1 by (rule takeWhile_encode [OF pos])
  ultimately have "Base58_decode (Base58_encode data) = Inr (replicate z 0 @ r)"
    using dec unfolding Base58_decode_def Let_def by simp
  then show ?thesis using data z_def by simp
qed

lemma map_result_prefix:
  assumes "is_hex h" and "8 \<le> length h"
  shows "\<exists>cs. map_result (\<lambda>i. parse_byte (take 2 (drop i h))) [0, 2, 4, 6] = Inr cs \<and> length cs = 4"
proof -
  have "\<exists>b. parse_byte (take 2 (drop i h)) = Inr b" if "i + 2 \<le> length h" for i
  proof -
    from that have l: "length (take 2 (drop i h)) = 2" by simp
    then obtain x y where xy: "take 2 (drop i h) = [x, y]"
      by (metis (no_types, opaque_lifting) One_nat_def Suc_1 length_0_conv length_Suc_conv)
    have "is_hex (take 2 (drop i h))" using assms(1) by simp
    then obtain m n where "digit_val x = Some m" "digit_val y = Some n" unfolding xy by auto
    then show ?thesis unfolding xy by (simp add: parse_byte_2)
  qed
  note p = this
  from p [of 0] p [of 2] p [of 4] p [of 6] assms(2) show ?thesis by auto
qed

text \<open>The digests are hexadecimal, so the checksum is always computed: four bytes.\<close>

lemma checksum4_ok: "\<exists>cs. checksum4 data = Inr cs \<and> length cs = 4"
proof -
  obtain bs where "parse_hex (SHA256_hash (string_of data)) = Inr bs"
    using sha.decodes by blast
  then show ?thesis
    using map_result_prefix [of "SHA256_hash (string_of bs)"] by (simp add: checksum4_def Let_def)
qed

lemma Base58_decodeCheck_encodeCheck:
  assumes "version \<noteq> 0 \<or> (\<exists>b \<in> set payload. b \<noteq> 0)"
  shows "\<exists>s. Base58_encodeCheck version payload = Inr s
           \<and> Base58_decodeCheck s = Some (version, payload)"
proof -
  obtain cs where cs: "checksum4 (version # payload) = Inr cs" "length cs = 4"
    using checksum4_ok by blast
  let ?data = "(version # payload) @ cs"
  have "\<exists>b \<in> set ?data. b \<noteq> 0" using assms by auto
  then have "Base58_decode (Base58_encode ?data) = Inr ?data" by (rule Base58_decode_encode)
  with cs show ?thesis
    by (simp add: Base58_encodeCheck_def Base58_decodeCheck_def Let_def)
qed

text \<open>The exception: \<open>n > 0\<close> zero bytes encode to \<open>n + 1\<close> ones and decode to \<open>n + 1\<close> bytes.\<close>

lemma div58_zeros: "div58 (replicate n 0) 0 [] = ([], 0)"
  by (induction n) simp_all

lemma length_takeWhile_replicate: "length (takeWhile (\<lambda>c. c = x) (replicate n x)) = n"
  by (induction n) simp_all

lemma encode_loop_zeros: "encode_loop (0 # replicate n 0) [] = ''1''"
proof -
  have "div58 (0 # replicate n 0) 0 [] = ([], 0)"
    using div58_zeros [of "Suc n"] by (simp only: replicate_Suc)
  then show ?thesis
    by (simp only: encode_loop.simps [of "0 # replicate n 0"] encode_loop.simps [of "[]"] Let_def
        prod.case list.distinct if_False) (simp add: ALPHABET_def)
qed

lemma encode_zeros: "Base58_encode (replicate (Suc n) 0) = replicate (Suc (Suc n)) (CHR ''1'')"
  using length_takeWhile_replicate [of "0 :: u8" "Suc n"]
  by (simp add: Base58_encode_def Let_def encode_loop_zeros replicate_append_same del: takeWhile_replicate)

lemma decode_ones: "Base58_decode (replicate n (CHR ''1'')) = Inr (replicate n 0)"
proof -
  have "str_find ALPHABET ''1'' = 0" by code_simp
  then have "decode_digit (CHR ''1'') [] = Inr []"
    by (simp add: decode_digit_def npos_def insert_carry.simps)
  then have "decode_chars (replicate n (CHR ''1'')) [] = Inr []"
    by (induction n) simp_all
  then show ?thesis
    unfolding Base58_decode_def Let_def length_takeWhile_replicate by simp
qed

lemma Base58_zeros_not_roundtrip:
  "Base58_decode (Base58_encode (replicate (Suc n) 0)) = Inr (replicate (Suc (Suc n)) 0)"
  unfolding encode_zeros by (rule decode_ones)

section \<open>The shape of an address\<close>

lemma digits58_range:
  "58 ^ k \<le> n \<Longrightarrow> n < 58 ^ Suc k \<Longrightarrow>
     length (digits58 n) = Suc k \<and> hd (digits58 n) = n div 58 ^ k"
proof (induction k arbitrary: n)
  case 0
  then show ?case by (simp add: digits58_pos)
next
  case (Suc k)
  have pos: "0 < n" using Suc.prems(1) by (rule less_le_trans [rotated]) simp
  have "58 ^ k \<le> n div 58" and "n div 58 < 58 ^ Suc k"
    using Suc.prems by (simp_all add: less_eq_div_iff_mult_less_eq div_less_iff_less_mult mult.commute)
  from Suc.IH [OF this] have IH: "length (digits58 (n div 58)) = Suc k"
    "hd (digits58 (n div 58)) = n div 58 div 58 ^ k" by simp_all
  then have "digits58 (n div 58) \<noteq> []" by auto
  with IH pos show ?case by (simp add: digits58_pos [of n] div_mult2_eq [symmetric])
qed

lemma digit58_in_ALPHABET: "d < 58 \<Longrightarrow> digit58 d \<in> set ALPHABET"
  unfolding digit58_def by (rule nth_mem) (simp add: ALPHABET_def)

text \<open>Under version 60 an address of a 20-byte hash has 34 characters, of which the first is R.\<close>

lemma encodeCheck_shape:
  assumes "Base58_encodeCheck 0x3C payload = Inr addr" and "length payload = 20"
  shows "length addr = 34 \<and> hd addr = CHR ''R'' \<and> set addr \<subseteq> set ALPHABET"
proof -
  obtain cs where cs: "checksum4 (0x3C # payload) = Inr cs" "length cs = 4"
    using checksum4_ok by blast
  let ?n = "val256 (0x3C # payload @ cs)"
  have n: "?n = 60 * 256 ^ 24 + val256 (payload @ cs)"
    using assms(2) cs(2) by (simp add: val256_Cons)
  have "val256 (payload @ cs) < 256 ^ 24"
    using val256_less [of "payload @ cs"] assms(2) cs(2) by simp
  with n have range: "60 * 256 ^ 24 \<le> ?n" "?n < 61 * 256 ^ 24" by simp_all
  have "58 ^ 33 \<le> ?n" "?n < 58 ^ Suc 33"
    using range by (simp_all del: val256_Nil)
  from digits58_range [OF this] have len: "length (digits58 ?n) = 34" and hd: "hd (digits58 ?n) = ?n div 58 ^ 33"
    by simp_all
  have "?n div 58 ^ 33 = 24"
    using range by (intro div_nat_eqI) simp_all
  with hd have R: "digit58 (hd (digits58 ?n)) = CHR ''R''" by (simp add: digit58_def ALPHABET_def)
  have "addr = map digit58 (digits58 ?n)"
    using assms(1) cs by (simp add: Base58_encodeCheck_def encode_form)
  moreover have "digits58 ?n \<noteq> []" using len by auto
  ultimately show ?thesis
    using len R digits58_less digit58_in_ALPHABET by (auto simp: hd_map)
qed

section \<open>Properties\<close>

text \<open>C19: Base58Check returns what was encoded, version and payload, unless the version is 0 and the
  payload consists of zero bytes only; the plain encoding of such data reads back one zero byte
  longer.\<close>

theorem base58check_roundtrip:
  assumes "version \<noteq> 0 \<or> (\<exists>b \<in> set payload. b \<noteq> 0)"
  shows "(\<exists>s. Base58_encodeCheck version payload = Inr s \<and> Base58_decodeCheck s = Some (version, payload))
       \<and> Base58_decode (Base58_encode (replicate (Suc n) 0)) = Inr (replicate (Suc (Suc n)) 0)"
  using Base58_decodeCheck_encodeCheck [OF assms] Base58_zeros_not_roundtrip by blast

theorem base58check_roundtrip_witness:
  "\<exists>s. Base58_encodeCheck 60 [0, 1, 255] = Inr s \<and> Base58_decodeCheck s = Some (60, [0, 1, 255])"
  using base58check_roundtrip [of 60 "[0, 1, 255]"] by simp

end
