(* ===== verification/Hash160.thy ===== *)
theory Hash160
  imports Base58
begin

text \<open>
  \<open>src/src/crypto/hash160.{h,cpp}\<close>: RIPEMD-160 of the bytes of the SHA-256, as hexadecimal
  text, as bytes, and as a Base58Check address. The SHA-256 digest is parsed back from
  hexadecimal with \<open>std::stoi\<close>, which is where a call could throw; it never does.
\<close>

definition Hash160_hashBytes :: "bytes \<Rightarrow> bytes result" where
  "Hash160_hashBytes input =
     bind_result (parse_hex (SHA256_hash (string_of input)))
       (\<lambda>shaBytes. Inr (RIPEMD160_hashBytes shaBytes))"

definition Hash160_hash :: "string \<Rightarrow> string result" where
  "Hash160_hash input =
     bind_result (parse_hex (SHA256_hash input))
       (\<lambda>shaBytes. Inr (concat (map hex_byte (RIPEMD160_hashBytes shaBytes))))"

definition Hash160_toAddress :: "bytes \<Rightarrow> u8 \<Rightarrow> string result" where
  "Hash160_toAddress pubKeyBytes version =
     bind_result (Hash160_hashBytes pubKeyBytes) (Base58_encodeCheck version)"

lemma Hash160_hashBytes_ok: "\<exists>h. Hash160_hashBytes input = Inr h \<and> length h = 20"
  using sha.decodes [of "string_of input"] by (auto simp: Hash160_hashBytes_def)

text \<open>The text form is the hexadecimal rendering of the byte form.\<close>

lemma Hash160_hash_hex:
  "Hash160_hashBytes input = Inr h \<Longrightarrow> Hash160_hash (string_of input) = Inr (concat (map hex_byte h))"
  by (auto simp: Hash160_hashBytes_def Hash160_hash_def)

lemma Hash160_hash_ok: "\<exists>s. Hash160_hash input = Inr s \<and> length s = 40 \<and> is_hex s"
  using sha.decodes [of input] by (auto simp: Hash160_hash_def)

text \<open>An address always exists, and decodes to the version byte and the 20-byte key hash.\<close>

lemma Hash160_toAddress_ok:
  assumes "version \<noteq> 0"
  shows "\<exists>addr h. Hash160_toAddress pk version = Inr addr \<and> Hash160_hashBytes pk = Inr h
           \<and> length h = 20 \<and> Base58_decodeCheck addr = Some (version, h)"
proof -
  obtain h where h: "Hash160_hashBytes pk = Inr h" "length h = 20"
    using Hash160_hashBytes_ok by blast
  obtain addr where "Base58_encodeCheck version h = Inr addr"
    and "Base58_decodeCheck addr = Some (version, h)"
    using Base58_decodeCheck_encodeCheck [of version h] assms by blast
  with h show ?thesis by (simp add: Hash160_toAddress_def)
qed

text \<open>Under version 60, as the code says, it starts with R.\<close>

lemma Hash160_toAddress_shape:
  assumes "Hash160_toAddress pk 0x3C = Inr addr"
  shows "length addr = 34 \<and> hd addr = CHR ''R'' \<and> set addr \<subseteq> set ALPHABET"
proof -
  obtain h where "Hash160_hashBytes pk = Inr h" "length h = 20"
    using Hash160_hashBytes_ok by blast
  with assms show ?thesis by (intro encodeCheck_shape [of h]) (simp_all add: Hash160_toAddress_def)
qed

section \<open>What the hash of a key binds\<close>

text \<open>
  The calls of the two compression functions on the way from the bytes of a key to its hash. One
  hash for two keys is a collision of one of the two functions.
\<close>

definition key_sha_calls :: "bytes \<Rightarrow> (bytes \<times> sha_state) set" where
  "key_sha_calls pk = sha_calls (string_of pk)"

definition key_rmd_calls :: "bytes \<Rightarrow> (bytes \<times> rmd_line) set" where
  "key_rmd_calls pk = (case parse_hex (SHA256_hash (string_of pk)) of Inl e \<Rightarrow> {} | Inr b \<Rightarrow> rmd_calls b)"

definition key_clash :: "bytes \<Rightarrow> bytes \<Rightarrow> bool" where
  "key_clash p q \<longleftrightarrow> clash compress256 (key_sha_calls p \<union> key_sha_calls q)
                  \<or> clash rmd_block (key_rmd_calls p \<union> key_rmd_calls q)"

lemma Hash160_binds:
  assumes "length p < 2 ^ 61" and "length q < 2 ^ 61" and "Hash160_hashBytes p = Hash160_hashBytes q"
  shows "p = q \<or> key_clash p q"
proof -
  obtain bs cs where bs: "SHA256_hash (string_of p) = concat (map hex_byte bs)" "length bs = 32"
    and cs: "SHA256_hash (string_of q) = concat (map hex_byte cs)" "length cs = 32"
    using SHA256_hash_bytes by metis
  then have "RIPEMD160_hashBytes bs = RIPEMD160_hashBytes cs"
    using assms(3) by (simp add: Hash160_hashBytes_def)
  then have "bs = cs \<or> clash rmd_block (rmd_calls bs \<union> rmd_calls cs)"
    using bs(2) cs(2) by (intro RIPEMD160_binds) simp_all
  moreover have "string_of p = string_of q \<or> clash compress256 (sha_calls (string_of p) \<union> sha_calls (string_of q))"
    if "bs = cs" using assms(1,2) bs(1) cs(1) that by (intro SHA256_binds) simp_all
  ultimately show ?thesis
    by (auto simp: key_clash_def key_sha_calls_def key_rmd_calls_def bs cs)
qed

text \<open>So does an address.\<close>

lemma Hash160_toAddress_binds:
  assumes "length p < 2 ^ 61" and "length q < 2 ^ 61" and "v \<noteq> 0"
    and "Hash160_toAddress p v = Inr a" and "Hash160_toAddress q v = Inr a"
  shows "p = q \<or> key_clash p q"
proof -
  obtain h where h: "Hash160_hashBytes p = Inr h" "Base58_decodeCheck a = Some (v, h)"
    using Hash160_toAddress_ok [OF assms(3), of p] assms(4) by auto
  obtain k where k: "Hash160_hashBytes q = Inr k" "Base58_decodeCheck a = Some (v, k)"
    using Hash160_toAddress_ok [OF assms(3), of q] assms(5) by auto
  show ?thesis by (rule Hash160_binds [OF assms(1,2)]) (use h k in simp)
qed

end
