(* ===== verification/ECDSA.thy ===== *)
theory ECDSA
  imports Hash160
begin

text \<open>
  \<open>src/src/crypto/ecdsa.{h,cpp}\<close> and \<open>src/src/crypto/wallet.{h,cpp}\<close>. The elliptic-curve
  arithmetic is OpenSSL's, which is not part of the repository: the record \<open>openssl\<close> holds the
  four calls the code makes, on the byte buffers it passes them, and \<open>openssl_correct\<close> states
  what OpenSSL documents of them. Everything around the calls (hexadecimal conversion, the
  resizing of the hash, the early return, the 32-byte reads) is the code's.
\<close>

section \<open>Keys and signatures\<close>

record KeyPair =
  privateKey :: string
  publicKey :: string

record Signature =
  sig_r :: string
  sig_s :: string
  sig_der :: bytes

text \<open>
  \<open>ossl_generate e\<close>: private (32 bytes) and public (33 bytes) buffers of a fresh key, where
  \<open>e\<close> is the entropy drawn. \<open>ossl_public p\<close>: the compressed public key of a private
  key. \<open>ossl_sign e p h\<close>: \<open>ECDSA_do_sign\<close>, \<open>None\<close> for a null result, else the \<open>r\<close>,
  \<open>s\<close> and DER buffers. \<open>ossl_verify q h r s\<close>: the integer \<open>ECDSA_do_verify\<close> returns.
\<close>

record 'e openssl =
  ossl_generate :: "'e \<Rightarrow> bytes \<times> bytes"
  ossl_public :: "bytes \<Rightarrow> bytes"
  ossl_sign :: "'e \<Rightarrow> bytes \<Rightarrow> bytes \<Rightarrow> (bytes \<times> bytes \<times> bytes) option"
  ossl_verify :: "bytes \<Rightarrow> bytes \<Rightarrow> bytes \<Rightarrow> bytes \<Rightarrow> int"

section \<open>Hexadecimal conversion\<close>

text \<open>\<open>for (i = 0; i + 1 < hex.size(); i += 2)\<close>: an odd last digit is dropped.\<close>

fun hexToBytes :: "string \<Rightarrow> bytes result" where
  "hexToBytes (a # b # cs) =
     bind_result (parse_byte [a, b]) (\<lambda>x. bind_result (hexToBytes cs) (\<lambda>xs. Inr (x # xs)))"
| "hexToBytes [a] = Inr []"
| "hexToBytes [] = Inr []"

definition bytesToHex :: "bytes \<Rightarrow> string" where
  "bytesToHex b = concat (map hex_byte b)"

lemma hexToBytes_bytesToHex [simp]: "hexToBytes (bytesToHex bs) = Inr bs"
proof (induction bs)
  case Nil
  then show ?case by (simp add: bytesToHex_def)
next
  case (Cons b bs)
  have "hexToBytes (hex_byte b @ s) = bind_result (hexToBytes s) (\<lambda>xs. Inr (b # xs))" for s
    using parse_byte_hex_byte [of b] unfolding hex_byte_eq by simp
  with Cons show ?case by (simp add: bytesToHex_def)
qed

lemma length_bytesToHex [simp]: "length (bytesToHex bs) = 2 * length bs"
  by (simp add: bytesToHex_def)

lemma bytesToHex_hex [simp]: "is_hex (bytesToHex bs)"
  by (simp add: bytesToHex_def)

lemma hexToBytes_hex:
  assumes "is_hex h"
  shows "\<exists>bs. hexToBytes h = Inr bs \<and> length bs = length h div 2"
  using assms
proof (induction h rule: hexToBytes.induct)
  case (1 a b cs)
  then obtain bs where "hexToBytes cs = Inr bs" "length bs = length cs div 2"
    by (auto dest: parse_byte_2)
  moreover from "1.prems" obtain m n where "digit_val a = Some m" "digit_val b = Some n" by auto
  ultimately show ?case by (auto simp: parse_byte_2)
qed simp_all

text \<open>A character that is no hexadecimal digit at an even position throws.\<close>

lemma hexToBytes_bad:
  assumes "digit_val c = None" and "\<not> is_space c" and "c \<noteq> CHR ''-''" and "c \<noteq> CHR ''+''"
  shows "hexToBytes (c # d # s) = Inl Invalid_argument"
proof -
  have "dropWhile is_space [c, d] = [c, d]" using assms by simp
  then have "stoi16 [c, d] = Inl Invalid_argument"
    using assms by (simp add: stoi16_def is_digit_def)
  then show ?thesis by (simp add: parse_byte_def)
qed

section \<open>The ECDSA operations\<close>

definition ECDSA_generateKeyPair :: "('e, 'z) openssl_scheme \<Rightarrow> 'e \<Rightarrow> KeyPair" where
  "ECDSA_generateKeyPair ssl e =
     (let (privBuf, pubBuf) = ossl_generate ssl e
      in \<lparr>privateKey = bytesToHex privBuf, publicKey = bytesToHex pubBuf\<rparr>)"

definition ECDSA_derivePublicKey :: "('e, 'z) openssl_scheme \<Rightarrow> string \<Rightarrow> string result" where
  "ECDSA_derivePublicKey ssl privHex =
     bind_result (hexToBytes privHex) (\<lambda>pb. Inr (bytesToHex (ossl_public ssl pb)))"

definition ECDSA_sign :: "('e, 'z) openssl_scheme \<Rightarrow> 'e \<Rightarrow> string \<Rightarrow> string \<Rightarrow> Signature result" where
  "ECDSA_sign ssl e privHex hashHex =
     bind_result (hexToBytes privHex) (\<lambda>pb.
     bind_result (hexToBytes hashHex) (\<lambda>hb.
       case ossl_sign ssl e pb (str_resize hb 32 0) of
         None \<Rightarrow> Inr \<lparr>sig_r = [], sig_s = [], sig_der = []\<rparr>
       | Some (rb, sb, der) \<Rightarrow>
           Inr \<lparr>sig_r = bytesToHex rb, sig_s = bytesToHex sb, sig_der = der\<rparr>))"

text \<open>
  \<open>BN_bin2bn(v.data(), 32, nullptr)\<close> reads 32 bytes of the vector whatever its size: shorter
  is a read past the buffer.
\<close>

definition read32 :: "bytes \<Rightarrow> bytes result" where
  "read32 v = (if length v < 32 then Inl Undefined_behaviour else Inr (take 32 v))"

definition ECDSA_verify :: "('e, 'z) openssl_scheme \<Rightarrow> string \<Rightarrow> string \<Rightarrow> Signature \<Rightarrow> bool result" where
  "ECDSA_verify ssl pubHex hashHex sig =
     (if sig_r sig = [] \<or> sig_s sig = [] then Inr False
      else
        bind_result (hexToBytes pubHex) (\<lambda>pb.
        bind_result (hexToBytes hashHex) (\<lambda>hb.
        bind_result (bind_result (hexToBytes (sig_r sig)) read32) (\<lambda>r.
        bind_result (bind_result (hexToBytes (sig_s sig)) read32) (\<lambda>s.
          Inr (ossl_verify ssl pb (str_resize hb 32 0) r s = 1))))))"

definition ECDSA_publicKeyToAddress :: "string \<Rightarrow> string result" where
  "ECDSA_publicKeyToAddress pubHex =
     bind_result (hexToBytes pubHex) (\<lambda>pb. Hash160_toAddress pb 0x3C)"

section \<open>What OpenSSL documents\<close>

definition openssl_correct :: "('e, 'z) openssl_scheme \<Rightarrow> bool" where
  "openssl_correct ssl \<longleftrightarrow>
     (\<forall>e. length (fst (ossl_generate ssl e)) = 32 \<and> length (snd (ossl_generate ssl e)) = 33
        \<and> snd (ossl_generate ssl e) = ossl_public ssl (fst (ossl_generate ssl e))) \<and>
     (\<forall>p. length (ossl_public ssl p) = 33) \<and>
     (\<forall>e p h r s der. ossl_sign ssl e p h = Some (r, s, der) \<longrightarrow>
        length r = 32 \<and> length s = 32 \<and> (length h = 32 \<longrightarrow> ossl_verify ssl (ossl_public ssl p) h r s = 1))"

lemma openssl_correctD:
  assumes "openssl_correct ssl"
  shows "length (ossl_public ssl p) = 33"
    and "length (fst (ossl_generate ssl e)) = 32"
    and "snd (ossl_generate ssl e) = ossl_public ssl (fst (ossl_generate ssl e))"
    and "ossl_sign ssl e p h = Some (r, s, der) \<Longrightarrow> length r = 32 \<and> length s = 32"
    and "ossl_sign ssl e p h = Some (r, s, der) \<Longrightarrow> length h = 32 \<Longrightarrow>
           ossl_verify ssl (ossl_public ssl p) h r s = 1"
  using assms unfolding openssl_correct_def by blast+

text \<open>
  Signing then verifying with the derived key succeeds, for every hexadecimal key and hash,
  when OpenSSL produces a signature. The hash is padded or cut to 32 bytes on both sides.
\<close>

lemma ECDSA_verify_sign:
  assumes "openssl_correct ssl" and "is_hex privHex" and "is_hex hashHex"
    and "ECDSA_sign ssl e privHex hashHex = Inr sig" and "sig_r sig \<noteq> []"
  shows "\<exists>pub. ECDSA_derivePublicKey ssl privHex = Inr pub
           \<and> ECDSA_verify ssl pub hashHex sig = Inr True"
proof -
  note ok = openssl_correctD [OF assms(1)]
  obtain pb where pb: "hexToBytes privHex = Inr pb" using hexToBytes_hex assms(2) by blast
  obtain hb where hb: "hexToBytes hashHex = Inr hb" using hexToBytes_hex assms(3) by blast
  from assms(4,5) pb hb obtain rb sb der where
    sg: "ossl_sign ssl e pb (str_resize hb 32 0) = Some (rb, sb, der)"
    and sig: "sig = \<lparr>sig_r = bytesToHex rb, sig_s = bytesToHex sb, sig_der = der\<rparr>"
    by (auto simp: ECDSA_sign_def split: option.splits)
  have len: "length rb = 32" "length sb = 32" using ok(4) [OF sg] by auto
  then have "bytesToHex rb \<noteq> []" "bytesToHex sb \<noteq> []"
    by (metis length_bytesToHex list.size(3) mult_is_0 zero_neq_numeral)+
  then have "ECDSA_verify ssl (bytesToHex (ossl_public ssl pb)) hashHex sig = Inr True"
    using ok(5) [OF sg] len hb by (simp add: ECDSA_verify_def sig read32_def)
  with pb show ?thesis by (simp add: ECDSA_derivePublicKey_def)
qed

text \<open>An \<open>r\<close> that is not empty but shorter than 64 digits makes \<open>verify\<close> read past its buffer.\<close>

lemma ECDSA_verify_short:
  assumes "is_hex pubHex" and "is_hex hashHex" and "is_hex (sig_r sig)"
    and "sig_r sig \<noteq> []" and "length (sig_r sig) < 64" and "sig_s sig \<noteq> []"
  shows "ECDSA_verify ssl pubHex hashHex sig = Inl Undefined_behaviour"
proof -
  obtain pb hb where "hexToBytes pubHex = Inr pb" "hexToBytes hashHex = Inr hb"
    using hexToBytes_hex assms(1,2) by metis
  moreover obtain rb where "hexToBytes (sig_r sig) = Inr rb" "length rb < 32"
    using hexToBytes_hex [OF assms(3)] assms(5) by auto
  ultimately show ?thesis
    using assms(4,6) by (simp add: ECDSA_verify_def read32_def)
qed

text \<open>A concrete OpenSSL for witnesses: it signs with a copy of the key and the hash.\<close>

definition echo_ssl :: "nat openssl" where
  "echo_ssl = \<lparr>
     ossl_generate = (\<lambda>e. (replicate 32 (of_nat e), 2 # replicate 32 (of_nat e))),
     ossl_public = (\<lambda>p. 2 # str_resize p 32 0),
     ossl_sign = (\<lambda>e p h. Some (str_resize p 32 0, str_resize h 32 0, [])),
     ossl_verify = (\<lambda>q h r s. if q = 2 # r \<and> s = h then 1 else 0)\<rparr>"

lemma echo_ssl_correct: "openssl_correct echo_ssl"
  by (auto simp: openssl_correct_def echo_ssl_def str_resize_def)

section \<open>Wallet\<close>

record Wallet =
  keyPair :: KeyPair
  w_address :: string
  w_balance :: "u64"

definition Wallet_new :: "('e, 'z) openssl_scheme \<Rightarrow> 'e \<Rightarrow> Wallet result" where
  "Wallet_new ssl e =
     (let kp = ECDSA_generateKeyPair ssl e
      in bind_result (ECDSA_publicKeyToAddress (publicKey kp))
           (\<lambda>addr. Inr \<lparr>keyPair = kp, w_address = addr, w_balance = 0\<rparr>))"

definition Wallet_of_key :: "('e, 'z) openssl_scheme \<Rightarrow> string \<Rightarrow> Wallet result" where
  "Wallet_of_key ssl privKey =
     bind_result (ECDSA_derivePublicKey ssl privKey) (\<lambda>pub.
     bind_result (ECDSA_publicKeyToAddress pub) (\<lambda>addr.
       Inr \<lparr>keyPair = \<lparr>privateKey = privKey, publicKey = pub\<rparr>, w_address = addr, w_balance = 0\<rparr>))"

definition Wallet_signTransaction ::
  "('e, 'z) openssl_scheme \<Rightarrow> 'e \<Rightarrow> Wallet \<Rightarrow> string \<Rightarrow> Signature result" where
  "Wallet_signTransaction ssl e w txHash = ECDSA_sign ssl e (privateKey (keyPair w)) txHash"

definition Wallet_verifySignature ::
  "('e, 'z) openssl_scheme \<Rightarrow> Wallet \<Rightarrow> string \<Rightarrow> Signature \<Rightarrow> bool result" where
  "Wallet_verifySignature ssl w txHash sig = ECDSA_verify ssl (publicKey (keyPair w)) txHash sig"

definition Wallet_setBalance :: "u64 \<Rightarrow> Wallet \<Rightarrow> Wallet" where
  "Wallet_setBalance bal w = w\<lparr>w_balance := bal\<rparr>"

definition Wallet_getAddress :: "Wallet \<Rightarrow> string" where
  "Wallet_getAddress w = w_address w"

definition Wallet_getPublicKey :: "Wallet \<Rightarrow> string" where
  "Wallet_getPublicKey w = publicKey (keyPair w)"

definition Wallet_getPrivateKey :: "Wallet \<Rightarrow> string" where
  "Wallet_getPrivateKey w = privateKey (keyPair w)"

definition Wallet_getBalance :: "Wallet \<Rightarrow> u64" where
  "Wallet_getBalance w = w_balance w"

definition nl :: string where "nl = [CHR 0x0A]"

definition Wallet_exportJSON :: "Wallet \<Rightarrow> string" where
  "Wallet_exportJSON w =
     ''{'' @ nl @
     ''  \"address\": \"'' @ w_address w @ ''\",'' @ nl @
     ''  \"publicKey\": \"'' @ publicKey (keyPair w) @ ''\",'' @ nl @
     ''  \"privateKey\": \"'' @ privateKey (keyPair w) @ ''\"'' @ nl @
     ''}''"

text \<open>
  A new wallet always gets an address, which is the Base58Check form of version 60 and the
  hash of its own public key, and the wallet verifies what it signs.
\<close>

lemma Wallet_new_ok:
  assumes "openssl_correct ssl"
  shows "\<exists>w h. Wallet_new ssl e = Inr w
           \<and> Base58_decodeCheck (w_address w) = Some (0x3C, h)
           \<and> Hash160_hashBytes (ossl_public ssl (fst (ossl_generate ssl e))) = Inr h
           \<and> w_balance w = 0"
proof -
  obtain priv pub where g: "ossl_generate ssl e = (priv, pub)" by (cases "ossl_generate ssl e")
  then have pub: "pub = ossl_public ssl priv"
    using openssl_correctD(3) [OF assms, of e] by simp
  obtain addr h where "Hash160_toAddress pub 0x3C = Inr addr" and "Hash160_hashBytes pub = Inr h"
    and "Base58_decodeCheck addr = Some (0x3C, h)"
    using Hash160_toAddress_ok [of "0x3C" pub] by auto
  with g pub show ?thesis
    by (simp add: Wallet_new_def ECDSA_generateKeyPair_def ECDSA_publicKeyToAddress_def)
qed

lemma Wallet_new_keys:
  assumes "Wallet_new ssl e = Inr w"
  shows "keyPair w = ECDSA_generateKeyPair ssl e"
  using assms by (auto simp: Wallet_new_def Let_def)

lemma Wallet_verifies:
  assumes "openssl_correct ssl" and "Wallet_new ssl e = Inr w" and "is_hex hashHex"
    and "Wallet_signTransaction ssl e' w hashHex = Inr sig" and "sig_r sig \<noteq> []"
  shows "Wallet_verifySignature ssl w hashHex sig = Inr True"
proof -
  obtain priv pub where g: "ossl_generate ssl e = (priv, pub)" by (cases "ossl_generate ssl e")
  have k: "privateKey (keyPair w) = bytesToHex priv" "publicKey (keyPair w) = bytesToHex pub"
    by (simp_all add: Wallet_new_keys [OF assms(2)] ECDSA_generateKeyPair_def g)
  have d: "ECDSA_derivePublicKey ssl (bytesToHex priv) = Inr (bytesToHex pub)"
    using openssl_correctD(3) [OF assms(1), of e] g by (simp add: ECDSA_derivePublicKey_def)
  have "ECDSA_sign ssl e' (bytesToHex priv) hashHex = Inr sig"
    using assms(4) by (simp add: Wallet_signTransaction_def k)
  from ECDSA_verify_sign [OF assms(1) _ assms(3) this assms(5)] d show ?thesis
    by (simp add: Wallet_verifySignature_def k)
qed

section \<open>The shape of a wallet\<close>

definition wallet_shaped :: "Wallet \<Rightarrow> bool" where
  "wallet_shaped w \<longleftrightarrow>
     is_hex (publicKey (keyPair w)) \<and> length (publicKey (keyPair w)) = 66
   \<and> length (w_address w) = 34 \<and> hd (w_address w) = CHR ''R'' \<and> set (w_address w) \<subseteq> set ALPHABET"

lemma publicKeyToAddress_shape:
  "\<exists>addr. ECDSA_publicKeyToAddress (bytesToHex pb) = Inr addr
     \<and> length addr = 34 \<and> hd addr = CHR ''R'' \<and> set addr \<subseteq> set ALPHABET"
  using Hash160_toAddress_ok [of "0x3C" pb] Hash160_toAddress_shape [of pb]
  by (auto simp: ECDSA_publicKeyToAddress_def)

lemma Wallet_new_shaped:
  assumes "openssl_correct ssl"
  shows "\<exists>w. Wallet_new ssl e = Inr w \<and> wallet_shaped w
      \<and> is_hex (privateKey (keyPair w)) \<and> length (privateKey (keyPair w)) = 64"
proof -
  obtain priv pub where g: "ossl_generate ssl e = (priv, pub)" by (cases "ossl_generate ssl e")
  then have "length priv = 32" "length pub = 33"
    using openssl_correctD(1) [OF assms, of priv] openssl_correctD(2,3) [OF assms, of e] by simp_all
  with g publicKeyToAddress_shape [of pub] show ?thesis
    by (auto simp: Wallet_new_def ECDSA_generateKeyPair_def wallet_shaped_def)
qed

lemma Wallet_of_key_shaped:
  assumes "openssl_correct ssl" and "is_hex privHex"
  shows "\<exists>w. Wallet_of_key ssl privHex = Inr w \<and> wallet_shaped w \<and> privateKey (keyPair w) = privHex"
proof -
  obtain pb where pb: "hexToBytes privHex = Inr pb" using hexToBytes_hex assms(2) by blast
  have "length (ossl_public ssl pb) = 33" by (rule openssl_correctD(1) [OF assms(1)])
  with pb publicKeyToAddress_shape [of "ossl_public ssl pb"] show ?thesis
    by (auto simp: Wallet_of_key_def ECDSA_derivePublicKey_def wallet_shaped_def)
qed

section \<open>What an address binds\<close>

lemma publicKeyToAddress_binds:
  assumes "length p < 2 ^ 61" and "length q < 2 ^ 61"
    and "ECDSA_publicKeyToAddress (bytesToHex p) = Inr a" and "ECDSA_publicKeyToAddress (bytesToHex q) = Inr a"
  shows "p = q \<or> key_clash p q"
  using assms(3,4) by (intro Hash160_toAddress_binds [OF assms(1,2), of "0x3C" a])
    (simp_all add: ECDSA_publicKeyToAddress_def)

text \<open>A wallet of either constructor shows the address of its public key, which has 33 bytes.\<close>

lemma wallet_key_bytes:
  assumes "openssl_correct ssl" and "Wallet_new ssl e = Inr w \<or> Wallet_of_key ssl k = Inr w"
  shows "\<exists>pk. publicKey (keyPair w) = bytesToHex pk \<and> length pk = 33
           \<and> ECDSA_publicKeyToAddress (bytesToHex pk) = Inr (w_address w)"
  using assms(2)
proof
  assume new: "Wallet_new ssl e = Inr w"
  obtain priv pub where g: "ossl_generate ssl e = (priv, pub)" by (cases "ossl_generate ssl e")
  have "length pub = 33" using openssl_correctD(1) [OF assms(1), of priv] openssl_correctD(3) [OF assms(1), of e] g by simp
  with new g show ?thesis by (auto simp: Wallet_new_def ECDSA_generateKeyPair_def)
next
  assume "Wallet_of_key ssl k = Inr w"
  then obtain pb where "w_address w = w_address w" "publicKey (keyPair w) = bytesToHex (ossl_public ssl pb)"
    "ECDSA_publicKeyToAddress (bytesToHex (ossl_public ssl pb)) = Inr (w_address w)"
    by (auto simp: Wallet_of_key_def ECDSA_derivePublicKey_def)
  then show ?thesis using openssl_correctD(1) [OF assms(1), of pb] by blast
qed

section \<open>Properties\<close>

text \<open>C17: A new wallet is usable: its address decodes to version 60 and the hash of its public key,
  its balance is 0, and it accepts its own signature of any hexadecimal hash for which OpenSSL
  produces a signature.\<close>

theorem new_wallet_usable:
  assumes "openssl_correct ssl" and "Wallet_new ssl e = Inr w" and "is_hex hashHex"
    and "Wallet_signTransaction ssl e' w hashHex = Inr sig" and "sig_r sig \<noteq> []"
  shows "Wallet_verifySignature ssl w hashHex sig = Inr True \<and> w_balance w = 0
       \<and> (\<exists>h pb. hexToBytes (publicKey (keyPair w)) = Inr pb \<and> Hash160_hashBytes pb = Inr h
              \<and> Base58_decodeCheck (w_address w) = Some (0x3C, h))"
proof -
  obtain priv pub where g: "ossl_generate ssl e = (priv, pub)" by (cases "ossl_generate ssl e")
  moreover have "pub = ossl_public ssl priv"
    using openssl_correctD(3) [OF assms(1), of e] g by simp
  moreover have "publicKey (keyPair w) = bytesToHex pub"
    by (simp add: Wallet_new_keys [OF assms(2)] ECDSA_generateKeyPair_def g)
  ultimately show ?thesis
    using Wallet_verifies [OF assms] Wallet_new_ok [OF assms(1), of e] assms(2) by auto
qed

theorem new_wallet_usable_witness:
  "\<exists>w sig. Wallet_new echo_ssl 7 = Inr w \<and> Wallet_verifySignature echo_ssl w ''ab'' sig = Inr True"
proof -
  obtain w where w: "Wallet_new echo_ssl 7 = Inr w" using Wallet_new_ok [OF echo_ssl_correct] by blast
  have hex: "is_hex ''ab''" by code_simp
  obtain hb where hb: "hexToBytes ''ab'' = Inr hb" using hexToBytes_hex [OF hex] by blast
  have k: "privateKey (keyPair w) = bytesToHex (replicate 32 7)"
    by (simp add: Wallet_new_keys [OF w] ECDSA_generateKeyPair_def echo_ssl_def)
  define sig where "sig = \<lparr>sig_r = bytesToHex (str_resize (replicate 32 7) 32 0),
    sig_s = bytesToHex (str_resize (str_resize hb 32 0) 32 0), sig_der = []\<rparr>"
  have sg: "Wallet_signTransaction echo_ssl 0 w ''ab'' = Inr sig"
    unfolding Wallet_signTransaction_def ECDSA_sign_def k hexToBytes_bytesToHex hb
    by (simp add: echo_ssl_def sig_def)
  have "length (sig_r sig) = 64" by (simp add: sig_def)
  then have "sig_r sig \<noteq> []" by auto
  from new_wallet_usable [OF echo_ssl_correct w hex sg this] w show ?thesis by blast
qed



text \<open>C20: An address names one key: two wallets with one address have the same public key, or the hashes of
  their keys collide, in the compression function of SHA-256 or in the one of RIPEMD-160, on two of
  the calls made for the two keys.\<close>

theorem address_binds_key:
  assumes "openssl_correct ssl"
    and "Wallet_new ssl e = Inr w \<or> Wallet_of_key ssl k = Inr w"
    and "Wallet_new ssl e' = Inr w' \<or> Wallet_of_key ssl k' = Inr w'"
    and "w_address w = w_address w'"
  shows "publicKey (keyPair w) = publicKey (keyPair w')
       \<or> (\<exists>p q. hexToBytes (publicKey (keyPair w)) = Inr p \<and> hexToBytes (publicKey (keyPair w')) = Inr q
            \<and> (clash compress256 (key_sha_calls p \<union> key_sha_calls q)
             \<or> clash rmd_block (key_rmd_calls p \<union> key_rmd_calls q)))"
proof -
  obtain p where p: "publicKey (keyPair w) = bytesToHex p" "length p = 33"
    "ECDSA_publicKeyToAddress (bytesToHex p) = Inr (w_address w)" using wallet_key_bytes [OF assms(1,2)] by blast
  obtain q where q: "publicKey (keyPair w') = bytesToHex q" "length q = 33"
    "ECDSA_publicKeyToAddress (bytesToHex q) = Inr (w_address w)"
    using wallet_key_bytes [OF assms(1,3)] assms(4) by auto
  have "length p < 2 ^ 61" "length q < 2 ^ 61" using p(2) q(2) by simp_all
  from publicKeyToAddress_binds [OF this p(3) q(3)] show ?thesis
    using p(1) q(1) by (auto simp: key_clash_def)
qed

theorem address_binds_key_witness:
  "\<exists>w w'. Wallet_new echo_ssl 7 = Inr w \<and> Wallet_of_key echo_ssl (bytesToHex (replicate 32 7)) = Inr w'
     \<and> publicKey (keyPair w) = publicKey (keyPair w')"
proof -
  obtain w where w: "Wallet_new echo_ssl 7 = Inr w" using Wallet_new_ok [OF echo_ssl_correct] by blast
  obtain w' where w': "Wallet_of_key echo_ssl (bytesToHex (replicate 32 7)) = Inr w'"
    using Wallet_of_key_shaped [OF echo_ssl_correct, of "bytesToHex (replicate 32 7)"] by auto
  have keys: "publicKey (keyPair w) = publicKey (keyPair w')"
    and addr: "w_address w = w_address w'"
    using w w' by (auto simp: Wallet_new_def Wallet_of_key_def ECDSA_generateKeyPair_def ECDSA_derivePublicKey_def
        echo_ssl_def str_resize_def)
  with address_binds_key [OF echo_ssl_correct disjI1 [OF w] disjI2 [OF w'] addr] w w' show ?thesis by blast
qed

end
