(* ===== verification/Transaction.thy ===== *)
theory Transaction
  imports ECDSA
begin

text \<open>
  \<open>src/src/core/transaction.{h,cpp}\<close>: inputs, outputs, transactions, their double SHA-256
  identifiers, the coinbase and regular constructors and the structural check. The clock is an
  argument (\<open>now\<close>, in seconds). Printing is left out.
\<close>

section \<open>Data\<close>

record TxInput =
  prevTxHash :: string
  outputIndex :: u32
  scriptSig :: string
  signature :: Signature

record TxOutput =
  amount :: u64
  out_address :: string
  scriptPubKey :: string

record Transaction =
  txHash :: string
  inputs :: "TxInput list"
  outputs :: "TxOutput list"
  timestamp :: int
  isCoinbase :: bool

definition no_signature :: Signature where
  "no_signature = \<lparr>sig_r = [], sig_s = [], sig_der = []\<rparr>"

definition Transaction_new :: "int \<Rightarrow> Transaction" where
  "Transaction_new now =
     \<lparr>txHash = [], inputs = [], outputs = [], timestamp = now, isCoinbase = False\<rparr>"

section \<open>The identifier\<close>

definition input_text :: "TxInput \<Rightarrow> string" where
  "input_text i = prevTxHash i @ nat_str (unat (outputIndex i))"

definition output_text :: "TxOutput \<Rightarrow> string" where
  "output_text out = nat_str (unat (amount out)) @ out_address out"

definition tx_preimage :: "Transaction \<Rightarrow> string" where
  "tx_preimage tx =
     int_str (timestamp tx) @ bool_str (isCoinbase tx) @
     concat (map input_text (inputs tx)) @ concat (map output_text (outputs tx))"

definition Transaction_calculateHash :: "Transaction \<Rightarrow> string" where
  "Transaction_calculateHash tx = double_hash (tx_preimage tx)"

section \<open>Constructors\<close>

definition coinbase_script :: "string \<Rightarrow> string" where
  "coinbase_script addr = ''OP_DUP OP_HASH160 '' @ addr @ '' OP_EQUALVERIFY OP_CHECKSIG''"

definition createCoinbase :: "int \<Rightarrow> string \<Rightarrow> u64 \<Rightarrow> u32 \<Rightarrow> Transaction" where
  "createCoinbase now minerAddress reward blockHeight =
     (let cbInput = \<lparr>prevTxHash = replicate 64 (CHR ''0''), outputIndex = 0xFFFFFFFF,
                     scriptSig = ''RexCoin Block #'' @ nat_str (unat blockHeight),
                     signature = no_signature\<rparr>;
          cbOutput = \<lparr>amount = reward * 100000000, out_address = minerAddress,
                      scriptPubKey = coinbase_script minerAddress\<rparr>;
          tx = (Transaction_new now)\<lparr>inputs := [cbInput], outputs := [cbOutput], isCoinbase := True\<rparr>
      in tx\<lparr>txHash := Transaction_calculateHash tx\<rparr>)"

definition Transaction_create :: "int \<Rightarrow> TxInput list \<Rightarrow> TxOutput list \<Rightarrow> Transaction" where
  "Transaction_create now ins outs =
     (let tx = (Transaction_new now)\<lparr>inputs := ins, outputs := outs\<rparr>
      in tx\<lparr>txHash := Transaction_calculateHash tx\<rparr>)"

section \<open>Totals and the structural check\<close>

text \<open>\<open>totalInput\<close> is a placeholder in the source: it returns 0.\<close>

definition totalInput :: "Transaction \<Rightarrow> u64" where
  "totalInput tx = 0"

definition totalOutput :: "Transaction \<Rightarrow> u64" where
  "totalOutput tx = foldl (\<lambda>total out. total + amount out) 0 (outputs tx)"

definition fee :: "Transaction \<Rightarrow> u64" where
  "fee tx =
     (if isCoinbase tx then 0
      else let inp = totalInput tx; out = totalOutput tx in if out < inp then inp - out else 0)"

definition Transaction_isValid :: "Transaction \<Rightarrow> bool" where
  "Transaction_isValid tx \<longleftrightarrow>
     (if outputs tx = [] then False
      else if \<not> isCoinbase tx \<and> inputs tx = [] then False
      else True)"

definition Transaction_serialize :: "Transaction \<Rightarrow> string" where
  "Transaction_serialize tx =
     txHash tx @ ''|'' @ int_str (timestamp tx) @ ''|'' @ bool_str (isCoinbase tx) @
     ''|inputs:'' @ nat_str (length (inputs tx)) @ ''|outputs:'' @ nat_str (length (outputs tx))"

section \<open>Lemmas\<close>

lemma tx_preimage_txHash [simp]: "tx_preimage (tx\<lparr>txHash := h\<rparr>) = tx_preimage tx"
  by (simp add: tx_preimage_def)

lemma calculateHash_txHash [simp]:
  "Transaction_calculateHash (tx\<lparr>txHash := h\<rparr>) = Transaction_calculateHash tx"
  by (simp add: Transaction_calculateHash_def)

lemma createCoinbase_fields [simp]:
  "isCoinbase (createCoinbase now a r h)"
  "length (inputs (createCoinbase now a r h)) = 1"
  "outputs (createCoinbase now a r h) =
     [\<lparr>amount = r * 100000000, out_address = a, scriptPubKey = coinbase_script a\<rparr>]"
  "timestamp (createCoinbase now a r h) = now"
  by (simp_all add: createCoinbase_def Let_def Transaction_new_def)

lemma createCoinbase_txHash [simp]:
  "txHash (createCoinbase now a r h) = Transaction_calculateHash (createCoinbase now a r h)"
  by (simp add: createCoinbase_def Let_def)

lemma create_fields [simp]:
  "\<not> isCoinbase (Transaction_create now ins outs)"
  "inputs (Transaction_create now ins outs) = ins"
  "outputs (Transaction_create now ins outs) = outs"
  "timestamp (Transaction_create now ins outs) = now"
  by (simp_all add: Transaction_create_def Let_def Transaction_new_def)

lemma create_txHash [simp]:
  "txHash (Transaction_create now ins outs) = Transaction_calculateHash (Transaction_create now ins outs)"
  by (simp add: Transaction_create_def Let_def)

lemma length_calculateHash [simp]: "length (Transaction_calculateHash tx) = 64"
  by (simp add: Transaction_calculateHash_def)

lemma is_hex_calculateHash [simp]: "is_hex (Transaction_calculateHash tx)"
  by (simp add: Transaction_calculateHash_def)

lemma foldl_add_word: "foldl (\<lambda>t x. t + f x) a xs = a + sum_list (map f xs)"
  for a :: "'a::len word"
  by (induction xs arbitrary: a) (simp_all add: add.assoc)

lemma totalOutput_sum: "totalOutput tx = sum_list (map amount (outputs tx))"
  by (simp add: totalOutput_def foldl_add_word)

lemma fee_zero [simp]: "fee tx = 0"
  by (simp add: fee_def totalInput_def Let_def)

lemma createCoinbase_preimage:
  "tx_preimage (createCoinbase now a r h) =
     int_str now @ ''1'' @ replicate 64 (CHR ''0'') @ ''4294967295'' @ nat_str (unat (r * 100000000)) @ a"
proof -
  have "nat_str (unat (0xFFFFFFFF :: u32)) = ''4294967295''"
    by (simp add: nat_str_def num_str.simps digit_char_def) code_simp
  then show ?thesis
    by (simp add: tx_preimage_def createCoinbase_def Let_def Transaction_new_def input_text_def
        output_text_def bool_str_def)
qed

text \<open>
  The outputs a preimage determines. Amounts are written without a separator, so the text of a
  list of outputs determines the list only where the addresses show where they start and end:
  no leading digit, and a common length.
\<close>

definition plain_addresses :: "nat \<Rightarrow> TxOutput list \<Rightarrow> bool" where
  "plain_addresses n outs \<longleftrightarrow>
     (\<forall>out \<in> set outs. length (out_address out) = n \<and> out_address out \<noteq> [] \<and> \<not> is_digit 10 (hd (out_address out)))"

lemma nat_str_is_digit: "c \<in> set (nat_str n) \<Longrightarrow> is_digit 10 c"
  using nat_str_chars [of c n] by (auto simp: is_digit_def digit_val_def)

lemma nat_str_append_inject:
  assumes "nat_str m @ a = nat_str n @ b" and "a \<noteq> []" and "b \<noteq> []"
    and "\<not> is_digit 10 (hd a)" and "\<not> is_digit 10 (hd b)"
  shows "m = n \<and> a = b"
proof -
  have split: "takeWhile (is_digit 10) (nat_str k @ c) = nat_str k \<and> dropWhile (is_digit 10) (nat_str k @ c) = c"
    if "c \<noteq> []" "\<not> is_digit 10 (hd c)" for k c
  proof -
    from that have "takeWhile (is_digit 10) c = []" "dropWhile (is_digit 10) c = c"
      by (cases c; simp)+
    then show ?thesis
      using nat_str_is_digit [of _ k] by (simp add: takeWhile_append2 dropWhile_append2)
  qed
  from split [of a m] split [of b n] assms show ?thesis by (metis nat_str_inject)
qed

lemma output_texts_inject:
  assumes "plain_addresses n xs" and "plain_addresses n ys"
    and "concat (map output_text xs) = concat (map output_text ys)"
  shows "map (\<lambda>out. (amount out, out_address out)) xs = map (\<lambda>out. (amount out, out_address out)) ys"
  using assms
proof (induction xs arbitrary: ys)
  case Nil
  then show ?case by (cases ys) (auto simp: output_text_def plain_addresses_def)
next
  case (Cons x xs)
  from Cons.prems obtain y ys' where ys: "ys = y # ys'"
    by (cases ys) (auto simp: output_text_def plain_addresses_def)
  have pl: "plain_addresses n xs" "plain_addresses n ys'"
    and x: "length (out_address x) = n" "out_address x \<noteq> []" "\<not> is_digit 10 (hd (out_address x))"
    and y: "length (out_address y) = n" "out_address y \<noteq> []" "\<not> is_digit 10 (hd (out_address y))"
    using Cons.prems by (auto simp: plain_addresses_def ys)
  have "nat_str (unat (amount x)) @ (out_address x @ concat (map output_text xs)) =
        nat_str (unat (amount y)) @ (out_address y @ concat (map output_text ys'))"
    using Cons.prems(3) by (simp add: ys output_text_def [of x] output_text_def [of y])
  from nat_str_append_inject [OF this] x y
  have am: "unat (amount x) = unat (amount y)"
    and rest: "out_address x @ concat (map output_text xs) = out_address y @ concat (map output_text ys')"
    by auto
  from am have "amount x = amount y" by (simp add: unat_inject)
  moreover from rest x(1) y(1) have "out_address x = out_address y"
    and "concat (map output_text xs) = concat (map output_text ys')" by auto
  moreover note Cons.IH [OF pl]
  ultimately show ?case by (simp add: ys)
qed

text \<open>
  Binding: two transactions with the same time, kind and inputs, paying to such addresses, have
  the same identifier only when they pay the same amounts to the same addresses in the same
  order, or else their two preimages collide.
\<close>

lemma outputs_bound:
  assumes "Transaction_calculateHash tx = Transaction_calculateHash tx'"
    and "timestamp tx = timestamp tx'" and "isCoinbase tx = isCoinbase tx'" and "inputs tx = inputs tx'"
    and "plain_addresses n (outputs tx)" and "plain_addresses n (outputs tx')"
  shows "map (\<lambda>out. (amount out, out_address out)) (outputs tx)
           = map (\<lambda>out. (amount out, out_address out)) (outputs tx')
         \<or> collides {tx_preimage tx, tx_preimage tx'}"
proof (cases "tx_preimage tx = tx_preimage tx'")
  case True
  then have "concat (map output_text (outputs tx)) = concat (map output_text (outputs tx'))"
    using assms(2-4) by (simp add: tx_preimage_def)
  from output_texts_inject [OF assms(5,6) this] show ?thesis ..
next
  case False
  with assms(1) show ?thesis
    using double_hash_bound by (auto simp: Transaction_calculateHash_def)
qed

text \<open>
  What the identifier leaves open: the scripts and signatures are not hashed, nor is the height
  of a coinbase, and an amount runs into an address that starts with a digit.
\<close>

lemma createCoinbase_height_ignored:
  "txHash (createCoinbase now a r h) = txHash (createCoinbase now a r h')"
  by (simp add: Transaction_calculateHash_def createCoinbase_preimage)

section \<open>Properties\<close>

text \<open>The identifier of a transaction binds what it pays: two transactions with the same time,
  kind and inputs, whose addresses have one length and do not start with a digit, have the same
  identifier only if they pay the same amounts to the same addresses in the same order, or their
  two texts collide under double SHA-256.\<close>

theorem identifier_binds_outputs:
  assumes "Transaction_calculateHash tx = Transaction_calculateHash tx'"
    and "timestamp tx = timestamp tx'" and "isCoinbase tx = isCoinbase tx'" and "inputs tx = inputs tx'"
    and "plain_addresses n (outputs tx)" and "plain_addresses n (outputs tx')"
  shows "map (\<lambda>out. (amount out, out_address out)) (outputs tx)
           = map (\<lambda>out. (amount out, out_address out)) (outputs tx')
         \<or> collides {tx_preimage tx, tx_preimage tx'}"
  by (rule outputs_bound [OF assms])

theorem identifier_binds_outputs_witness:
  "(\<lambda>out. (amount out, out_address out)) \<lparr>amount = 7, out_address = ''RX'', scriptPubKey = ''s''\<rparr>
     = (\<lambda>out. (amount out, out_address out)) \<lparr>amount = 7, out_address = ''RX'', scriptPubKey = ''t''\<rparr>
   \<and> Transaction_calculateHash (Transaction_create 1 [] [\<lparr>amount = 7, out_address = ''RX'', scriptPubKey = ''s''\<rparr>])
     = Transaction_calculateHash (Transaction_create 1 [] [\<lparr>amount = 7, out_address = ''RX'', scriptPubKey = ''t''\<rparr>])"
proof -
  define tx where "tx = Transaction_create 1 [] [\<lparr>amount = 7, out_address = ''RX'', scriptPubKey = ''s''\<rparr>]"
  define tx' where "tx' = Transaction_create 1 [] [\<lparr>amount = 7, out_address = ''RX'', scriptPubKey = ''t''\<rparr>]"
  have pre: "tx_preimage tx = tx_preimage tx'"
    by (simp add: tx_def tx'_def tx_preimage_def output_text_def)
  then have h: "Transaction_calculateHash tx = Transaction_calculateHash tx'"
    by (simp add: Transaction_calculateHash_def)
  have "is_digit 10 (CHR ''R'') = False" by code_simp
  then have "plain_addresses 2 (outputs tx)" "plain_addresses 2 (outputs tx')"
    by (simp_all add: plain_addresses_def tx_def tx'_def)
  from identifier_binds_outputs [OF h _ _ _ this] pre h show ?thesis
    by (simp add: tx_def tx'_def)
qed

end
