(* ===== verification/Merkle.thy ===== *)
theory Merkle
  imports SHA256
begin

text \<open>
  \<open>src/src/core/merkle.{h,cpp}\<close>: the Merkle root of a list of transaction hashes, the sibling
  path of one of them, and the check of a path. The specification of the check is
  \<open>path_root\<close>, which puts the sibling on the side the index gives; the code's \<open>verifyProof\<close>
  always puts it on the right. What a tree needs of its pair hash is the locale
  \<open>pair_hash\<close>, interpreted on the code's \<open>hashPair\<close>.
\<close>

section \<open>Operations\<close>

definition hashPair :: "string \<Rightarrow> string \<Rightarrow> string" where
  "hashPair a b = double_hash (a @ b)"

text \<open>One round of either loop: duplicate the last hash of an odd layer, then hash the pairs.\<close>

definition pad_layer :: "string list \<Rightarrow> string list" where
  "pad_layer layer = (if length layer mod 2 \<noteq> 0 then layer @ [last layer] else layer)"

fun pair_layer :: "string list \<Rightarrow> string list" where
  "pair_layer (a # b # r) = hashPair a b # pair_layer r"
| "pair_layer r = []"

lemma length_pair_layer [simp]: "length (pair_layer l) = length l div 2"
  by (induction l rule: pair_layer.induct) simp_all

lemma length_pad_layer: "length (pad_layer l) = length l + length l mod 2"
  by (auto simp: pad_layer_def mod_2_eq_odd)

lemma length_next_layer [simp]: "length (pad_layer l) div 2 = (length l + 1) div 2"
  by (auto simp: length_pad_layer mod_2_eq_odd)

function reduce_layers :: "string list \<Rightarrow> string" where
  "reduce_layers layer =
     (if 1 < length layer then reduce_layers (pair_layer (pad_layer layer)) else layer ! 0)"
  by pat_completeness auto
termination
  by (relation "measure length") auto

declare reduce_layers.simps [simp del]

definition buildRoot :: "string list \<Rightarrow> string" where
  "buildRoot txHashes =
     (if txHashes = [] then replicate 64 (CHR ''0'')
      else if length txHashes = 1 then txHashes ! 0
      else reduce_layers txHashes)"

function proof_layers :: "string list \<Rightarrow> nat \<Rightarrow> string list" where
  "proof_layers layer idx =
     (if 1 < length layer then
        let layer' = pad_layer layer;
            sibling = (if idx mod 2 = 0 then idx + 1 else idx - 1)
        in (layer' ! sibling) # proof_layers (pair_layer layer') (idx div 2)
      else [])"
  by pat_completeness auto
termination
  by (relation "measure (\<lambda>(layer, _). length layer)") auto

declare proof_layers.simps [simp del]

fun index_of :: "string \<Rightarrow> string list \<Rightarrow> nat option" where
  "index_of h [] = None"
| "index_of h (x # xs) = (if x = h then Some 0 else map_option Suc (index_of h xs))"

definition generateProof :: "string list \<Rightarrow> string \<Rightarrow> string list" where
  "generateProof txHashes txHash =
     (case index_of txHash txHashes of None \<Rightarrow> [] | Some idx \<Rightarrow> proof_layers txHashes idx)"

definition verifyProof :: "string \<Rightarrow> string \<Rightarrow> string list \<Rightarrow> bool" where
  "verifyProof root txHash path \<longleftrightarrow> foldl (\<lambda>current sibling. hashPair current sibling) txHash path = root"

section \<open>Layers\<close>

lemma pad_layer_even [simp]: "even (length (pad_layer l))"
  by (simp add: pad_layer_def flip: even_iff_mod_2_eq_zero)

lemma pair_layer_nth:
  "2 * i + 1 < length l \<Longrightarrow> pair_layer l ! i = hashPair (l ! (2 * i)) (l ! (2 * i + 1))"
proof (induction l arbitrary: i rule: pair_layer.induct)
  case (1 a b r)
  then show ?case by (cases i) simp_all
qed simp_all

lemma pad_layer_nth [simp]: "i < length l \<Longrightarrow> pad_layer l ! i = l ! i"
  by (auto simp: pad_layer_def nth_append)

text \<open>The parent of entry \<open>i\<close>: its own hash on the side its parity gives.\<close>

lemma parent_nth:
  assumes "i < length l"
  shows "pair_layer (pad_layer l) ! (i div 2) =
           (if i mod 2 = 0 then hashPair (l ! i) (pad_layer l ! (i + 1))
            else hashPair (pad_layer l ! (i - 1)) (l ! i))"
proof (cases "even i")
  case True
  then obtain j where j: "i = 2 * j" by (rule evenE)
  have "2 * j + 1 < length (pad_layer l)"
    using assms pad_layer_even [of l] length_pad_layer [of l]
    unfolding j by (cases "even (length l)") (auto simp: mod_2_eq_odd elim!: evenE)
  from pair_layer_nth [OF this] assms show ?thesis by (simp add: j)
next
  case False
  then obtain j where j: "i = 2 * j + 1" by (rule oddE)
  have "2 * j + 1 < length (pad_layer l)"
    using assms unfolding j by (simp add: length_pad_layer)
  from pair_layer_nth [OF this] assms show ?thesis by (simp add: j)
qed

section \<open>The specification of a path\<close>

fun path_root :: "nat \<Rightarrow> string \<Rightarrow> string list \<Rightarrow> string" where
  "path_root idx current [] = current"
| "path_root idx current (s # path) =
     path_root (idx div 2) (if idx mod 2 = 0 then hashPair current s else hashPair s current) path"

lemma path_root_proof_layers:
  "i < length l \<Longrightarrow> path_root i (l ! i) (proof_layers l i) = reduce_layers l"
proof (induction l i rule: proof_layers.induct)
  case (1 layer idx)
  show ?case
  proof (cases "1 < length layer")
    case True
    let ?l = "pad_layer layer"
    have "idx div 2 < length (pair_layer ?l)" using "1.prems" by simp
    with True have IH: "path_root (idx div 2) (pair_layer ?l ! (idx div 2)) (proof_layers (pair_layer ?l) (idx div 2))
             = reduce_layers (pair_layer ?l)"
      using "1.IH" by simp
    from True show ?thesis
      using IH [unfolded parent_nth [OF "1.prems"]]
      by (cases "idx mod 2 = 0") (simp_all add: proof_layers.simps [of layer] reduce_layers.simps [of layer] Let_def)
  next
    case False
    with "1.prems" have "idx = 0" "length layer = 1" by auto
    with False show ?thesis
      by (simp add: proof_layers.simps [of layer] reduce_layers.simps [of layer])
  qed
qed

lemma index_of_SomeD:
  "index_of h xs = Some i \<Longrightarrow> i < length xs \<and> xs ! i = h \<and> (\<forall>j < i. xs ! j \<noteq> h)"
proof (induction xs arbitrary: i)
  case (Cons x xs)
  then show ?case by (auto split: if_splits simp: nth_Cons split: nat.splits)
qed simp

lemma index_of_None: "index_of h xs = None \<longleftrightarrow> h \<notin> set xs"
  by (induction xs) auto

lemma buildRoot_reduce: "txs \<noteq> [] \<Longrightarrow> buildRoot txs = reduce_layers txs"
  by (auto simp: buildRoot_def reduce_layers.simps [of txs])

text \<open>A generated path leads to the root, each sibling on its own side.\<close>

lemma generateProof_path_root:
  assumes "index_of h txs = Some i"
  shows "path_root i h (generateProof txs h) = buildRoot txs"
proof -
  from index_of_SomeD [OF assms] have i: "i < length txs" "txs ! i = h" by auto
  then have "txs \<noteq> []" by auto
  with i path_root_proof_layers [OF i(1)] assms show ?thesis
    by (simp add: generateProof_def buildRoot_reduce)
qed

lemma path_root_0: "path_root 0 h path = foldl hashPair h path"
  by (induction path arbitrary: h) simp_all

text \<open>The code's check accepts the path of the first transaction.\<close>

lemma verifyProof_first:
  assumes "txs \<noteq> []"
  shows "verifyProof (buildRoot txs) (hd txs) (generateProof txs (hd txs))"
proof -
  have "index_of (hd txs) txs = Some 0" using assms by (cases txs) auto
  from generateProof_path_root [OF this] show ?thesis
    by (simp add: verifyProof_def path_root_0)
qed

section \<open>Binding\<close>

text \<open>The texts a root, a path from index \<open>idx\<close> and the code's check hash.\<close>

fun pair_texts :: "string list \<Rightarrow> string list" where
  "pair_texts (a # b # r) = (a @ b) # pair_texts r"
| "pair_texts r = []"

function root_texts :: "string list \<Rightarrow> string list" where
  "root_texts layer =
     (if 1 < length layer then
        pair_texts (pad_layer layer) @ root_texts (pair_layer (pad_layer layer))
      else [])"
  by pat_completeness auto
termination
  by (relation "measure length") auto

declare root_texts.simps [simp del]

fun path_texts :: "nat \<Rightarrow> string \<Rightarrow> string list \<Rightarrow> string list" where
  "path_texts idx current [] = []"
| "path_texts idx current (s # path) =
     (if idx mod 2 = 0 then current @ s else s @ current) #
     path_texts (idx div 2) (if idx mod 2 = 0 then hashPair current s else hashPair s current) path"

fun check_texts :: "string \<Rightarrow> string list \<Rightarrow> string list" where
  "check_texts current [] = []"
| "check_texts current (s # path) = (current @ s) # check_texts (hashPair current s) path"

text \<open>
  What a tree needs of its pair hash: results of one length, and equal results only for equal
  pairs, unless the two texts are a collision. What follows for trees is proved from this.
\<close>

locale pair_hash =
  fixes hp :: "string \<Rightarrow> string \<Rightarrow> string" and len :: nat and collide :: "string set \<Rightarrow> bool"
  assumes hp_length: "length (hp a b) = len"
    and hp_inject: "\<lbrakk>length a = len; length a' = len; hp a b = hp a' b'\<rbrakk>
          \<Longrightarrow> a = a' \<and> b = b' \<or> collide {a @ b, a' @ b'}"
    and collide_mono: "collide S \<Longrightarrow> S \<subseteq> T \<Longrightarrow> collide T"
begin

lemma pair_bound:
  assumes "length a = len" and "length a' = len" and "hp a b = hp a' b'" and "{a @ b, a' @ b'} \<subseteq> S"
  shows "a = a' \<and> b = b' \<or> collide S"
  using hp_inject [OF assms(1-3)] collide_mono assms(4) by blast

text \<open>Two digests hashed in both orders with the same result are equal.\<close>

lemma swap_bound:
  assumes "length a = len" and "length b = len" and "hp a b = hp b a" and "a \<noteq> b"
  shows "collide {a @ b, b @ a}"
  using hp_inject [of a b b a] assms by auto

end

interpretation merkle: pair_hash hashPair 64 collides
proof
  show "length (hashPair a b) = 64" for a b
    by (simp add: hashPair_def)
  show "a = a' \<and> b = b' \<or> collides {a @ b, a' @ b'}"
    if "length a = 64" "length a' = 64" "hashPair a b = hashPair a' b'" for a a' b b'
    using double_hash_bound [of "a @ b" "a' @ b'"] that by (auto simp: hashPair_def)
qed (rule collides_mono)

definition digests :: "string list \<Rightarrow> bool" where
  "digests l \<longleftrightarrow> (\<forall>h \<in> set l. length h = 64)"

lemma digests_pad [simp]: "digests (pad_layer l) \<longleftrightarrow> digests l"
  by (cases l rule: rev_cases) (auto simp: digests_def pad_layer_def)

lemma digests_pair [simp]: "digests (pair_layer l)"
  by (induction l rule: pair_layer.induct) (auto simp: digests_def merkle.hp_length)

lemma pair_layer_bound:
  assumes "length l = length l'" and "even (length l)" and "digests l" and "digests l'"
    and "pair_layer l = pair_layer l'" and "set (pair_texts l) \<union> set (pair_texts l') \<subseteq> S"
  shows "l = l' \<or> collides S"
  using assms
proof (induction l arbitrary: l' rule: pair_layer.induct)
  case (1 a b r)
  from "1.prems"(1) obtain a' b' r' where l': "l' = a' # b' # r'"
    by (cases l' rule: pair_layer.cases) auto
  have "a = a' \<and> b = b' \<or> collides S"
    using "1.prems" by (intro merkle.pair_bound) (auto simp: digests_def l')
  moreover have "r = r' \<or> collides S"
    using "1.prems" l' by (intro "1.IH") (auto simp: digests_def)
  ultimately show ?case using l' by auto
qed auto

lemma pad_layer_inject: "length l = length l' \<Longrightarrow> pad_layer l = pad_layer l' \<Longrightarrow> l = l'"
  by (auto simp: pad_layer_def split: if_splits)

lemma reduce_layers_bound:
  "\<lbrakk>length l = length l'; l \<noteq> []; digests l; digests l'; reduce_layers l = reduce_layers l';
    set (root_texts l) \<union> set (root_texts l') \<subseteq> S\<rbrakk> \<Longrightarrow> l = l' \<or> collides S"
proof (induction l arbitrary: l' rule: reduce_layers.induct)
  case (1 layer)
  show ?case
  proof (cases "1 < length layer")
    case True
    then have True': "1 < length l'" using "1.prems"(1) by simp
    let ?n = "\<lambda>l. pair_layer (pad_layer l)"
    have texts: "set (pair_texts (pad_layer layer)) \<union> set (pair_texts (pad_layer l')) \<subseteq> S"
        "set (root_texts (?n layer)) \<union> set (root_texts (?n l')) \<subseteq> S"
      using "1.prems"(6) True True' by (auto simp: root_texts.simps [of layer] root_texts.simps [of l'])
    have "length (?n layer) = length (?n l')" using "1.prems" by simp
    moreover have "?n layer \<noteq> []" using True by (simp flip: length_greater_0_conv)
    moreover have "reduce_layers (?n layer) = reduce_layers (?n l')"
      using True True' "1.prems"(5) by (simp add: reduce_layers.simps [of layer] reduce_layers.simps [of l'])
    ultimately have "?n layer = ?n l' \<or> collides S"
      using "1.IH" [OF True] texts by auto
    moreover have "pad_layer layer = pad_layer l' \<or> collides S" if "?n layer = ?n l'"
      using that "1.prems" texts by (intro pair_layer_bound) (auto simp: length_pad_layer)
    ultimately show ?thesis using pad_layer_inject "1.prems"(1) by blast
  next
    case False
    with "1.prems" obtain x y where "layer = [x]" "l' = [y]"
      by (cases layer; cases l') auto
    with "1.prems" show ?thesis
      by (simp add: reduce_layers.simps [of "[x]"] reduce_layers.simps [of "[y]"])
  qed
qed

text \<open>
  The root binds the list among the lists of its length, but not among all lists: an odd list
  and the list with its last hash repeated have the same root.
\<close>

lemma buildRoot_bound:
  assumes "buildRoot txs = buildRoot txs'" and "length txs = length txs'"
    and "digests txs" and "digests txs'"
  shows "txs = txs' \<or> collides (set (root_texts txs) \<union> set (root_texts txs'))"
proof (cases "txs = []")
  case False
  with assms(2) have "txs' \<noteq> []" by auto
  with False show ?thesis
    using assms by (intro reduce_layers_bound) (auto simp: buildRoot_reduce)
qed (use assms in auto)

lemma buildRoot_repeat_last:
  assumes "odd (length txs)" and "1 < length txs"
  shows "buildRoot (txs @ [last txs]) = buildRoot txs"
proof -
  have "pad_layer (txs @ [last txs]) = pad_layer txs"
    using assms by (simp add: pad_layer_def odd_iff_mod_2_eq_one)
  then show ?thesis
    using assms by (auto simp: buildRoot_reduce reduce_layers.simps [of txs]
        reduce_layers.simps [of "txs @ [last txs]"])
qed

text \<open>
  A transaction at an odd position: the path the code generates is refused by the code's own
  check, unless two of the texts hashed on the way collide.
\<close>

lemma path_root_fold_bound:
  assumes "length a = 64" and "length b = 64" and "\<forall>s \<in> set path. length s = 64"
    and "path_root i a path = foldl hashPair b path"
    and "set (path_texts i a path) \<union> set (check_texts b path) \<subseteq> S"
  shows "a = b \<or> collides S"
  using assms
proof (induction path arbitrary: i a b)
  case (Cons s path)
  let ?a = "if i mod 2 = 0 then hashPair a s else hashPair s a"
  have "?a = hashPair b s \<or> collides S"
    using Cons.prems by (intro Cons.IH [of ?a _ "i div 2"]) (auto simp: merkle.hp_length)
  moreover have "length s = 64" using Cons.prems by simp
  ultimately show ?case
    using merkle.pair_bound [of a b s s S] merkle.pair_bound [of s b a s S] Cons.prems
    by (auto split: if_splits)
qed simp

lemma digests_proof_layers: "digests l \<Longrightarrow> i < length l \<Longrightarrow> digests (proof_layers l i)"
proof (induction l i rule: proof_layers.induct)
  case (1 layer idx)
  show ?case
  proof (cases "1 < length layer")
    case True
    let ?l = "pad_layer layer" and ?s = "if idx mod 2 = 0 then idx + 1 else idx - 1"
    have "?s < length ?l"
      using "1.prems"(2) by (auto simp: length_pad_layer elim!: evenE oddE) presburger
    then have "length (?l ! ?s) = 64"
      using "1.prems"(1) digests_pad [of layer] unfolding digests_def by (meson nth_mem)
    moreover have "digests (proof_layers (pair_layer ?l) (idx div 2))"
      using True "1.prems" by (intro "1.IH") auto
    ultimately show ?thesis
      using True by (simp add: proof_layers.simps [of layer] digests_def Let_def)
  qed (simp add: proof_layers.simps [of layer] digests_def)
qed

lemma odd_position_refused:
  assumes "index_of h txs = Some i" and "odd i" and "digests txs"
    and "verifyProof (buildRoot txs) h (generateProof txs h)"
  shows "collides (set (path_texts i h (generateProof txs h)) \<union> set (check_texts h (generateProof txs h)))"
    (is "collides ?S")
proof -
  from index_of_SomeD [OF assms(1)]
  have i: "i < length txs" "txs ! i = h" and first: "\<forall>j < i. txs ! j \<noteq> h" by auto
  from \<open>odd i\<close> have i1: "i - 1 < length txs" "txs ! (i - 1) \<noteq> h" and len: "1 < length txs"
    and m: "i mod 2 = 1"
    using i first by (auto elim!: oddE)
  let ?sib = "txs ! (i - 1)" and ?path = "proof_layers (pair_layer (pad_layer txs)) (i div 2)"
  have path: "generateProof txs h = ?sib # ?path"
    using assms(1) m len i1 by (simp add: generateProof_def proof_layers.simps [of txs] Let_def)
  have d: "length h = 64" "length ?sib = 64"
    using assms(3) i i1 by (auto simp: digests_def)
  have eq: "path_root (i div 2) (hashPair ?sib h) ?path = foldl hashPair (hashPair h ?sib) ?path"
    using m assms(4) generateProof_path_root [OF assms(1)] unfolding path by (simp add: verifyProof_def)
  have "digests ?path"
    using i by (intro digests_proof_layers) auto
  then have "hashPair ?sib h = hashPair h ?sib \<or> collides ?S"
    using m path by (intro path_root_fold_bound [OF _ _ _ eq]) (auto simp: merkle.hp_length digests_def)
  moreover have "{?sib @ h, h @ ?sib} \<subseteq> ?S"
    using m path by simp
  ultimately show ?thesis
    using merkle.swap_bound [OF d(2) d(1)] i1(2) collides_mono by blast
qed

section \<open>Properties\<close>

text \<open>C9: Every transaction of a block has a Merkle path that leads to the root: hashing its
  identifier with the generated siblings, each on the side its position gives, yields the root. The
  check of a path, which always hashes the sibling on the right, accepts the path of the first
  transaction and refuses the path of every transaction at an odd position, unless texts hashed on
  the way collide.\<close>

theorem merkle_paths:
  assumes "index_of h txs = Some i" and "digests txs"
  shows "path_root i h (generateProof txs h) = buildRoot txs
       \<and> (i = 0 \<longrightarrow> verifyProof (buildRoot txs) h (generateProof txs h))
       \<and> (odd i \<and> verifyProof (buildRoot txs) h (generateProof txs h) \<longrightarrow>
            collides (set (path_texts i h (generateProof txs h)) \<union> set (check_texts h (generateProof txs h))))"
proof -
  have "h = hd txs \<and> txs \<noteq> []" if "i = 0"
    using index_of_SomeD [OF assms(1)] that by (cases txs) auto
  with verifyProof_first [of txs] odd_position_refused [OF assms(1) _ assms(2)]
    generateProof_path_root [OF assms(1)]
  show ?thesis by blast
qed

theorem merkle_paths_witness:
  "verifyProof (buildRoot [replicate 64 (CHR ''a''), replicate 64 (CHR ''b'')]) (replicate 64 (CHR ''a''))
     (generateProof [replicate 64 (CHR ''a''), replicate 64 (CHR ''b'')] (replicate 64 (CHR ''a'')))
   \<and> path_root 1 (replicate 64 (CHR ''b''))
       (generateProof [replicate 64 (CHR ''a''), replicate 64 (CHR ''b'')] (replicate 64 (CHR ''b'')))
     = buildRoot [replicate 64 (CHR ''a''), replicate 64 (CHR ''b'')]"
  using merkle_paths [of "replicate 64 (CHR ''a'')" "[replicate 64 (CHR ''a''), replicate 64 (CHR ''b'')]" 0]
    merkle_paths [of "replicate 64 (CHR ''b'')" "[replicate 64 (CHR ''a''), replicate 64 (CHR ''b'')]" 1]
  by (simp add: digests_def)

text \<open>C8: The Merkle root binds the list of transactions among the lists of its length, up to a
  collision of two texts the two trees hash; it does not bind the length, since repeating the last
  transaction of an odd list keeps the root.\<close>

theorem merkle_root_binds:
  assumes "buildRoot txs = buildRoot txs'" and "length txs = length txs'" and "digests txs" and "digests txs'"
  shows "(txs = txs' \<or> collides (set (root_texts txs) \<union> set (root_texts txs')))
       \<and> (odd (length txs) \<and> 1 < length txs \<longrightarrow> buildRoot (txs @ [last txs]) = buildRoot txs')"
  using buildRoot_bound [OF assms] buildRoot_repeat_last [of txs] assms(1) by auto

theorem merkle_root_binds_witness:
  "buildRoot [replicate 64 (CHR ''a''), replicate 64 (CHR ''b''), replicate 64 (CHR ''c''), replicate 64 (CHR ''c'')]
     = buildRoot [replicate 64 (CHR ''a''), replicate 64 (CHR ''b''), replicate 64 (CHR ''c'')]"
  using merkle_root_binds [of "[replicate 64 (CHR ''a''), replicate 64 (CHR ''b''), replicate 64 (CHR ''c'')]"
      "[replicate 64 (CHR ''a''), replicate 64 (CHR ''b''), replicate 64 (CHR ''c'')]"]
  by (simp add: digests_def)

end
