(* ===== verification/Nonce_Loop.thy ===== *)
theory Nonce_Loop
  imports Prelude
begin

text \<open>
  The loop of a miner, shared by \<open>Block::mine\<close> and \<open>ProofOfWork::mine\<close>: try a state; if it
  does not fit, step to the next nonce. Neither loop has a bound, so each is a
  \<open>partial_function\<close> whose value \<open>None\<close> is running forever. The first locale is the loop, the
  second the loop over a 64-bit nonce, which wraps around.
\<close>

locale retry_loop =
  fixes loop :: "'s \<Rightarrow> 'r option"
    and attempt :: "'s \<Rightarrow> 'r option"
    and step :: "'s \<Rightarrow> 's"
  assumes unfold_loop: "loop s = (case attempt s of Some r \<Rightarrow> Some r | None \<Rightarrow> loop (step s))"
    and loop_least: "\<lbrakk>\<And>s. P s \<Longrightarrow> attempt s = None \<and> P (step s); P s\<rbrakk> \<Longrightarrow> loop s = None"
begin

lemma loop_after: "\<forall>j < k. attempt ((step ^^ j) s) = None \<Longrightarrow> loop s = loop ((step ^^ k) s)"
proof (induction k)
  case (Suc k)
  then have "loop s = loop ((step ^^ k) s)" and "attempt ((step ^^ k) s) = None" by simp_all
  then show ?case using unfold_loop [of "(step ^^ k) s"] by simp
qed simp

lemma loop_None_iff: "loop s = None \<longleftrightarrow> (\<forall>k. attempt ((step ^^ k) s) = None)"
proof
  assume *: "\<forall>k. attempt ((step ^^ k) s) = None"
  show "loop s = None"
  proof (rule loop_least [of "\<lambda>t. \<exists>k. t = (step ^^ k) s"])
    fix t assume "\<exists>k. t = (step ^^ k) s"
    then obtain k where "t = (step ^^ k) s" ..
    then show "attempt t = None \<and> (\<exists>k. step t = (step ^^ k) s)"
      using * by (auto intro: exI [of _ "Suc k"])
  qed (auto intro: exI [of _ 0])
next
  assume "loop s = None"
  show "\<forall>k. attempt ((step ^^ k) s) = None"
  proof (rule ccontr)
    assume "\<not> ?thesis"
    then obtain k where "attempt ((step ^^ k) s) \<noteq> None" "\<forall>j < k. attempt ((step ^^ j) s) = None"
      using exists_least_iff [of "\<lambda>k. attempt ((step ^^ k) s) \<noteq> None"] by auto
    with \<open>loop s = None\<close> show False
      using loop_after [of k s] unfold_loop [of "(step ^^ k) s"] by auto
  qed
qed

text \<open>A loop that returns has stopped at the first state that fits.\<close>

lemma loop_first:
  assumes "loop s = Some r"
  obtains k where "attempt ((step ^^ k) s) = Some r" and "\<And>j. j < k \<Longrightarrow> attempt ((step ^^ j) s) = None"
proof -
  have "\<exists>k. attempt ((step ^^ k) s) \<noteq> None"
    using assms loop_None_iff [of s] by auto
  then obtain k where k: "attempt ((step ^^ k) s) \<noteq> None" "\<forall>j < k. attempt ((step ^^ j) s) = None"
    using exists_least_iff [of "\<lambda>k. attempt ((step ^^ k) s) \<noteq> None"] by auto
  with assms have "attempt ((step ^^ k) s) = Some r"
    using loop_after [of k s] unfold_loop [of "(step ^^ k) s"] by auto
  with k that show thesis by blast
qed

lemma loop_Some: "attempt s = Some r \<Longrightarrow> loop s = Some r"
  using unfold_loop [of s] by simp

end

text \<open>
  \<open>at_nonce s n\<close> is the state of the search at nonce \<open>n\<close>. The nonce is an unsigned 64-bit
  counter: the search visits every value, whatever it starts from, and then starts over.
\<close>

locale nonce_loop = retry_loop loop attempt step
  for loop :: "'s \<Rightarrow> 'r option" and attempt :: "'s \<Rightarrow> 'r option" and step :: "'s \<Rightarrow> 's" +
  fixes at_nonce :: "'s \<Rightarrow> u64 \<Rightarrow> 's"
  assumes step_at: "step (at_nonce s n) = at_nonce s (n + 1)"
begin

lemma steps_at: "(step ^^ k) (at_nonce s n) = at_nonce s (n + of_nat k)"
  by (induction k) (simp_all add: step_at add_ac)

text \<open>The search returns exactly when some nonce fits.\<close>

lemma returns_iff: "(\<exists>r. loop (at_nonce s n) = Some r) \<longleftrightarrow> (\<exists>m. attempt (at_nonce s m) \<noteq> None)"
proof -
  have "n + of_nat (unat (m - n)) = m" for m by simp
  then have "(\<forall>k. attempt (at_nonce s (n + of_nat k)) = None) \<longleftrightarrow> (\<forall>m. attempt (at_nonce s m) = None)"
    by metis
  then show ?thesis
    using loop_None_iff [of "at_nonce s n"] by (auto simp: steps_at)
qed

text \<open>It returns the result of the first nonce, in the order of the search, that fits.\<close>

lemma first_nonce:
  assumes "loop (at_nonce s n) = Some r"
  shows "\<exists>k. attempt (at_nonce s (n + of_nat k)) = Some r \<and> (\<forall>j < k. attempt (at_nonce s (n + of_nat j)) = None)"
  using loop_first [OF assms] unfolding steps_at by blast

end

end
