(* ===== verification/Block.thy ===== *)
theory Block
  imports Transaction Merkle Nonce_Loop
begin

text \<open>
  \<open>src/src/core/block.{h,cpp}\<close>: block headers, blocks, the block hash, mining and the
  validity check. The clock is an argument of the constructor.
\<close>

section \<open>Data and operations\<close>

record BlockHeader =
  version :: u32
  previousHash :: string
  merkleRoot :: string
  h_timestamp :: int
  difficulty :: u32
  nonce :: u64

record Block =
  b_index :: u32
  header :: BlockHeader
  transactions :: "Transaction list"
  b_hash :: string

definition header_preimage :: "BlockHeader \<Rightarrow> string" where
  "header_preimage h =
     nat_str (unat (version h)) @ previousHash h @ merkleRoot h @ int_str (h_timestamp h) @
     nat_str (unat (difficulty h)) @ nat_str (unat (nonce h))"

definition Block_calculateHash :: "Block \<Rightarrow> string" where
  "Block_calculateHash b = double_hash (header_preimage (header b))"

definition Block_new :: "int \<Rightarrow> u32 \<Rightarrow> string \<Rightarrow> Transaction list \<Rightarrow> u32 \<Rightarrow> Block" where
  "Block_new now idx prevHash txs diff =
     (let txHashes = map txHash txs;
          b = \<lparr>b_index = idx,
               header = \<lparr>version = 1, previousHash = prevHash, merkleRoot = buildRoot txHashes,
                         h_timestamp = now, difficulty = diff, nonce = 0\<rparr>,
               transactions = txs, b_hash = []\<rparr>
      in b\<lparr>b_hash := Block_calculateHash b\<rparr>)"

text \<open>\<open>hash.substr(0, difficulty) == std::string(difficulty, '0')\<close>.\<close>

definition zero_prefix :: "u32 \<Rightarrow> string \<Rightarrow> bool" where
  "zero_prefix d h \<longleftrightarrow> take (unat d) h = replicate (unat d) (CHR ''0'')"

text \<open>The body of the mining loop: the next nonce (it wraps at \<open>2 ^ 64\<close>), and the new hash.\<close>

definition next_nonce :: "Block \<Rightarrow> Block" where
  "next_nonce b =
     (let b' = b\<lparr>header := (header b)\<lparr>nonce := nonce (header b) + 1\<rparr>\<rparr>
      in b'\<lparr>b_hash := Block_calculateHash b'\<rparr>)"

partial_function (option) Block_mine :: "Block \<Rightarrow> Block option" where
  "Block_mine b =
     (if zero_prefix (difficulty (header b)) (b_hash b) then Some b else Block_mine (next_nonce b))"

definition Block_isValid :: "Block \<Rightarrow> bool" where
  "Block_isValid b \<longleftrightarrow>
     b_hash b = Block_calculateHash b \<and> zero_prefix (difficulty (header b)) (b_hash b)"

definition txCount :: "Block \<Rightarrow> nat" where
  "txCount b = length (transactions b)"

section \<open>Mining\<close>

definition with_nonce :: "Block \<Rightarrow> u64 \<Rightarrow> Block" where
  "with_nonce b n =
     (let b' = b\<lparr>header := (header b)\<lparr>nonce := n\<rparr>\<rparr> in b'\<lparr>b_hash := Block_calculateHash b'\<rparr>)"

definition block_attempt :: "Block \<Rightarrow> Block option" where
  "block_attempt b = (if zero_prefix (difficulty (header b)) (b_hash b) then Some b else None)"

lemma Block_calculateHash_hash [simp]:
  "Block_calculateHash (b\<lparr>b_hash := h\<rparr>) = Block_calculateHash b"
  by (simp add: Block_calculateHash_def)

lemma Block_mine_least:
  assumes "\<And>b. P b \<Longrightarrow> block_attempt b = None \<and> P (next_nonce b)" and "P b"
  shows "Block_mine b = None"
proof -
  have "\<not> P b" if "Block_mine b = Some r" for b r
  proof (rule Block_mine.raw_induct [OF _ that, of "\<lambda>b r. \<not> P b"])
    fix mine :: "Block \<Rightarrow> Block option" and b r
    assume "\<And>b r. mine b = Some r \<Longrightarrow> \<not> P b"
      and "(if zero_prefix (difficulty (header b)) (b_hash b) then Some b else mine (next_nonce b)) = Some r"
    then show "\<not> P b"
      using assms(1) [of b] by (auto simp: block_attempt_def split: if_splits)
  qed
  with \<open>P b\<close> show ?thesis by (cases "Block_mine b") auto
qed

interpretation block_search: nonce_loop Block_mine block_attempt next_nonce with_nonce
proof
  show "Block_mine b = (case block_attempt b of Some r \<Rightarrow> Some r | None \<Rightarrow> Block_mine (next_nonce b))" for b
    by (subst Block_mine.simps) (simp add: block_attempt_def)
  show "next_nonce (with_nonce b n) = with_nonce b (n + 1)" for b n
    by (simp add: next_nonce_def with_nonce_def Let_def Block_calculateHash_def)
qed (rule Block_mine_least)

lemma length_Block_calculateHash [simp]: "length (Block_calculateHash b) = 64"
  by (simp add: Block_calculateHash_def)

lemma with_nonce_fields [simp]:
  "difficulty (header (with_nonce b n)) = difficulty (header b)"
  "previousHash (header (with_nonce b n)) = previousHash (header b)"
  "merkleRoot (header (with_nonce b n)) = merkleRoot (header b)"
  "nonce (header (with_nonce b n)) = n"
  "transactions (with_nonce b n) = transactions b"
  "b_index (with_nonce b n) = b_index b"
  by (simp_all add: with_nonce_def Let_def)

lemma with_nonce_hash: "b_hash (with_nonce b n) = Block_calculateHash (with_nonce b n)"
  by (simp add: with_nonce_def Let_def)

lemma with_nonce_self: "b_hash b = Block_calculateHash b \<Longrightarrow> with_nonce b (nonce (header b)) = b"
  by (simp add: with_nonce_def Let_def)

lemma Block_new_hash [simp]: "b_hash (Block_new now i p txs d) = Block_calculateHash (Block_new now i p txs d)"
  by (simp add: Block_new_def Let_def Block_calculateHash_def)

lemma Block_new_fields [simp]:
  "b_index (Block_new now i p txs d) = i"
  "previousHash (header (Block_new now i p txs d)) = p"
  "merkleRoot (header (Block_new now i p txs d)) = buildRoot (map txHash txs)"
  "difficulty (header (Block_new now i p txs d)) = d"
  "nonce (header (Block_new now i p txs d)) = 0"
  "transactions (Block_new now i p txs d) = txs"
  by (simp_all add: Block_new_def Let_def)

text \<open>
  What mining a hashed block returns: the same block with the first nonce whose hash fits,
  which is a valid block.
\<close>

lemma Block_mine_first:
  assumes "b_hash b = Block_calculateHash b" and "Block_mine b = Some b'"
  shows "\<exists>k. b' = with_nonce b (nonce (header b) + of_nat k) \<and> Block_isValid b'
           \<and> (\<forall>j < k. \<not> Block_isValid (with_nonce b (nonce (header b) + of_nat j)))"
proof -
  let ?n = "nonce (header b)"
  have "Block_mine (with_nonce b ?n) = Some b'"
    using assms by (simp add: with_nonce_self)
  from block_search.first_nonce [OF this] obtain k
    where k: "block_attempt (with_nonce b (?n + of_nat k)) = Some b'"
      and least: "\<forall>j < k. block_attempt (with_nonce b (?n + of_nat j)) = None" by blast
  then show ?thesis
    using with_nonce_hash
    by (intro exI [of _ k]) (auto simp: block_attempt_def Block_isValid_def split: if_splits)
qed

lemma Block_mine_valid:
  assumes "b_hash b = Block_calculateHash b" and "Block_mine b = Some b'"
  shows "Block_isValid b'" and "previousHash (header b') = previousHash (header b)"
    and "transactions b' = transactions b" and "b_index b' = b_index b"
    and "merkleRoot (header b') = merkleRoot (header b)"
    and "difficulty (header b') = difficulty (header b)"
  using Block_mine_first [OF assms] by auto

text \<open>Mining returns exactly when one of the \<open>2 ^ 64\<close> nonces gives a valid block.\<close>

lemma Block_mine_returns:
  assumes "b_hash b = Block_calculateHash b"
  shows "(\<exists>b'. Block_mine b = Some b') \<longleftrightarrow> (\<exists>n. Block_isValid (with_nonce b n))"
proof -
  have "(\<exists>b'. Block_mine b = Some b') \<longleftrightarrow> (\<exists>m. block_attempt (with_nonce b m) \<noteq> None)"
    using block_search.returns_iff [of b "nonce (header b)"] by (simp add: with_nonce_self [OF assms])
  then show ?thesis
    by (simp add: block_attempt_def Block_isValid_def with_nonce_hash)
qed

lemma zero_prefix_short: "length h = 64 \<Longrightarrow> 64 < unat d \<Longrightarrow> \<not> zero_prefix d h"
proof
  assume "length h = 64" "64 < unat d" "zero_prefix d h"
  then have "length (take (unat d) h) = unat d" unfolding zero_prefix_def by simp
  with \<open>length h = 64\<close> \<open>64 < unat d\<close> show False by simp
qed

lemma zero_prefix_0 [simp]: "zero_prefix 0 h"
  by (simp add: zero_prefix_def)

text \<open>No digest has more than 64 digits: beyond difficulty 64 mining never returns.\<close>

lemma Block_mine_diverges:
  assumes "b_hash b = Block_calculateHash b" and "64 < unat (difficulty (header b))"
  shows "Block_mine b = None"
proof -
  have "\<not> Block_isValid (with_nonce b n)" for n
    using assms(2) zero_prefix_short [of "b_hash (with_nonce b n)"]
    by (simp add: Block_isValid_def with_nonce_hash)
  then show ?thesis using Block_mine_returns [OF assms(1)] by auto
qed

section \<open>What a block hash covers\<close>

text \<open>
  Two headers of one version whose links are digests: the same hash means the same previous
  hash and the same Merkle root, or the two header texts collide.
\<close>

lemma Block_hash_links:
  assumes "Block_calculateHash b = Block_calculateHash b'"
    and "version (header b) = version (header b')"
    and "length (previousHash (header b)) = 64" and "length (previousHash (header b')) = 64"
    and "length (merkleRoot (header b)) = 64" and "length (merkleRoot (header b')) = 64"
  shows "previousHash (header b) = previousHash (header b') \<and> merkleRoot (header b) = merkleRoot (header b')
         \<or> collides {header_preimage (header b), header_preimage (header b')}"
proof (cases "header_preimage (header b) = header_preimage (header b')")
  case True
  then show ?thesis using assms(2-) by (simp add: header_preimage_def)
next
  case False
  then show ?thesis
    using double_hash_bound assms(1) by (auto simp: Block_calculateHash_def)
qed

text \<open>
  What it leaves open: the header texts have no separators, so difficulty and nonce run together;
  and validity does not look at the transactions or the index at all.
\<close>

lemma Block_isValid_ignores_transactions:
  "Block_isValid (b\<lparr>transactions := txs, b_index := i\<rparr>) \<longleftrightarrow> Block_isValid b"
  by (simp add: Block_isValid_def Block_calculateHash_def)

section \<open>Properties\<close>

text \<open>C6: Mining a hashed block returns exactly when some nonce gives a hash that meets the
  difficulty; it then returns the block with the first such nonce counted from its own, valid and
  otherwise unchanged. A difficulty above 64 is met by no hash, and mining never returns.\<close>

theorem mining_finds_first:
  assumes "b_hash b = Block_calculateHash b"
  shows "((\<exists>b'. Block_mine b = Some b') \<longleftrightarrow> (\<exists>n. Block_isValid (with_nonce b n)))
    \<and> (\<forall>b'. Block_mine b = Some b' \<longrightarrow>
         (\<exists>k. b' = with_nonce b (nonce (header b) + of_nat k) \<and> Block_isValid b'
            \<and> (\<forall>j < k. \<not> Block_isValid (with_nonce b (nonce (header b) + of_nat j)))))
    \<and> (64 < unat (difficulty (header b)) \<longrightarrow> Block_mine b = None)"
  using Block_mine_returns [OF assms] Block_mine_first [OF assms] Block_mine_diverges [OF assms] by blast

theorem mining_finds_first_witness:
  "Block_mine (Block_new 5 1 ''p'' [] 65) = None"
  using mining_finds_first [of "Block_new 5 1 ''p'' [] 65"] by simp

end
