(* ===== verification/Unordered_Map.thy ===== *)
theory Unordered_Map
  imports Prelude
begin

text \<open>
  \<open>std::unordered_map\<close> as the list of its entries in iteration order, with at most one
  entry per key. The standard leaves the iteration order open: nothing proved about a map
  depends on it, because every theorem quantifies over all entry lists, and the folds the
  program takes over a map are shown not to depend on the order of the list. The interface of a
  key-value store is a locale, shared with the persistent store of \<open>storage/leveldb\<close>.
\<close>

section \<open>The interface of a key-value store\<close>

locale kv_store =
  fixes empty_store :: "'m"
    and lookup :: "'m \<Rightarrow> 'k \<Rightarrow> 'v option"
    and insert_entry :: "'k \<Rightarrow> 'v \<Rightarrow> 'm \<Rightarrow> 'm"
    and erase_entry :: "'k \<Rightarrow> 'm \<Rightarrow> 'm"
    and ok :: "'m \<Rightarrow> bool"
  assumes lookup_empty: "lookup empty_store = Map.empty"
    and lookup_insert: "ok m \<Longrightarrow> lookup (insert_entry k v m) = (lookup m)(k \<mapsto> v)"
    and lookup_erase: "ok m \<Longrightarrow> lookup (erase_entry k m) = (lookup m)(k := None)"
    and ok_empty: "ok empty_store"
    and ok_insert: "ok m \<Longrightarrow> ok (insert_entry k v m)"
    and ok_erase: "ok m \<Longrightarrow> ok (erase_entry k m)"
begin

lemma ok_insert_all: "ok m \<Longrightarrow> ok (fold (\<lambda>(k, v). insert_entry k v) kvs m)"
  by (induction kvs arbitrary: m) (auto intro: ok_insert)

lemma ok_erase_all: "ok m \<Longrightarrow> ok (fold erase_entry ks m)"
  by (induction ks arbitrary: m) (auto intro: ok_erase)

text \<open>A batch of insertions: the last one for a key wins.\<close>

lemma lookup_insert_all:
  "ok m \<Longrightarrow> lookup (fold (\<lambda>(k, v). insert_entry k v) kvs m) = lookup m ++ map_of (rev kvs)"
proof (induction kvs arbitrary: m)
  case Nil
  then show ?case by simp
next
  case (Cons kv kvs)
  obtain k v where "kv = (k, v)" by (cases kv)
  with Cons show ?case
    by (simp add: ok_insert lookup_insert map_add_def fun_eq_iff split: option.splits)
qed

lemma lookup_erase_all: "ok m \<Longrightarrow> lookup (fold erase_entry ks m) = lookup m |` (- set ks)"
  by (induction ks arbitrary: m)
    (auto simp: ok_erase lookup_erase restrict_map_def fun_eq_iff)

lemma insert_twice:
  "ok m \<Longrightarrow> lookup (insert_entry k w (insert_entry k v m)) = lookup (insert_entry k w m)"
  by (simp add: ok_insert lookup_insert)

lemma insert_commute:
  "ok m \<Longrightarrow> j \<noteq> k \<Longrightarrow>
     lookup (insert_entry j v (insert_entry k w m)) = lookup (insert_entry k w (insert_entry j v m))"
  by (simp add: ok_insert lookup_insert fun_upd_twist)

lemma erase_insert:
  "ok m \<Longrightarrow> lookup m k = None \<Longrightarrow> lookup (erase_entry k (insert_entry k v m)) = lookup m"
  by (auto simp: ok_insert lookup_insert lookup_erase)

end

section \<open>The map\<close>

type_synonym ('k, 'v) umap = "('k \<times> 'v) list"

definition um_empty :: "('k, 'v) umap" where
  "um_empty = []"

text \<open>\<open>m.find(k)\<close>; \<open>m[k] = v\<close>; \<open>m.erase(k)\<close>; \<open>m.count(k) > 0\<close>.\<close>

definition um_find :: "('k, 'v) umap \<Rightarrow> 'k \<Rightarrow> 'v option" where
  "um_find m k = map_of m k"

definition um_put :: "'k \<Rightarrow> 'v \<Rightarrow> ('k, 'v) umap \<Rightarrow> ('k, 'v) umap" where
  "um_put k v m = AList.update k v m"

definition um_erase :: "'k \<Rightarrow> ('k, 'v) umap \<Rightarrow> ('k, 'v) umap" where
  "um_erase k m = AList.delete k m"

definition um_contains :: "('k, 'v) umap \<Rightarrow> 'k \<Rightarrow> bool" where
  "um_contains m k \<longleftrightarrow> um_find m k \<noteq> None"

definition um_ok :: "('k, 'v) umap \<Rightarrow> bool" where
  "um_ok m \<longleftrightarrow> distinct (map fst m)"

interpretation um: kv_store um_empty um_find um_put um_erase um_ok
  by unfold_locales
    (auto simp: um_empty_def um_find_def um_put_def um_erase_def um_ok_def fun_eq_iff
      update_conv' delete_conv' distinct_update distinct_delete)

lemma um_find_put [simp]: "um_find (um_put k v m) j = (if j = k then Some v else um_find m j)"
  by (simp add: um_find_def um_put_def update_conv)

lemma um_find_erase [simp]: "um_find (um_erase k m) j = (if j = k then None else um_find m j)"
  by (simp add: um_find_def um_erase_def delete_conv)

lemma um_find_empty [simp]: "um_find um_empty k = None"
  by (simp add: um_find_def um_empty_def)

lemma um_ok_empty [simp]: "um_ok um_empty"
  by (rule um.ok_empty)

lemma um_ok_put [simp]: "um_ok m \<Longrightarrow> um_ok (um_put k v m)"
  by (rule um.ok_insert)

lemma um_ok_erase [simp]: "um_ok m \<Longrightarrow> um_ok (um_erase k m)"
  by (rule um.ok_erase)

lemma um_put_Nil [simp]: "um_put k v [] = [(k, v)]"
  by (simp add: um_put_def)

lemma um_put_Cons [simp]:
  "um_put k v (e # m) = (if fst e = k then (k, v) # m else e # um_put k v m)"
  by (cases e) (simp add: um_put_def)

lemma um_find_Nil [simp]: "um_find [] k = None"
  by (simp add: um_find_def)

lemma um_find_Cons [simp]: "um_find (e # m) k = (if fst e = k then Some (snd e) else um_find m k)"
  by (simp add: um_find_def)

lemma um_find_in: "um_find m k = Some v \<Longrightarrow> (k, v) \<in> set m"
  by (simp add: um_find_def map_of_SomeD)

lemma um_in_find: "um_ok m \<Longrightarrow> (k, v) \<in> set m \<Longrightarrow> um_find m k = Some v"
  by (simp add: um_find_def um_ok_def)

lemma um_find_None_iff: "um_find m k = None \<longleftrightarrow> k \<notin> fst ` set m"
  by (simp add: um_find_def map_of_eq_None_iff)

lemma um_put_new: "um_find m k = None \<Longrightarrow> um_put k v m = m @ [(k, v)]"
  by (induction m) (auto split: if_splits)

lemma length_um_put: "length (um_put k v m) = (if um_contains m k then length m else Suc (length m))"
  by (induction m) (auto simp: um_contains_def)

lemma set_um_put: "um_ok m \<Longrightarrow> set (um_put k v m) = insert (k, v) {e \<in> set m. fst e \<noteq> k}"
  by (induction m) (auto simp: um_ok_def image_iff)

lemma length_um_erase_le: "length (um_erase k m) \<le> length m"
  by (simp add: um_erase_def length_delete_le)

lemma set_um_erase: "set (um_erase k m) = {e \<in> set m. fst e \<noteq> k}"
  by (induction m) (auto simp: um_erase_def)

section \<open>Folds over the entries\<close>

text \<open>\<open>for (const auto& [k, v] : m) total += f(v)\<close>.\<close>

definition um_sum :: "('v \<Rightarrow> 'a::comm_monoid_add) \<Rightarrow> ('k, 'v) umap \<Rightarrow> 'a" where
  "um_sum f m = sum_list (map (\<lambda>e. f (snd e)) m)"

lemma um_sum_Nil [simp]: "um_sum f [] = 0"
  by (simp add: um_sum_def)

lemma um_sum_Cons [simp]: "um_sum f (e # m) = f (snd e) + um_sum f m"
  by (simp add: um_sum_def)

lemma um_sum_order: "mset m = mset m' \<Longrightarrow> um_sum f m = um_sum f m'"
proof -
  assume "mset m = mset m'"
  then have "mset (map (\<lambda>e. f (snd e)) m) = mset (map (\<lambda>e. f (snd e)) m')" by simp
  then show ?thesis unfolding um_sum_def by (metis sum_mset_sum_list)
qed

lemma um_find_order: "um_ok m \<Longrightarrow> mset m = mset m' \<Longrightarrow> um_find m k = um_find m' k"
  unfolding um_find_def um_ok_def
  by (metis map_of_eqI mset_eq_setD mset_map map_of_inject_set distinct_map mset_eq_imp_distinct_iff)

lemma um_sum_put_new: "um_find m k = None \<Longrightarrow> um_sum f (um_put k v m) = um_sum f m + f v"
  by (induction m) (auto simp: add_ac split: if_splits)

lemma um_sum_put_old: "um_find m k = Some w \<Longrightarrow> um_sum f (um_put k v m) + f w = um_sum f m + f v"
  by (induction m) (auto simp: add_ac split: if_splits)

lemma um_sum_put_same: "um_find m k = Some w \<Longrightarrow> f v = f w \<Longrightarrow> um_sum f (um_put k v m) = um_sum f m"
  by (induction m) (auto split: if_splits)

lemma um_sum_ge: "um_find m k = Some w \<Longrightarrow> f w \<le> um_sum f (m :: ('k, 'v) umap)"
  for f :: "'v \<Rightarrow> nat"
  by (induction m) (auto split: if_splits)

end
