(* ===== verification/UTXO.thy ===== *)
theory UTXO
  imports Transaction Unordered_Map
begin

text \<open>
  \<open>src/src/core/utxo.{h,cpp}\<close>: the set of unspent transaction outputs. The map is keyed
  by the text \<open>hash:index\<close>, and a spent output stays in it with its flag set. The specification is
  a partial map from outpoints (hash and index) to outputs; \<open>ledger\<close> states the contract of such a
  set, which the blockchain relies on.
\<close>

section \<open>Data and operations\<close>

record UTXO =
  utxo_txHash :: string
  utxo_outputIndex :: u32
  utxo_address :: string
  utxo_amount :: u64
  utxo_spent :: bool

type_synonym UTXOSet = "(string, UTXO) umap"

definition outpoint_key :: "string \<Rightarrow> u32 \<Rightarrow> string" where
  "outpoint_key h i = h @ '':'' @ nat_str (unat i)"

definition UTXO_key :: "UTXO \<Rightarrow> string" where
  "UTXO_key u = outpoint_key (utxo_txHash u) (utxo_outputIndex u)"

definition addUTXO :: "UTXO \<Rightarrow> UTXOSet \<Rightarrow> UTXOSet" where
  "addUTXO u utxos = um_put (UTXO_key u) u utxos"

definition spendUTXO :: "string \<Rightarrow> u32 \<Rightarrow> UTXOSet \<Rightarrow> bool \<times> UTXOSet" where
  "spendUTXO h i utxos =
     (case um_find utxos (outpoint_key h i) of
        None \<Rightarrow> (False, utxos)
      | Some u \<Rightarrow>
          if utxo_spent u then (False, utxos)
          else (True, um_put (outpoint_key h i) (u\<lparr>utxo_spent := True\<rparr>) utxos))"

definition getUTXOs :: "string \<Rightarrow> UTXOSet \<Rightarrow> UTXO list" where
  "getUTXOs addr utxos = filter (\<lambda>u. utxo_address u = addr \<and> \<not> utxo_spent u) (map snd utxos)"

definition UTXOSet_getBalance :: "string \<Rightarrow> UTXOSet \<Rightarrow> u64" where
  "UTXOSet_getBalance addr utxos =
     um_sum (\<lambda>u. if utxo_address u = addr \<and> \<not> utxo_spent u then utxo_amount u else 0) utxos"

definition isUnspent :: "string \<Rightarrow> u32 \<Rightarrow> UTXOSet \<Rightarrow> bool" where
  "isUnspent h i utxos =
     (case um_find utxos (outpoint_key h i) of None \<Rightarrow> False | Some u \<Rightarrow> \<not> utxo_spent u)"

definition getUTXO :: "string \<Rightarrow> u32 \<Rightarrow> UTXOSet \<Rightarrow> UTXO option" where
  "getUTXO h i utxos = um_find utxos (outpoint_key h i)"

definition UTXOSet_size :: "UTXOSet \<Rightarrow> nat" where
  "UTXOSet_size utxos = length utxos"

section \<open>Keys\<close>

text \<open>Two outpoints with the same key are the same, whatever characters the hash has.\<close>

lemma outpoint_key_inject [simp]: "outpoint_key h i = outpoint_key h' i' \<longleftrightarrow> h = h' \<and> i = i'"
proof -
  have sep: "CHR '':'' \<notin> set (nat_str (unat i))" "CHR '':'' \<notin> set (nat_str (unat i'))"
    by simp_all
  show ?thesis
    unfolding outpoint_key_def using append_eq_append_sep_last [OF sep, of h h'] by (auto simp: unat_inject)
qed

text \<open>Well-formedness: distinct keys, and every entry under its own key.\<close>

definition UTXOSet_ok :: "UTXOSet \<Rightarrow> bool" where
  "UTXOSet_ok utxos \<longleftrightarrow> um_ok utxos \<and> (\<forall>k u. um_find utxos k = Some u \<longrightarrow> k = UTXO_key u)"

lemma UTXOSet_ok_empty [simp]: "UTXOSet_ok um_empty"
  by (simp add: UTXOSet_ok_def)

lemma UTXOSet_ok_add [simp]: "UTXOSet_ok s \<Longrightarrow> UTXOSet_ok (addUTXO u s)"
  by (simp add: UTXOSet_ok_def addUTXO_def)

lemma UTXO_key_spent [simp]: "UTXO_key (u\<lparr>utxo_spent := b\<rparr>) = UTXO_key u"
  by (simp add: UTXO_key_def)

lemma UTXOSet_ok_spend [simp]: "UTXOSet_ok s \<Longrightarrow> UTXOSet_ok (snd (spendUTXO h i s))"
  by (auto simp: UTXOSet_ok_def spendUTXO_def split: option.splits)

section \<open>The contract of a set of unspent outputs\<close>

text \<open>
  \<open>unspent_at s p\<close> is the output available at outpoint \<open>p\<close>: the abstract state is that
  partial map. Adding makes an output available, spending removes it and reports whether it was.
\<close>

locale ledger =
  fixes outpoint :: "'u \<Rightarrow> 'p"
    and unspent_at :: "'s \<Rightarrow> 'p \<Rightarrow> 'u option"
    and add_output :: "'u \<Rightarrow> 's \<Rightarrow> 's"
    and spend_output :: "'p \<Rightarrow> 's \<Rightarrow> bool \<times> 's"
    and ledger_ok :: "'s \<Rightarrow> bool"
    and fresh_output :: "'u \<Rightarrow> bool"
  assumes ok_add: "ledger_ok s \<Longrightarrow> ledger_ok (add_output u s)"
    and ok_spend: "ledger_ok s \<Longrightarrow> ledger_ok (snd (spend_output p s))"
    and unspent_add: "ledger_ok s \<Longrightarrow> fresh_output u \<Longrightarrow>
          unspent_at (add_output u s) = (unspent_at s)(outpoint u \<mapsto> u)"
    and unspent_spend: "ledger_ok s \<Longrightarrow>
          unspent_at (snd (spend_output p s)) = (unspent_at s)(p := None)"
    and spend_reports: "ledger_ok s \<Longrightarrow> fst (spend_output p s) \<longleftrightarrow> unspent_at s p \<noteq> None"
begin

lemma spend_twice: "ledger_ok s \<Longrightarrow> \<not> fst (spend_output p (snd (spend_output p s)))"
  by (simp add: ok_spend spend_reports unspent_spend)

lemma ok_spend_all: "ledger_ok s \<Longrightarrow> ledger_ok (fold (\<lambda>p s. snd (spend_output p s)) ps s)"
  by (induction ps arbitrary: s) (auto intro: ok_spend)

lemma ok_add_all: "ledger_ok s \<Longrightarrow> ledger_ok (fold add_output us s)"
  by (induction us arbitrary: s) (auto intro: ok_add)

lemma unspent_spend_all:
  "ledger_ok s \<Longrightarrow> unspent_at (fold (\<lambda>p s. snd (spend_output p s)) ps s) = unspent_at s |` (- set ps)"
  by (induction ps arbitrary: s) (auto simp: ok_spend unspent_spend restrict_map_def fun_eq_iff)

lemma unspent_add_all:
  "ledger_ok s \<Longrightarrow> \<forall>u \<in> set us. fresh_output u \<Longrightarrow>
     unspent_at (fold add_output us s) = unspent_at s ++ map_of (rev (map (\<lambda>u. (outpoint u, u)) us))"
  by (induction us arbitrary: s) (auto simp: ok_add unspent_add map_add_def fun_eq_iff split: option.splits)

text \<open>An output once spent stays unavailable through any later spending.\<close>

lemma no_double_spend:
  assumes "ledger_ok s" and "p \<in> set ps"
  shows "\<not> fst (spend_output p (fold (\<lambda>p s. snd (spend_output p s)) ps s))"
  using assms by (simp add: ok_spend_all spend_reports unspent_spend_all)

end

definition unspent :: "UTXOSet \<Rightarrow> string \<times> u32 \<Rightarrow> UTXO option" where
  "unspent s p =
     (case um_find s (outpoint_key (fst p) (snd p)) of
        Some u \<Rightarrow> if utxo_spent u then None else Some u
      | None \<Rightarrow> None)"

definition UTXO_outpoint :: "UTXO \<Rightarrow> string \<times> u32" where
  "UTXO_outpoint u = (utxo_txHash u, utxo_outputIndex u)"

definition spend_at :: "string \<times> u32 \<Rightarrow> UTXOSet \<Rightarrow> bool \<times> UTXOSet" where
  "spend_at p s = spendUTXO (fst p) (snd p) s"

lemma unspent_addUTXO:
  "\<not> utxo_spent u \<Longrightarrow> unspent (addUTXO u s) = (unspent s)(UTXO_outpoint u \<mapsto> u)"
  by (rule ext) (auto simp: unspent_def addUTXO_def UTXO_key_def UTXO_outpoint_def)

lemma unspent_spendUTXO: "unspent (snd (spendUTXO h i s)) = (unspent s)((h, i) := None)"
  by (rule ext) (auto simp: unspent_def spendUTXO_def split: option.splits)

lemma fst_spendUTXO: "fst (spendUTXO h i s) \<longleftrightarrow> unspent s (h, i) \<noteq> None"
  by (auto simp: unspent_def spendUTXO_def split: option.splits)

interpretation utxo: ledger UTXO_outpoint unspent addUTXO spend_at UTXOSet_ok "\<lambda>u. \<not> utxo_spent u"
  by unfold_locales
    (auto simp: spend_at_def unspent_addUTXO unspent_spendUTXO fst_spendUTXO)

lemma isUnspent_iff: "isUnspent h i s \<longleftrightarrow> unspent s (h, i) \<noteq> None"
  by (auto simp: isUnspent_def unspent_def split: option.splits)

section \<open>Value\<close>

text \<open>The value available in the set, and to one address, without wrap-around.\<close>

definition unspent_value :: "UTXOSet \<Rightarrow> nat" where
  "unspent_value s = um_sum (\<lambda>u. if utxo_spent u then 0 else unat (utxo_amount u)) s"

definition address_value :: "string \<Rightarrow> UTXOSet \<Rightarrow> nat" where
  "address_value addr s =
     um_sum (\<lambda>u. if utxo_address u = addr \<and> \<not> utxo_spent u then unat (utxo_amount u) else 0) s"

lemma unspent_value_add:
  assumes "um_find s (UTXO_key u) = None"
  shows "unspent_value (addUTXO u s) = unspent_value s + (if utxo_spent u then 0 else unat (utxo_amount u))"
  using assms by (simp add: unspent_value_def addUTXO_def um_sum_put_new)

lemma unspent_value_spend:
  "unspent_value (snd (spendUTXO h i s)) +
     (case unspent s (h, i) of None \<Rightarrow> 0 | Some u \<Rightarrow> unat (utxo_amount u)) = unspent_value s"
proof (cases "um_find s (outpoint_key h i)")
  case None
  then show ?thesis by (simp add: spendUTXO_def unspent_def)
next
  case (Some u)
  show ?thesis
  proof (cases "utxo_spent u")
    case True
    with Some show ?thesis by (simp add: spendUTXO_def unspent_def)
  next
    case False
    from um_sum_put_old [OF Some, of "\<lambda>u. if utxo_spent u then 0 else unat (utxo_amount u)" "u\<lparr>utxo_spent := True\<rparr>"]
    show ?thesis
      using Some False by (simp add: spendUTXO_def unspent_def unspent_value_def)
  qed
qed

lemma unspent_value_spend_le: "unspent_value (snd (spendUTXO h i s)) \<le> unspent_value s"
  using unspent_value_spend [of h i s] by simp

lemma address_value_le: "address_value addr s \<le> unspent_value s"
  unfolding address_value_def unspent_value_def um_sum_def by (rule sum_list_mono) simp

text \<open>The reported balance is the exact sum as long as the sum fits 64 bits, and the sum modulo
  \<open>2 ^ 64\<close> in general.\<close>

lemma getBalance_mod: "unat (UTXOSet_getBalance addr s) = address_value addr s mod 2 ^ 64"
proof (induction s)
  case Nil
  then show ?case by (simp add: UTXOSet_getBalance_def address_value_def)
next
  case (Cons e s)
  then show ?case
    by (simp add: UTXOSet_getBalance_def address_value_def unat_word_ariths mod_add_right_eq)
qed

lemma getBalance_exact:
  "unspent_value s < 2 ^ 64 \<Longrightarrow> unat (UTXOSet_getBalance addr s) = address_value addr s"
  using address_value_le [of addr s] by (simp add: getBalance_mod)

lemma getUTXOs_sum:
  "address_value addr s = sum_list (map (\<lambda>u. unat (utxo_amount u)) (getUTXOs addr s))"
  by (induction s) (auto simp: address_value_def getUTXOs_def)

lemma getBalance_order:
  "mset s = mset s' \<Longrightarrow> UTXOSet_getBalance addr s = UTXOSet_getBalance addr s'"
  unfolding UTXOSet_getBalance_def by (rule um_sum_order)

section \<open>Properties\<close>

text \<open>C7: An output is spent at most once: spending succeeds exactly when the output is unspent,
  removes that output and no other, lowers the value of the set by its amount, and is refused ever
  after, whatever outputs are spent in between.\<close>

theorem output_spent_once:
  assumes "UTXOSet_ok s"
  shows "fst (spendUTXO h i s) = isUnspent h i s
    \<and> unspent (snd (spendUTXO h i s)) = (unspent s)((h, i) := None)
    \<and> unspent_value (snd (spendUTXO h i s)) +
        (case unspent s (h, i) of None \<Rightarrow> 0 | Some u \<Rightarrow> unat (utxo_amount u)) = unspent_value s
    \<and> fst (spendUTXO h i (fold (\<lambda>p s. snd (spendUTXO (fst p) (snd p) s)) ps (snd (spendUTXO h i s)))) = False"
  using utxo.no_double_spend [OF assms, of "(h, i)" "(h, i) # ps"] unspent_value_spend [of h i s]
  by (auto simp: fst_spendUTXO isUnspent_iff unspent_spendUTXO spend_at_def)

theorem output_spent_once_witness:
  "\<exists>s. fst (spendUTXO ''t'' 0 s) \<and> fst (spendUTXO ''t'' 0 (snd (spendUTXO ''t'' 0 s))) = False"
proof -
  define s where "s = addUTXO \<lparr>utxo_txHash = ''t'', utxo_outputIndex = 0, utxo_address = ''a'',
    utxo_amount = 5, utxo_spent = False\<rparr> um_empty"
  have "UTXOSet_ok s" by (simp add: s_def)
  moreover have "isUnspent ''t'' 0 s"
    by (simp add: s_def isUnspent_iff unspent_addUTXO UTXO_outpoint_def)
  ultimately show ?thesis
    using output_spent_once [of s "''t''" 0 "[]"] by (intro exI [of _ s]) simp
qed

text \<open>The balance of an address is the sum of the amounts of its unspent outputs, taken modulo
  \<open>2 ^ 64\<close>, and does not depend on the order in which the outputs are stored.\<close>

theorem balance_is_sum:
  "unat (UTXOSet_getBalance addr s) =
     sum_list (map (\<lambda>u. unat (utxo_amount u)) (getUTXOs addr s)) mod 2 ^ 64
   \<and> UTXOSet_getBalance addr (rev s) = UTXOSet_getBalance addr s"
  using getBalance_order [of "rev s" s addr] by (simp add: getBalance_mod getUTXOs_sum)

end
