(* ===== verification/Leveldb.thy ===== *)
theory Leveldb
  imports Unordered_Map Cxx_Strings
begin

text \<open>
  \<open>src/src/storage/leveldb.{h,cpp}\<close>: the key-value store of the chain with its in-memory
  backend, which is what the code builds without \<open>HAS_LEVELDB\<close>; the LevelDB branches call a
  library outside the repository. A call on a closed store changes nothing and reports failure.
  An open store is a \<open>kv_store\<close>, and the key builders give every table its own keys.
\<close>

section \<open>State and operations\<close>

record DBBatch =
  puts :: "(string \<times> string) list"
  dels :: "string list"

record BlockchainDB =
  opened :: bool
  dbPath :: string
  memdb :: "(string, string) umap"

definition DBBatch_new :: DBBatch where
  "DBBatch_new = \<lparr>puts = [], dels = []\<rparr>"

definition batch_put :: "string \<Rightarrow> string \<Rightarrow> DBBatch \<Rightarrow> DBBatch" where
  "batch_put k v bt = bt\<lparr>puts := puts bt @ [(k, v)]\<rparr>"

definition batch_del :: "string \<Rightarrow> DBBatch \<Rightarrow> DBBatch" where
  "batch_del k bt = bt\<lparr>dels := dels bt @ [k]\<rparr>"

definition db_new :: BlockchainDB where
  "db_new = \<lparr>opened = False, dbPath = [], memdb = um_empty\<rparr>"

definition db_open :: "string \<Rightarrow> BlockchainDB \<Rightarrow> bool \<times> BlockchainDB" where
  "db_open path db = (True, db\<lparr>dbPath := path, opened := True\<rparr>)"

definition db_close :: "BlockchainDB \<Rightarrow> BlockchainDB" where
  "db_close db = (if \<not> opened db then db else db\<lparr>opened := False\<rparr>)"

definition BlockchainDB_destroy :: "BlockchainDB \<Rightarrow> BlockchainDB" where
  "BlockchainDB_destroy db = db_close db"

definition db_put :: "string \<Rightarrow> string \<Rightarrow> BlockchainDB \<Rightarrow> bool \<times> BlockchainDB" where
  "db_put k v db =
     (if \<not> opened db then (False, db) else (True, db\<lparr>memdb := um_put k v (memdb db)\<rparr>))"

definition db_get :: "string \<Rightarrow> BlockchainDB \<Rightarrow> string option" where
  "db_get k db = (if \<not> opened db then None else um_find (memdb db) k)"

definition db_del :: "string \<Rightarrow> BlockchainDB \<Rightarrow> bool \<times> BlockchainDB" where
  "db_del k db =
     (if \<not> opened db then (False, db)
      else (um_contains (memdb db) k, db\<lparr>memdb := um_erase k (memdb db)\<rparr>))"

definition db_exists :: "string \<Rightarrow> BlockchainDB \<Rightarrow> bool" where
  "db_exists k db \<longleftrightarrow> db_get k db \<noteq> None"

text \<open>All puts in order, then all deletions: a key both put and deleted by a batch is gone.\<close>

definition writeBatch :: "DBBatch \<Rightarrow> BlockchainDB \<Rightarrow> bool \<times> BlockchainDB" where
  "writeBatch bt db =
     (if \<not> opened db then (False, db)
      else let m = fold (\<lambda>(k, v). um_put k v) (puts bt) (memdb db)
           in (True, db\<lparr>memdb := fold um_erase (dels bt) m\<rparr>))"

definition scan :: "string \<Rightarrow> BlockchainDB \<Rightarrow> (string \<times> string) list" where
  "scan prefix db = filter (\<lambda>e. take (length prefix) (fst e) = prefix) (memdb db)"

definition db_keys :: "string \<Rightarrow> BlockchainDB \<Rightarrow> string list" where
  "db_keys prefix db = map fst (scan prefix db)"

definition db_size :: "BlockchainDB \<Rightarrow> nat" where
  "db_size db = length (memdb db)"

section \<open>The tables of the chain\<close>

definition utxoKey :: "string \<Rightarrow> u32 \<Rightarrow> string" where
  "utxoKey tx idx = ''u:'' @ tx @ '':'' @ nat_str (unat idx)"

definition heightKey :: "u32 \<Rightarrow> string" where
  "heightKey h = ''h:'' @ setw_fill 10 (CHR ''0'') (nat_str (unat h))"

definition putBlock :: "string \<Rightarrow> string \<Rightarrow> BlockchainDB \<Rightarrow> bool \<times> BlockchainDB" where
  "putBlock h d db = db_put (''b:'' @ h) d db"

definition db_getBlock :: "string \<Rightarrow> BlockchainDB \<Rightarrow> string option" where
  "db_getBlock h db = db_get (''b:'' @ h) db"

definition putTx :: "string \<Rightarrow> string \<Rightarrow> BlockchainDB \<Rightarrow> bool \<times> BlockchainDB" where
  "putTx h d db = db_put (''t:'' @ h) d db"

definition getTx :: "string \<Rightarrow> BlockchainDB \<Rightarrow> string option" where
  "getTx h db = db_get (''t:'' @ h) db"

definition putUTXO :: "string \<Rightarrow> u32 \<Rightarrow> string \<Rightarrow> BlockchainDB \<Rightarrow> bool \<times> BlockchainDB" where
  "putUTXO tx idx d db = db_put (utxoKey tx idx) d db"

definition db_getUTXO :: "string \<Rightarrow> u32 \<Rightarrow> BlockchainDB \<Rightarrow> string option" where
  "db_getUTXO tx idx db = db_get (utxoKey tx idx) db"

definition delUTXO :: "string \<Rightarrow> u32 \<Rightarrow> BlockchainDB \<Rightarrow> bool \<times> BlockchainDB" where
  "delUTXO tx idx db = db_del (utxoKey tx idx) db"

definition putHeightIndex :: "u32 \<Rightarrow> string \<Rightarrow> BlockchainDB \<Rightarrow> bool \<times> BlockchainDB" where
  "putHeightIndex h hash db = db_put (heightKey h) hash db"

definition getHashAtHeight :: "u32 \<Rightarrow> BlockchainDB \<Rightarrow> string option" where
  "getHashAtHeight h db = db_get (heightKey h) db"

definition setMeta :: "string \<Rightarrow> string \<Rightarrow> BlockchainDB \<Rightarrow> bool \<times> BlockchainDB" where
  "setMeta k v db = db_put (''meta:'' @ k) v db"

definition getMeta :: "string \<Rightarrow> BlockchainDB \<Rightarrow> string option" where
  "getMeta k db = db_get (''meta:'' @ k) db"

section \<open>The contract\<close>

definition db_ok :: "BlockchainDB \<Rightarrow> bool" where
  "db_ok db \<longleftrightarrow> opened db \<and> um_ok (memdb db)"

definition db_lookup :: "BlockchainDB \<Rightarrow> string \<Rightarrow> string option" where
  "db_lookup db k = db_get k db"

lemma fold_um_put_ok: "um_ok m \<Longrightarrow> um_ok (fold (\<lambda>(k, v). um_put k v) kvs m)"
  by (rule um.ok_insert_all)

lemma fold_um_erase_ok: "um_ok m \<Longrightarrow> um_ok (fold um_erase ks m)"
  by (rule um.ok_erase_all)

interpretation db: kv_store "snd (db_open [] db_new)" db_lookup "\<lambda>k v db. snd (db_put k v db)"
  "\<lambda>k db. snd (db_del k db)" db_ok
  by unfold_locales
    (auto simp: db_lookup_def db_open_def db_new_def db_put_def db_get_def db_del_def db_ok_def fun_eq_iff)

text \<open>A closed store answers nothing and takes nothing.\<close>

lemma closed_store:
  assumes "\<not> opened db"
  shows "db_put k v db = (False, db)" and "db_get k db = None" and "db_del k db = (False, db)"
    and "writeBatch bt db = (False, db)"
  using assms by (simp_all add: db_put_def db_get_def db_del_def writeBatch_def)

text \<open>A batch has the effect of its puts one by one and then of its deletions.\<close>

lemma writeBatch_steps:
  assumes "opened db"
  shows "snd (writeBatch bt db) =
           fold (\<lambda>k d. snd (db_del k d)) (dels bt) (fold (\<lambda>(k, v) d. snd (db_put k v d)) (puts bt) db)"
proof -
  have "fold (\<lambda>(k, v) d. snd (db_put k v d)) kvs d = d\<lparr>memdb := fold (\<lambda>(k, v). um_put k v) kvs (memdb d)\<rparr>"
    if "opened d" for kvs d
    using that by (induction kvs arbitrary: d) (auto simp: db_put_def)
  moreover have "fold (\<lambda>k d. snd (db_del k d)) ks d = d\<lparr>memdb := fold um_erase ks (memdb d)\<rparr>"
    if "opened d" for ks d
    using that by (induction ks arbitrary: d) (auto simp: db_del_def)
  ultimately show ?thesis using assms by (simp add: writeBatch_def Let_def)
qed

lemma writeBatch_ok: "db_ok db \<Longrightarrow> db_ok (snd (writeBatch bt db))"
  by (simp add: db_ok_def writeBatch_def Let_def fold_um_put_ok fold_um_erase_ok)

lemma writeBatch_lookup:
  assumes "db_ok db"
  shows "db_lookup (snd (writeBatch bt db)) = (db_lookup db ++ map_of (rev (puts bt))) |` (- set (dels bt))"
proof -
  have "opened db" using assms by (simp add: db_ok_def)
  moreover have "db_ok (fold (\<lambda>(k, v) d. snd (db_put k v d)) (puts bt) db)"
    using db.ok_insert_all [OF assms] .
  ultimately show ?thesis
    using db.lookup_insert_all [OF assms] db.lookup_erase_all
    by (simp add: writeBatch_steps)
qed

text \<open>Scanning finds exactly the entries whose key has the prefix.\<close>

lemma scan_lookup:
  assumes "db_ok db"
  shows "(k, v) \<in> set (scan prefix db) \<longleftrightarrow> starts_with prefix k \<and> db_lookup db k = Some v"
  using assms um_in_find [of "memdb db" k v] um_find_in [of "memdb db" k v]
  by (auto simp: scan_def db_lookup_def db_get_def db_ok_def starts_with_def)

section \<open>Keys\<close>

lemma utxoKey_inject [simp]: "utxoKey h i = utxoKey h' i' \<longleftrightarrow> h = h' \<and> i = i'"
proof -
  have sep: "CHR '':'' \<notin> set (nat_str (unat i))" "CHR '':'' \<notin> set (nat_str (unat i'))"
    by simp_all
  show ?thesis
    unfolding utxoKey_def using append_eq_append_sep_last [OF sep, of h h'] by (auto simp: unat_inject)
qed

text \<open>The tables do not overlap.\<close>

lemma tables_disjoint [simp]:
  "utxoKey h i \<noteq> ''meta:'' @ k" "utxoKey h i \<noteq> ''b:'' @ b" "utxoKey h i \<noteq> ''t:'' @ t"
  "utxoKey h i \<noteq> ''h:'' @ n" "''meta:'' @ k \<noteq> utxoKey h i" "''b:'' @ b \<noteq> utxoKey h i"
  "''t:'' @ t \<noteq> utxoKey h i" "''h:'' @ n \<noteq> utxoKey h i"
  by (simp_all add: utxoKey_def)

lemma length_nat_str_u32: "length (nat_str (unat (x :: u32))) \<le> 10"
  unfolding nat_str_def using unat_u32_less [of x] by (intro length_num_str_le) simp_all

lemma heightKey_inject [simp]: "heightKey h = heightKey h' \<longleftrightarrow> h = h'"
proof
  assume eq: "heightKey h = heightKey h'"
  have val: "digits_val 10 (setw_fill 10 (CHR ''0'') (nat_str n)) = n" for n
    by (simp add: setw_fill_def nat_str_def digits_val_num_str)
  from eq have "setw_fill 10 (CHR ''0'') (nat_str (unat h)) = setw_fill 10 (CHR ''0'') (nat_str (unat h'))"
    by (simp add: heightKey_def)
  then have "unat h = unat h'" using val by metis
  then show "h = h'" by (simp add: unat_inject)
qed simp

lemma length_heightKey: "length (heightKey h) = 12"
  using length_nat_str_u32 [of h] by (simp add: heightKey_def setw_fill_def)

text \<open>
  The chain writes its height index under \<open>"h:" + std::to_string(h)\<close>, which is not the key
  \<open>getHashAtHeight\<close> reads as long as the height has fewer than ten digits.
\<close>

lemma heightKey_unpadded:
  assumes "unat h < 1000000000"
  shows "heightKey h \<noteq> ''h:'' @ nat_str (unat h)"
proof
  assume "heightKey h = ''h:'' @ nat_str (unat h)"
  then have "length (nat_str (unat h)) = 10" using length_heightKey [of h] by simp
  moreover have "length (nat_str (unat h)) \<le> 9"
    unfolding nat_str_def using assms by (intro length_num_str_le) simp_all
  ultimately show False by simp
qed

section \<open>Properties\<close>

text \<open>A batch is applied as a whole: afterwards a key it deletes is absent, even if the same batch
  writes it, any other key it writes has the last value written, and all other keys are as before.
  On a closed store a batch, a write and a deletion fail and change nothing.\<close>

theorem batch_effect:
  assumes "db_ok db"
  shows "db_get k (snd (writeBatch bt db)) =
           (if k \<in> set (dels bt) then None
            else case map_of (rev (puts bt)) k of Some v \<Rightarrow> Some v | None \<Rightarrow> db_get k db)
       \<and> writeBatch bt (db_close db) = (False, db_close db)
       \<and> db_put k v (db_close db) = (False, db_close db) \<and> db_del k (db_close db) = (False, db_close db)"
proof -
  have "\<not> opened (db_close db)" by (simp add: db_close_def)
  note closed_store [OF this]
  moreover have "db_get k (snd (writeBatch bt db)) = db_lookup (snd (writeBatch bt db)) k"
    using writeBatch_ok [OF assms] by (simp add: db_get_def db_ok_def db_lookup_def)
  moreover have "db_get k db = db_lookup db k"
    using assms by (simp add: db_get_def db_ok_def db_lookup_def)
  ultimately show ?thesis
    by (simp add: writeBatch_lookup [OF assms] restrict_map_def map_add_def split: option.split)
qed

theorem batch_effect_witness:
  "db_get ''k'' (snd (writeBatch (batch_del ''j'' (batch_put ''k'' ''w'' (batch_put ''k'' ''v'' DBBatch_new)))
     (snd (db_open ''p'' db_new)))) = Some ''w''"
  using batch_effect [of "snd (db_open ''p'' db_new)" "''k''"
      "batch_del ''j'' (batch_put ''k'' ''w'' (batch_put ''k'' ''v'' DBBatch_new))"]
  by (simp add: db_ok_def db_open_def db_new_def batch_put_def batch_del_def DBBatch_new_def)

end
