(* ===== verification/LRU_Cache.thy ===== *)
theory LRU_Cache
  imports Unordered_Map
begin

text \<open>
  \<open>src/src/storage/cache.{h,cpp}\<close>: the least-recently-used cache. The code keeps a linked
  list of keys and, in the map, each key's value and an iterator into the list; here a list node
  carries an identity (\<open>nat\<close>) and the iterator is that identity, so that erasing through an
  iterator is erasing the node it names. The specification is one list of key-value pairs, most
  recent first.
\<close>

section \<open>State and operations\<close>

record LRUCache =
  cap :: nat
  order :: "(nat \<times> string) list"
  cache :: "(string, string \<times> nat) umap"
  next_node :: nat

definition LRU_new :: "nat \<Rightarrow> LRUCache" where
  "LRU_new capacity = \<lparr>cap = capacity, order = [], cache = um_empty, next_node = 0\<rparr>"

text \<open>\<open>order.erase(it)\<close>; \<open>order.push_front(k)\<close>, whose node is the new front.\<close>

definition erase_node :: "nat \<Rightarrow> LRUCache \<Rightarrow> LRUCache" where
  "erase_node i c = c\<lparr>order := filter (\<lambda>e. fst e \<noteq> i) (order c)\<rparr>"

definition push_front :: "string \<Rightarrow> LRUCache \<Rightarrow> LRUCache" where
  "push_front k c = c\<lparr>order := (next_node c, k) # order c, next_node := next_node c + 1\<rparr>"

definition LRU_put :: "string \<Rightarrow> string \<Rightarrow> LRUCache \<Rightarrow> LRUCache" where
  "LRU_put k v c =
     (let c1 = (case um_find (cache c) k of
                  None \<Rightarrow> c
                | Some (_, it) \<Rightarrow> (erase_node it c)\<lparr>cache := um_erase k (cache c)\<rparr>);
          c2 = push_front k c1;
          c3 = c2\<lparr>cache := um_put k (v, fst (hd (order c2))) (cache c2)\<rparr>
      in if length (cache c3) > cap c3
         then c3\<lparr>cache := um_erase (snd (last (order c3))) (cache c3), order := butlast (order c3)\<rparr>
         else c3)"

definition LRU_get :: "string \<Rightarrow> LRUCache \<Rightarrow> string option \<times> LRUCache" where
  "LRU_get k c =
     (case um_find (cache c) k of
        None \<Rightarrow> (None, c)
      | Some (v, it) \<Rightarrow>
          let c1 = push_front k (erase_node it c)
          in (Some v, c1\<lparr>cache := um_put k (v, fst (hd (order c1))) (cache c1)\<rparr>))"

definition LRU_contains :: "string \<Rightarrow> LRUCache \<Rightarrow> bool" where
  "LRU_contains k c \<longleftrightarrow> um_contains (cache c) k"

definition LRU_size :: "LRUCache \<Rightarrow> nat" where
  "LRU_size c = length (cache c)"

section \<open>The invariant\<close>

text \<open>Every key is in the list once, under the node its map entry points to.\<close>

definition lru_ok :: "LRUCache \<Rightarrow> bool" where
  "lru_ok c \<longleftrightarrow> um_ok (cache c) \<and> distinct (map snd (order c)) \<and> distinct (map fst (order c))
     \<and> (\<forall>e \<in> set (order c). fst e < next_node c)
     \<and> (\<forall>k i. (i, k) \<in> set (order c) \<longleftrightarrow> (\<exists>v. um_find (cache c) k = Some (v, i)))
     \<and> length (cache c) = length (order c)"

definition lru_abs :: "LRUCache \<Rightarrow> (string \<times> string) list" where
  "lru_abs c = map (\<lambda>e. (snd e, fst (the (um_find (cache c) (snd e))))) (order c)"

definition spec_put :: "nat \<Rightarrow> string \<Rightarrow> string \<Rightarrow> (string \<times> string) list \<Rightarrow> (string \<times> string) list" where
  "spec_put n k v xs = take n ((k, v) # filter (\<lambda>e. fst e \<noteq> k) xs)"

definition spec_get :: "string \<Rightarrow> (string \<times> string) list \<Rightarrow> string option \<times> (string \<times> string) list" where
  "spec_get k xs =
     (case map_of xs k of
        None \<Rightarrow> (None, xs)
      | Some v \<Rightarrow> (Some v, (k, v) # filter (\<lambda>e. fst e \<noteq> k) xs))"

lemma lru_ok_new: "lru_ok (LRU_new n)"
  by (simp add: lru_ok_def LRU_new_def um_empty_def um_ok_def)

lemma length_um_erase: "um_ok m \<Longrightarrow> um_contains m k \<Longrightarrow> length (um_erase k m) = length m - 1"
proof (induction m)
  case (Cons e m)
  show ?case
  proof (cases "fst e = k")
    case True
    with Cons.prems have "k \<notin> fst ` set m" by (auto simp: um_ok_def)
    then have "um_erase k m = m" by (simp add: um_erase_def delete_id)
    with True show ?thesis by (cases e) (simp add: um_erase_def)
  next
    case False
    with Cons have "length (um_erase k m) = length m - 1" "m \<noteq> []"
      by (auto simp: um_ok_def um_contains_def)
    with False show ?thesis by (cases e) (simp add: um_erase_def)
  qed
qed (simp add: um_contains_def)

text \<open>Erasing a node through the iterator of its key removes exactly that key.\<close>

lemma erase_node_keys:
  assumes "lru_ok c" and "um_find (cache c) k = Some (v, i)"
  shows "filter (\<lambda>e. fst e \<noteq> i) (order c) = filter (\<lambda>e. snd e \<noteq> k) (order c)"
proof (rule filter_cong [OF refl])
  fix e assume e: "e \<in> set (order c)"
  obtain j l where [simp]: "e = (j, l)" by (cases e)
  from e assms(1) obtain w where w: "um_find (cache c) l = Some (w, j)"
    unfolding lru_ok_def by auto
  have "(i, k) \<in> set (order c)" using assms unfolding lru_ok_def by auto
  then have "l = k" if "j = i"
    using e that assms(1) unfolding lru_ok_def by (metis eq_key_imp_eq_value \<open>e = (j, l)\<close>)
  with w assms(2) show "(fst e \<noteq> i) = (snd e \<noteq> k)" by auto
qed

lemma length_filter_key:
  assumes "distinct (map snd xs)" and "k \<in> snd ` set xs"
  shows "length (filter (\<lambda>e. snd e \<noteq> k) xs) = length xs - 1"
  using assms
proof (induction xs)
  case (Cons e xs)
  show ?case
  proof (cases "snd e = k")
    case True
    with Cons.prems(1) have "k \<notin> snd ` set xs" by simp
    then have "filter (\<lambda>e. snd e \<noteq> k) xs = xs" by (metis (mono_tags) filter_True image_eqI)
    with True show ?thesis by simp
  next
    case False
    with Cons have "length (filter (\<lambda>e. snd e \<noteq> k) xs) = length xs - 1" "xs \<noteq> []" by auto
    with False show ?thesis by simp
  qed
qed simp

text \<open>Bringing a key to the front with a value: the common part of \<open>put\<close> and \<open>get\<close>.\<close>

definition to_front :: "string \<Rightarrow> string \<Rightarrow> LRUCache \<Rightarrow> LRUCache" where
  "to_front k v c =
     \<lparr>cap = cap c, order = (next_node c, k) # filter (\<lambda>e. snd e \<noteq> k) (order c),
      cache = um_put k (v, next_node c) (um_erase k (cache c)), next_node = next_node c + 1\<rparr>"

lemma filter_absent: "um_find (cache c) k = None \<Longrightarrow> lru_ok c \<Longrightarrow> filter (\<lambda>e. snd e \<noteq> k) (order c) = order c"
  unfolding lru_ok_def by (auto simp: filter_id_conv)

lemma um_erase_absent: "um_find m k = None \<Longrightarrow> um_erase k m = m"
  by (simp add: um_erase_def um_find_None_iff delete_id)

lemma LRU_put_front:
  assumes "lru_ok c"
  shows "LRU_put k v c =
           (let c3 = to_front k v c in
            if length (cache c3) > cap c
            then c3\<lparr>cache := um_erase (snd (last (order c3))) (cache c3), order := butlast (order c3)\<rparr>
            else c3)"
proof (cases "um_find (cache c) k")
  case None
  with filter_absent [OF None assms] um_erase_absent [OF None] show ?thesis
    by (simp add: LRU_put_def to_front_def push_front_def Let_def)
next
  case (Some p)
  then obtain w i where p: "um_find (cache c) k = Some (w, i)" by (cases p) auto
  with erase_node_keys [OF assms p] show ?thesis
    by (simp add: LRU_put_def to_front_def push_front_def erase_node_def Let_def)
qed

lemma to_front_ok:
  assumes "lru_ok c"
  shows "lru_ok (to_front k v c)"
proof -
  have ok: "um_ok (cache c)" "distinct (map snd (order c))" "distinct (map fst (order c))"
    "\<forall>e \<in> set (order c). fst e < next_node c"
    "\<And>k i. (i, k) \<in> set (order c) \<longleftrightarrow> (\<exists>v. um_find (cache c) k = Some (v, i))"
    "length (cache c) = length (order c)"
    using assms unfolding lru_ok_def by auto
  have len: "length (um_erase k (cache c)) = length (filter (\<lambda>e. snd e \<noteq> k) (order c))"
  proof (cases "um_contains (cache c) k")
    case True
    then obtain w i where "um_find (cache c) k = Some (w, i)" by (auto simp: um_contains_def)
    then have "(i, k) \<in> set (order c)" using ok(5) by blast
    then have "k \<in> snd ` set (order c)" by force
    with True ok show ?thesis by (simp add: length_um_erase length_filter_key)
  next
    case False
    then have "um_find (cache c) k = None" by (cases "um_find (cache c) k") (auto simp: um_contains_def)
    with ok(6) filter_absent [OF _ assms] show ?thesis by (simp add: um_erase_absent)
  qed
  have "distinct (map f (filter P xs))" if "distinct (map f xs)" for f :: "nat \<times> string \<Rightarrow> 'b" and P xs
    using that by (simp add: distinct_map inj_on_def)
  with ok have "distinct (map fst (order (to_front k v c)))" "distinct (map snd (order (to_front k v c)))"
    by (auto simp: to_front_def)
  moreover have "\<forall>j i. (i, j) \<in> set (order (to_front k v c)) \<longleftrightarrow> (\<exists>w. um_find (cache (to_front k v c)) j = Some (w, i))"
    using ok(5) by (auto simp: to_front_def)
  moreover have "length (cache (to_front k v c)) = length (order (to_front k v c))"
    using len by (simp add: to_front_def length_um_put um_contains_def)
  ultimately show ?thesis
    using ok(1,4) unfolding lru_ok_def by (auto simp: to_front_def less_SucI)
qed

lemma to_front_abs:
  assumes "lru_ok c"
  shows "lru_abs (to_front k v c) = (k, v) # filter (\<lambda>e. fst e \<noteq> k) (lru_abs c)"
proof -
  have "map (\<lambda>e. (snd e, fst (the (if snd e = k then Some (v, next_node c) else um_find (cache c) (snd e)))))
          (filter (\<lambda>e. snd e \<noteq> k) (order c)) =
        map (\<lambda>e. (snd e, fst (the (um_find (cache c) (snd e))))) (filter (\<lambda>e. snd e \<noteq> k) (order c))"
    by (rule map_cong) auto
  then show ?thesis
    by (simp add: lru_abs_def to_front_def filter_map comp_def)
qed

text \<open>Dropping the last node of the list and its map entry.\<close>

lemma drop_last_ok:
  assumes "lru_ok c" and "order c \<noteq> []"
  shows "lru_ok (c\<lparr>cache := um_erase (snd (last (order c))) (cache c), order := butlast (order c)\<rparr>)"
    and "lru_abs (c\<lparr>cache := um_erase (snd (last (order c))) (cache c), order := butlast (order c)\<rparr>)
           = butlast (lru_abs c)"
proof -
  obtain xs i k where o: "order c = xs @ [(i, k)]"
    using assms(2) by (metis rev_exhaust surj_pair)
  have ok: "um_ok (cache c)" "distinct (map snd (order c))" "distinct (map fst (order c))"
    "\<forall>e \<in> set (order c). fst e < next_node c"
    "\<And>k i. (i, k) \<in> set (order c) \<longleftrightarrow> (\<exists>v. um_find (cache c) k = Some (v, i))"
    "length (cache c) = length (order c)"
    using assms unfolding lru_ok_def by auto
  have k: "k \<notin> snd ` set xs" using ok(2) by (auto simp: o)
  have "um_contains (cache c) k" using ok(5) [of i k] by (auto simp: o um_contains_def)
  then have len: "length (um_erase k (cache c)) = length xs"
    using ok(1,6) by (simp add: length_um_erase o)
  have "\<forall>j l. (j, l) \<in> set xs \<longleftrightarrow> (\<exists>v. um_find (um_erase k (cache c)) l = Some (v, j))"
  proof (intro allI)
    fix j l
    show "(j, l) \<in> set xs \<longleftrightarrow> (\<exists>v. um_find (um_erase k (cache c)) l = Some (v, j))"
      using ok(5) [of j l] k by (cases "l = k") (auto simp: o image_iff)
  qed
  with ok len show "lru_ok (c\<lparr>cache := um_erase (snd (last (order c))) (cache c), order := butlast (order c)\<rparr>)"
    unfolding lru_ok_def by (auto simp: o)
  have "map (\<lambda>e. (snd e, fst (the (if snd e = k then None else um_find (cache c) (snd e))))) xs =
        map (\<lambda>e. (snd e, fst (the (um_find (cache c) (snd e))))) xs"
    using k by (intro map_cong) (auto simp: image_iff)
  then show "lru_abs (c\<lparr>cache := um_erase (snd (last (order c))) (cache c), order := butlast (order c)\<rparr>)
           = butlast (lru_abs c)"
    by (simp add: lru_abs_def o)
qed

section \<open>Refinement\<close>

definition lru_bounded :: "LRUCache \<Rightarrow> bool" where
  "lru_bounded c \<longleftrightarrow> lru_ok c \<and> length (order c) \<le> cap c"

lemma length_to_front: "lru_bounded c \<Longrightarrow> length (order (to_front k v c)) \<le> Suc (cap c)"
  using le_trans [OF length_filter_le [of "\<lambda>e. snd e \<noteq> k" "order c"], of "cap c"] by (simp add: lru_bounded_def to_front_def)

lemma LRU_put_refines:
  assumes "lru_bounded c"
  shows "lru_bounded (LRU_put k v c)" and "cap (LRU_put k v c) = cap c"
    and "lru_abs (LRU_put k v c) = spec_put (cap c) k v (lru_abs c)"
proof -
  have ok: "lru_ok c" using assms by (simp add: lru_bounded_def)
  let ?c3 = "to_front k v c"
  have ok3: "lru_ok ?c3" using ok by (rule to_front_ok)
  then have len3: "length (cache ?c3) = length (order ?c3)" unfolding lru_ok_def by blast
  have cap3 [simp]: "cap ?c3 = cap c" and ne: "order ?c3 \<noteq> []" by (simp_all add: to_front_def)
  have abs3: "lru_abs ?c3 = (k, v) # filter (\<lambda>e. fst e \<noteq> k) (lru_abs c)"
    using ok by (rule to_front_abs)
  have labs: "length (lru_abs ?c3) = length (order ?c3)" by (simp add: lru_abs_def)
  note put = LRU_put_front [OF ok, of k v, unfolded Let_def]
  have "lru_bounded (LRU_put k v c) \<and> cap (LRU_put k v c) = cap c
          \<and> lru_abs (LRU_put k v c) = spec_put (cap c) k v (lru_abs c)"
  proof (cases "length (cache ?c3) > cap c")
    case True
    then have l: "length (order ?c3) = Suc (cap c)"
      using length_to_front [OF assms, of k v] len3 by simp
    then have "take (cap c) (lru_abs ?c3) = butlast (lru_abs ?c3)"
      using labs by (simp add: butlast_conv_take)
    with True l abs3 drop_last_ok [OF ok3 ne] show ?thesis
      by (simp add: put lru_bounded_def spec_put_def)
  next
    case False
    with len3 labs have "take (cap c) (lru_abs ?c3) = lru_abs ?c3" by simp
    with False ok3 len3 abs3 show ?thesis
      by (simp add: put lru_bounded_def spec_put_def)
  qed
  then show "lru_bounded (LRU_put k v c)" and "cap (LRU_put k v c) = cap c"
    and "lru_abs (LRU_put k v c) = spec_put (cap c) k v (lru_abs c)" by blast+
qed

lemma lru_abs_lookup:
  assumes "lru_ok c"
  shows "map_of (lru_abs c) k = map_option fst (um_find (cache c) k)"
proof (cases "um_find (cache c) k")
  case None
  with assms have "k \<notin> fst ` set (lru_abs c)" unfolding lru_ok_def lru_abs_def by force
  with None show ?thesis by (simp add: map_of_eq_None_iff)
next
  case (Some p)
  obtain v i where p: "p = (v, i)" by (cases p)
  with Some assms have "(i, k) \<in> set (order c)" unfolding lru_ok_def by blast
  with Some p have "(k, v) \<in> set (lru_abs c)" by (force simp: lru_abs_def)
  moreover have "distinct (map fst (lru_abs c))"
    using assms by (simp add: lru_abs_def lru_ok_def comp_def)
  ultimately show ?thesis using Some p by simp
qed

lemma um_put_erase_find: "um_find (um_put k v (um_erase k m)) = um_find (um_put k v m)"
  by (rule ext) simp

lemma LRU_get_refines:
  assumes "lru_bounded c"
  shows "lru_bounded (snd (LRU_get k c))" and "cap (snd (LRU_get k c)) = cap c"
    and "(fst (LRU_get k c), lru_abs (snd (LRU_get k c))) = spec_get k (lru_abs c)"
proof -
  have ok: "lru_ok c" and bd: "length (order c) \<le> cap c"
    using assms by (auto simp: lru_bounded_def)
  have "lru_bounded (snd (LRU_get k c)) \<and> cap (snd (LRU_get k c)) = cap c
          \<and> (fst (LRU_get k c), lru_abs (snd (LRU_get k c))) = spec_get k (lru_abs c)"
  proof (cases "um_find (cache c) k")
    case None
    with assms show ?thesis by (simp add: LRU_get_def spec_get_def lru_abs_lookup [OF ok])
  next
    case (Some p)
    then obtain v i where p: "um_find (cache c) k = Some (v, i)" by (cases p) auto
    let ?g = "snd (LRU_get k c)" and ?f = "to_front k v c"
    have g: "?g = ?f\<lparr>cache := um_put k (v, next_node c) (cache c)\<rparr>"
      using p erase_node_keys [OF ok p]
      by (simp add: LRU_get_def to_front_def push_front_def erase_node_def Let_def)
    have find: "um_find (cache ?g) = um_find (cache ?f)"
      unfolding g by (simp add: to_front_def um_put_erase_find)
    have "k \<in> snd ` set (order c)"
      using ok p unfolding lru_ok_def by force
    then have lf: "length (order ?f) = length (order c)"
      using ok length_filter_key [of "order c" k]
      by (cases "order c") (auto simp: to_front_def lru_ok_def)
    have lc: "length (cache ?g) = length (order c)"
      using ok p unfolding g by (simp add: length_um_put um_contains_def lru_ok_def)
    have "um_ok (cache ?g)" using ok unfolding g by (simp add: lru_ok_def)
    with to_front_ok [OF ok, of k v] lc lf have "lru_ok ?g"
      unfolding lru_ok_def find by (simp add: g)
    moreover have "lru_abs ?g = lru_abs ?f"
      unfolding lru_abs_def find by (simp add: g)
    moreover have "fst (LRU_get k c) = Some v" by (simp add: LRU_get_def p Let_def)
    moreover have "cap ?g = cap c" "order ?g = order ?f" unfolding g by (simp_all add: to_front_def)
    ultimately show ?thesis
      using bd lf p to_front_abs [OF ok, of k v] lru_abs_lookup [OF ok, of k]
      by (simp add: lru_bounded_def spec_get_def)
  qed
  then show "lru_bounded (snd (LRU_get k c))" and "cap (snd (LRU_get k c)) = cap c"
    and "(fst (LRU_get k c), lru_abs (snd (LRU_get k c))) = spec_get k (lru_abs c)" by blast+
qed

text \<open>Sequences of operations.\<close>

datatype lru_op = Put string string | Get string

fun lru_apply :: "lru_op \<Rightarrow> LRUCache \<Rightarrow> LRUCache" where
  "lru_apply (Put k v) c = LRU_put k v c"
| "lru_apply (Get k) c = snd (LRU_get k c)"

fun spec_apply :: "nat \<Rightarrow> lru_op \<Rightarrow> (string \<times> string) list \<Rightarrow> (string \<times> string) list" where
  "spec_apply n (Put k v) xs = spec_put n k v xs"
| "spec_apply n (Get k) xs = snd (spec_get k xs)"

lemma lru_apply_refines:
  assumes "lru_bounded c"
  shows "lru_bounded (lru_apply x c)" and "cap (lru_apply x c) = cap c"
    and "lru_abs (lru_apply x c) = spec_apply (cap c) x (lru_abs c)"
  using LRU_put_refines [OF assms] LRU_get_refines [OF assms]
  by (cases x; simp; metis snd_conv)+

interpretation lru: preserved lru_apply lru_bounded
  by unfold_locales (rule lru_apply_refines(1))

lemma lru_run:
  "lru_bounded c \<Longrightarrow> lru_abs (fold lru_apply xs c) = fold (spec_apply (cap c)) xs (lru_abs c)
                      \<and> cap (fold lru_apply xs c) = cap c"
  by (induction xs arbitrary: c) (simp_all add: lru_apply_refines)

lemma lru_bounded_new: "lru_bounded (LRU_new n)" and lru_abs_new: "lru_abs (LRU_new n) = []"
  by (simp_all add: lru_bounded_def lru_ok_new) (simp_all add: LRU_new_def lru_abs_def)

section \<open>Properties\<close>

lemma cap_new [simp]: "cap (LRU_new n) = n"
  by (simp add: LRU_new_def)

text \<open>C10: The cache, a map with iterators into a linked list, behaves as one list of entries, most
  recent first, under every sequence of insertions and lookups: a lookup finds what the list holds
  and moves it to the front, an insertion puts its entry in front and drops the oldest entries
  beyond the capacity.\<close>

theorem lru_refines_list:
  "lru_abs (fold lru_apply ops (LRU_new n)) = fold (spec_apply n) ops []
   \<and> fst (LRU_get k (fold lru_apply ops (LRU_new n))) = map_of (fold (spec_apply n) ops []) k
   \<and> LRU_size (fold lru_apply ops (LRU_new n)) \<le> n"
proof -
  let ?c = "fold lru_apply ops (LRU_new n)"
  have ok: "lru_bounded ?c" by (rule lru.run [OF lru_bounded_new])
  have run: "lru_abs ?c = fold (spec_apply n) ops []" "cap ?c = n"
    using lru_run [OF lru_bounded_new [of n], of ops] lru_abs_new [of n] by simp_all
  have "fst (LRU_get k ?c) = map_of (lru_abs ?c) k"
    using LRU_get_refines(3) [OF ok, of k] by (auto simp: spec_get_def split: option.splits)
  moreover have "LRU_size ?c \<le> n"
    using ok run(2) by (simp add: LRU_size_def lru_bounded_def lru_ok_def)
  ultimately show ?thesis using run(1) by simp
qed

end
