(* ===== verification/Blockchain.thy ===== *)
theory Blockchain
  imports Block UTXO Leveldb LRU_Cache
begin

text \<open>
  \<open>src/src/core/blockchain.{h,cpp}\<close>: the chain, its set of unspent outputs, its store and its
  block cache, composed as the code composes them. Clock readings are arguments, one for each
  time the code reads the clock; mining may run forever, which is \<open>None\<close>; parsing what the store
  holds may throw, which is \<open>Inl\<close>. What a store opened at a path already holds is the argument
  \<open>disk\<close> of the constructor (nothing, for the in-memory backend). Creating the directory and
  console output are left out.
\<close>

section \<open>Constants and state\<close>

definition HALVING_INTERVAL :: nat where "HALVING_INTERVAL = 210000"
definition INITIAL_REWARD :: u64 where "INITIAL_REWARD = 50"
definition BLOCK_TIME_SECS :: int where "BLOCK_TIME_SECS = 600"
definition DIFFICULTY_WINDOW :: nat where "DIFFICULTY_WINDOW = 2016"
definition MAX_SUPPLY :: nat where "MAX_SUPPLY = 21000000"
definition SATOSHIS :: nat where "SATOSHIS = 100000000"

record Blockchain =
  chain :: "Block list"
  utxoSet :: UTXOSet
  bdb :: BlockchainDB
  blockCache :: LRUCache
  currentDifficulty :: u32
  lastAdjustmentTime :: int
  dataDir :: string

section \<open>Unspent outputs\<close>

definition spend_inputs :: "Transaction \<Rightarrow> UTXOSet \<Rightarrow> UTXOSet" where
  "spend_inputs tx s = fold (\<lambda>inp s. snd (spendUTXO (prevTxHash inp) (outputIndex inp) s)) (inputs tx) s"

definition output_utxo :: "string \<Rightarrow> nat \<times> TxOutput \<Rightarrow> UTXO" where
  "output_utxo h e =
     \<lparr>utxo_txHash = h, utxo_outputIndex = of_nat (fst e), utxo_address = out_address (snd e),
      utxo_amount = amount (snd e), utxo_spent = False\<rparr>"

definition output_utxos :: "Transaction \<Rightarrow> UTXO list" where
  "output_utxos tx = map (output_utxo (txHash tx)) (enumerate 0 (outputs tx))"

definition apply_tx :: "Transaction \<Rightarrow> UTXOSet \<Rightarrow> UTXOSet" where
  "apply_tx tx s = fold addUTXO (output_utxos tx) (spend_inputs tx s)"

definition spent_keys :: "Block \<Rightarrow> string list" where
  "spent_keys b =
     concat (map (\<lambda>tx. map (\<lambda>inp. utxoKey (prevTxHash inp) (outputIndex inp)) (inputs tx)) (transactions b))"

definition updateUTXOs :: "Block \<Rightarrow> Blockchain \<Rightarrow> Blockchain" where
  "updateUTXOs b bc =
     (let batch = fold batch_del (spent_keys b) DBBatch_new
      in bc\<lparr>utxoSet := fold apply_tx (transactions b) (utxoSet bc),
            bdb := (if opened (bdb bc) then snd (writeBatch batch (bdb bc)) else bdb bc)\<rparr>)"

section \<open>Persistence\<close>

definition serializeBlock :: "Block \<Rightarrow> string" where
  "serializeBlock b =
     nat_str (unat (b_index b)) @ ''|'' @ b_hash b @ ''|'' @ previousHash (header b) @ ''|'' @
     merkleRoot (header b) @ ''|'' @ int_str (h_timestamp (header b)) @ ''|'' @
     nat_str (unat (difficulty (header b))) @ ''|'' @ nat_str (unat (nonce (header b))) @ ''|'' @
     nat_str (length (transactions b)) @
     concat (map (\<lambda>tx. ''|'' @ txHash tx @ ''|'' @ bool_str (isCoinbase tx) @ ''|'' @
                        nat_str (length (outputs tx))) (transactions b))"

definition tx_record :: "Transaction \<Rightarrow> string" where
  "tx_record tx =
     txHash tx @ ''|'' @ bool_str (isCoinbase tx) @ ''|'' @ int_str (timestamp tx) @
     concat (map (\<lambda>out. ''|OUT:'' @ out_address out @ '':'' @ nat_str (unat (amount out))) (outputs tx))"

definition utxo_record :: "TxOutput \<Rightarrow> string" where
  "utxo_record out = out_address out @ ''|'' @ nat_str (unat (amount out)) @ ''|0''"

definition tx_puts :: "Transaction \<Rightarrow> (string \<times> string) list" where
  "tx_puts tx =
     (''t:'' @ txHash tx, tx_record tx) #
     map (\<lambda>e. (utxoKey (txHash tx) (of_nat (fst e)), utxo_record (snd e))) (enumerate 0 (outputs tx))"

definition block_puts :: "Block \<Rightarrow> (string \<times> string) list" where
  "block_puts b =
     [(''b:'' @ b_hash b, serializeBlock b), (''h:'' @ nat_str (unat (b_index b)), b_hash b)] @
     concat (map tx_puts (transactions b))"

definition persistBlock :: "Block \<Rightarrow> Blockchain \<Rightarrow> Blockchain" where
  "persistBlock b bc =
     (let batch = fold (\<lambda>(k, v). batch_put k v) (block_puts b) DBBatch_new
      in bc\<lparr>bdb := snd (writeBatch batch (bdb bc))\<rparr>)"

definition set_meta :: "string \<Rightarrow> string \<Rightarrow> Blockchain \<Rightarrow> Blockchain" where
  "set_meta k v bc = bc\<lparr>bdb := snd (setMeta k v (bdb bc))\<rparr>"

section \<open>Adding a block\<close>

definition adjustDifficulty :: "int \<Rightarrow> Blockchain \<Rightarrow> Blockchain" where
  "adjustDifficulty now bc =
     (let elapsed = now - lastAdjustmentTime bc;
          expected = BLOCK_TIME_SECS * int DIFFICULTY_WINDOW;
          d = (if elapsed < expected div 4 then currentDifficulty bc + 1
               else if elapsed > expected * 4 \<and> currentDifficulty bc > 1 then currentDifficulty bc - 1
               else currentDifficulty bc)
      in set_meta ''difficulty'' (nat_str (unat d))
           (bc\<lparr>currentDifficulty := d, lastAdjustmentTime := now\<rparr>))"

text \<open>
  \<open>now_adj\<close> is the clock at the difficulty adjustment, \<open>now\<close> at the construction of the block.
  The chain is never empty once constructed, so \<open>chain.back()\<close> is \<open>last\<close>.
\<close>

definition addBlock :: "int \<Rightarrow> int \<Rightarrow> Transaction list \<Rightarrow> Blockchain \<Rightarrow> Blockchain option" where
  "addBlock now_adj now txs bc0 =
     (let bc = (if length (chain bc0) mod DIFFICULTY_WINDOW = 0 \<and> length (chain bc0) > 0
                then adjustDifficulty now_adj bc0 else bc0);
          newBlock = Block_new now (of_nat (length (chain bc))) (b_hash (last (chain bc))) txs
                       (currentDifficulty bc)
      in case Block_mine newBlock of
           None \<Rightarrow> None
         | Some b \<Rightarrow>
             let bc = updateUTXOs b bc;
                 bc = persistBlock b bc;
                 bc = set_meta ''height'' (nat_str (length (chain bc) + 1)) bc;
                 bc = set_meta ''bestHash'' (b_hash b) bc;
                 bc = bc\<lparr>chain := chain bc @ [b]\<rparr>
             in Some (bc\<lparr>blockCache := LRU_put (''blk:'' @ b_hash b) (serializeBlock b) (blockCache bc)\<rparr>))"

section \<open>Construction and destruction\<close>

definition createGenesisBlock :: "int \<Rightarrow> int \<Rightarrow> Blockchain \<Rightarrow> (Block \<times> Blockchain) option" where
  "createGenesisBlock now_tx now bc =
     (let genesisTx = createCoinbase now_tx ''RXCGenesisAddress_RexNetwork_2026'' INITIAL_REWARD 0
      in case Block_mine (Block_new now 0 (replicate 64 (CHR ''0'')) [genesisTx] (currentDifficulty bc)) of
           None \<Rightarrow> None
         | Some g \<Rightarrow> Some (g, updateUTXOs g bc))"

definition loadFromDB :: "int \<Rightarrow> int \<Rightarrow> Blockchain \<Rightarrow> (bool \<times> Blockchain) result option" where
  "loadFromDB now_tx now bc =
     (case getMeta ''height'' (bdb bc) of
        None \<Rightarrow> Some (Inr (False, bc))
      | Some heightStr \<Rightarrow>
          (case stoul10 heightStr of
             Inl e \<Rightarrow> Some (Inl e)
           | Inr n \<Rightarrow>
               if (ucast n :: u32) = 0 then Some (Inr (False, bc))
               else
                 case (case getMeta ''difficulty'' (bdb bc) of
                         None \<Rightarrow> Inr bc
                       | Some diffStr \<Rightarrow>
                           bind_result (stoul10 diffStr) (\<lambda>d. Inr (bc\<lparr>currentDifficulty := ucast d\<rparr>))) of
                   Inl e \<Rightarrow> Some (Inl e)
                 | Inr bc1 \<Rightarrow>
                     (case createGenesisBlock now_tx now bc1 of
                        None \<Rightarrow> None
                      | Some (g, bc2) \<Rightarrow> Some (Inr (True, bc2\<lparr>chain := chain bc2 @ [g]\<rparr>)))))"

definition Blockchain_new ::
  "(string, string) umap \<Rightarrow> int \<Rightarrow> int \<Rightarrow> int \<Rightarrow> string \<Rightarrow> Blockchain result option" where
  "Blockchain_new disk now0 now_tx now dir =
     (let bc = \<lparr>chain = [], utxoSet = um_empty,
                bdb = snd (db_open (dir @ ''/chaindata'') (db_new\<lparr>memdb := disk\<rparr>)),
                blockCache = LRU_new 512, currentDifficulty = 4, lastAdjustmentTime = now0,
                dataDir = dir\<rparr>
      in case loadFromDB now_tx now bc of
           None \<Rightarrow> None
         | Some (Inl e) \<Rightarrow> Some (Inl e)
         | Some (Inr (True, bc)) \<Rightarrow> Some (Inr bc)
         | Some (Inr (False, bc)) \<Rightarrow>
             (case createGenesisBlock now_tx now bc of
                None \<Rightarrow> None
              | Some (g, bc) \<Rightarrow>
                  let bc = bc\<lparr>chain := chain bc @ [g]\<rparr>;
                      bc = persistBlock g bc;
                      bc = set_meta ''height'' ''1'' bc;
                      bc = set_meta ''bestHash'' (b_hash g) bc
                  in Some (Inr (set_meta ''difficulty'' (nat_str (unat (currentDifficulty bc))) bc))))"

definition Blockchain_destroy :: "Blockchain \<Rightarrow> BlockchainDB" where
  "Blockchain_destroy bc =
     (let bc = set_meta ''height'' (nat_str (length (chain bc))) bc;
          bc = set_meta ''bestHash'' (if chain bc = [] then [] else b_hash (last (chain bc))) bc;
          bc = set_meta ''difficulty'' (nat_str (unat (currentDifficulty bc))) bc
      in db_close (bdb bc))"

section \<open>Queries\<close>

definition Blockchain_isValid :: "Blockchain \<Rightarrow> bool" where
  "Blockchain_isValid bc \<longleftrightarrow>
     list_all (\<lambda>i. Block_isValid (chain bc ! i) \<and>
                   previousHash (header (chain bc ! i)) = b_hash (chain bc ! (i - 1)))
       [1 ..< length (chain bc)]"

definition reward_at :: "nat \<Rightarrow> u64" where
  "reward_at height =
     (let halvings = (of_nat (height div HALVING_INTERVAL) :: u32)
      in if unat halvings \<ge> 64 then 0 else drop_bit (unat halvings) INITIAL_REWARD)"

definition getBlockReward :: "Blockchain \<Rightarrow> u64" where
  "getBlockReward bc = reward_at (length (chain bc))"

definition getDifficulty :: "Blockchain \<Rightarrow> u32" where
  "getDifficulty bc = currentDifficulty bc"

definition getHeight :: "Blockchain \<Rightarrow> nat" where
  "getHeight bc = length (chain bc)"

definition getLatestBlock :: "Blockchain \<Rightarrow> Block" where
  "getLatestBlock bc = last (chain bc)"

definition getBlock :: "u32 \<Rightarrow> Blockchain \<Rightarrow> Block option" where
  "getBlock i bc = (if unat i \<ge> length (chain bc) then None else Some (chain bc ! unat i))"

text \<open>A cache hit moves the block to the front: the query changes the cache.\<close>

definition getBlockByHash :: "string \<Rightarrow> Blockchain \<Rightarrow> string option \<times> Blockchain" where
  "getBlockByHash h bc =
     (if LRU_contains (''blk:'' @ h) (blockCache bc) then
        let (v, c) = LRU_get (''blk:'' @ h) (blockCache bc) in (v, bc\<lparr>blockCache := c\<rparr>)
      else (db_getBlock h (bdb bc), bc))"

definition getBalance :: "string \<Rightarrow> Blockchain \<Rightarrow> u64" where
  "getBalance addr bc = UTXOSet_getBalance addr (utxoSet bc)"

end
