(* ===== verification/Chain_Invariants.thy ===== *)
theory Chain_Invariants
  imports Blockchain
begin

text \<open>
  What every blockchain the code can reach satisfies: its blocks are numbered in order, hashed,
  mined and linked, its store is open and its cache and output set are well formed. The
  reachable chains are those the step relation \<open>chain_step\<close> leads to from a constructed one.
\<close>

section \<open>Field lemmas\<close>

lemma set_meta_fields [simp]:
  "chain (set_meta k v bc) = chain bc" "utxoSet (set_meta k v bc) = utxoSet bc"
  "blockCache (set_meta k v bc) = blockCache bc"
  "currentDifficulty (set_meta k v bc) = currentDifficulty bc"
  "bdb (set_meta k v bc) = snd (setMeta k v (bdb bc))"
  by (simp_all add: set_meta_def)

lemma updateUTXOs_fields [simp]:
  "chain (updateUTXOs b bc) = chain bc" "blockCache (updateUTXOs b bc) = blockCache bc"
  "currentDifficulty (updateUTXOs b bc) = currentDifficulty bc"
  "utxoSet (updateUTXOs b bc) = fold apply_tx (transactions b) (utxoSet bc)"
  by (simp_all add: updateUTXOs_def Let_def)

lemma persistBlock_fields [simp]:
  "chain (persistBlock b bc) = chain bc" "utxoSet (persistBlock b bc) = utxoSet bc"
  "blockCache (persistBlock b bc) = blockCache bc"
  "currentDifficulty (persistBlock b bc) = currentDifficulty bc"
  by (simp_all add: persistBlock_def Let_def)

lemma adjustDifficulty_fields [simp]:
  "chain (adjustDifficulty now bc) = chain bc" "utxoSet (adjustDifficulty now bc) = utxoSet bc"
  "blockCache (adjustDifficulty now bc) = blockCache bc"
  by (simp_all add: adjustDifficulty_def Let_def)

section \<open>The parts\<close>

lemma fold_batch_del: "fold batch_del ks bt = bt\<lparr>dels := dels bt @ ks\<rparr>"
  by (induction ks arbitrary: bt) (simp_all add: batch_del_def)

lemma fold_batch_put: "fold (\<lambda>(k, v). batch_put k v) kvs bt = bt\<lparr>puts := puts bt @ kvs\<rparr>"
  by (induction kvs arbitrary: bt) (auto simp: batch_put_def)

lemma db_ok_setMeta [simp, preserves]: "db_ok d \<Longrightarrow> db_ok (snd (setMeta k v d))"
  using db.ok_insert [of d] by (simp add: setMeta_def)

lemma db_ok_adjust [preserves]: "db_ok (bdb bc) \<Longrightarrow> db_ok (bdb (adjustDifficulty now bc))"
  by (simp add: adjustDifficulty_def Let_def)

lemma db_ok_update [preserves]: "db_ok (bdb bc) \<Longrightarrow> db_ok (bdb (updateUTXOs b bc))"
  by (simp add: updateUTXOs_def Let_def writeBatch_ok)

lemma db_ok_persist [preserves]: "db_ok (bdb bc) \<Longrightarrow> db_ok (bdb (persistBlock b bc))"
  by (simp add: persistBlock_def Let_def writeBatch_ok)

lemma UTXOSet_ok_tx [preserves]: "UTXOSet_ok s \<Longrightarrow> UTXOSet_ok (apply_tx tx s)"
proof -
  have spend: "UTXOSet_ok (fold (\<lambda>inp s. snd (spendUTXO (prevTxHash inp) (outputIndex inp) s)) ins s)"
    if "UTXOSet_ok s" for ins :: "TxInput list" and s
    using that by (induction ins arbitrary: s) auto
  show "UTXOSet_ok s \<Longrightarrow> UTXOSet_ok (apply_tx tx s)"
    unfolding apply_tx_def spend_inputs_def by (intro utxo.ok_add_all spend)
qed

lemma UTXOSet_ok_txs [preserves]: "UTXOSet_ok s \<Longrightarrow> UTXOSet_ok (fold apply_tx txs s)"
  by (induction txs arbitrary: s) (auto intro: preserves)

section \<open>The invariant\<close>

definition block_formed :: "Block \<Rightarrow> bool" where
  "block_formed b \<longleftrightarrow> b_hash b = Block_calculateHash b \<and> version (header b) = 1
     \<and> length (previousHash (header b)) = 64 \<and> Block_isValid b
     \<and> merkleRoot (header b) = buildRoot (map txHash (transactions b))"

definition chain_inv :: "Blockchain \<Rightarrow> bool" where
  "chain_inv bc \<longleftrightarrow> chain bc \<noteq> [] \<and> Blockchain_isValid bc
     \<and> (\<forall>b \<in> set (chain bc). block_formed b)
     \<and> (\<forall>i < length (chain bc). b_index (chain bc ! i) = of_nat i)
     \<and> db_ok (bdb bc) \<and> lru_bounded (blockCache bc) \<and> UTXOSet_ok (utxoSet bc)"

lemma isValid_iff:
  "Blockchain_isValid bc \<longleftrightarrow>
     (\<forall>i. 0 < i \<and> i < length (chain bc) \<longrightarrow>
        Block_isValid (chain bc ! i) \<and> previousHash (header (chain bc ! i)) = b_hash (chain bc ! (i - 1)))"
  by (auto simp: Blockchain_isValid_def list_all_iff)

lemma isValid_snoc:
  assumes "Blockchain_isValid bc" and "Block_isValid b"
    and "chain bc \<noteq> []" and "previousHash (header b) = b_hash (last (chain bc))"
    and "chain bc' = chain bc @ [b]"
  shows "Blockchain_isValid bc'"
  using assms unfolding isValid_iff
  by (auto simp: nth_append last_conv_nth less_Suc_eq)

text \<open>The parts of one \<open>addBlock\<close>: the block it mines and the state it leaves.\<close>

definition before_block :: "int \<Rightarrow> Blockchain \<Rightarrow> Blockchain" where
  "before_block now_adj bc =
     (if length (chain bc) mod DIFFICULTY_WINDOW = 0 \<and> length (chain bc) > 0
      then adjustDifficulty now_adj bc else bc)"

lemma before_block_fields [simp]:
  "chain (before_block now bc) = chain bc" "utxoSet (before_block now bc) = utxoSet bc"
  "blockCache (before_block now bc) = blockCache bc"
  by (simp_all add: before_block_def)

definition with_block :: "Block \<Rightarrow> Blockchain \<Rightarrow> Blockchain" where
  "with_block b bc =
     (let bc = persistBlock b (updateUTXOs b bc);
          bc = set_meta ''bestHash'' (b_hash b) (set_meta ''height'' (nat_str (length (chain bc) + 1)) bc)
      in bc\<lparr>chain := chain bc @ [b],
            blockCache := LRU_put (''blk:'' @ b_hash b) (serializeBlock b) (blockCache bc)\<rparr>)"

lemma addBlock_parts:
  assumes "addBlock now_adj now txs bc = Some bc'"
  obtains b where "Block_mine (Block_new now (of_nat (length (chain bc))) (b_hash (last (chain bc))) txs
                     (currentDifficulty (before_block now_adj bc))) = Some b"
    and "bc' = with_block b (before_block now_adj bc)"
  using assms unfolding addBlock_def Let_def before_block_def [symmetric]
  by (auto simp: with_block_def Let_def split: option.splits)

lemma with_block_fields [simp]:
  "chain (with_block b bc) = chain bc @ [b]"
  "utxoSet (with_block b bc) = fold apply_tx (transactions b) (utxoSet bc)"
  "blockCache (with_block b bc) = LRU_put (''blk:'' @ b_hash b) (serializeBlock b) (blockCache bc)"
  "currentDifficulty (with_block b bc) = currentDifficulty bc"
  by (simp_all add: with_block_def Let_def)

lemma bdb_with_block:
  "bdb (with_block b bc) =
     snd (setMeta ''bestHash'' (b_hash b) (snd (setMeta ''height'' (nat_str (length (chain bc) + 1))
       (bdb (persistBlock b (updateUTXOs b bc))))))"
  by (simp add: with_block_def Let_def)

lemma db_ok_with_block [preserves]: "db_ok (bdb bc) \<Longrightarrow> db_ok (bdb (with_block b bc))"
  by (simp add: bdb_with_block preserves)

lemma mined_block:
  assumes "Block_mine (Block_new now i p txs d) = Some b"
  shows "Block_isValid b" and "b_hash b = Block_calculateHash b" and "previousHash (header b) = p"
    and "transactions b = txs" and "b_index b = i" and "version (header b) = 1"
    and "merkleRoot (header b) = buildRoot (map txHash txs)" and "difficulty (header b) = d"
proof -
  note v = Block_mine_valid [OF Block_new_hash assms]
  from v show "Block_isValid b" "previousHash (header b) = p" "transactions b = txs" "b_index b = i"
    "merkleRoot (header b) = buildRoot (map txHash txs)" "difficulty (header b) = d" by simp_all
  then show "b_hash b = Block_calculateHash b" by (simp add: Block_isValid_def)
  from Block_mine_first [OF Block_new_hash assms] show "version (header b) = 1"
    by (auto simp: with_nonce_def Block_new_def Let_def)
qed

lemma mined_block_formed:
  "Block_mine (Block_new now i p txs d) = Some b \<Longrightarrow> length p = 64 \<Longrightarrow> block_formed b"
  by (simp add: block_formed_def mined_block(1,3,4,6,7)) (simp add: mined_block(2))

lemma block_formed_length: "block_formed b \<Longrightarrow> length (b_hash b) = 64"
  using length_Block_calculateHash [of b] unfolding block_formed_def by metis

lemma chain_inv_add:
  assumes "chain_inv bc" and "addBlock now_adj now txs bc = Some bc'"
  shows "chain_inv bc'"
proof -
  from assms(2) obtain b where
    b: "Block_mine (Block_new now (of_nat (length (chain bc))) (b_hash (last (chain bc))) txs
          (currentDifficulty (before_block now_adj bc))) = Some b"
    and bc': "bc' = with_block b (before_block now_adj bc)" by (rule addBlock_parts)
  note inv = assms(1) [unfolded chain_inv_def]
  have last: "length (b_hash (last (chain bc))) = 64"
    using inv last_in_set by (blast intro: block_formed_length)
  have "Blockchain_isValid bc'"
    by (rule isValid_snoc [of bc b bc']) (simp_all add: bc' inv mined_block(1,3) [OF b])
  moreover have "\<forall>c \<in> set (chain bc'). block_formed c"
    using inv mined_block_formed [OF b last] by (auto simp: bc')
  moreover have "\<forall>i < length (chain bc'). b_index (chain bc' ! i) = of_nat i"
    using inv mined_block(5) [OF b] by (auto simp: bc' nth_append less_Suc_eq)
  moreover have "db_ok (bdb bc')"
    using inv by (auto simp: bc' before_block_def intro: preserves)
  moreover have "lru_bounded (blockCache bc')" "UTXOSet_ok (utxoSet bc')"
    using inv by (auto simp: bc' LRU_put_refines preserves)
  ultimately show ?thesis by (simp add: chain_inv_def bc')
qed

lemma addBlock_height:
  "addBlock now_adj now txs bc = Some bc' \<Longrightarrow> \<exists>b. chain bc' = chain bc @ [b] \<and> transactions b = txs"
  by (elim addBlock_parts) (auto simp: mined_block)

lemma query_fields [simp]:
  "chain (snd (getBlockByHash h bc)) = chain bc" "utxoSet (snd (getBlockByHash h bc)) = utxoSet bc"
  "bdb (snd (getBlockByHash h bc)) = bdb bc"
  by (simp_all add: getBlockByHash_def split: prod.split)

lemma query_cache: "lru_bounded (blockCache bc) \<Longrightarrow> lru_bounded (blockCache (snd (getBlockByHash h bc)))"
  using LRU_get_refines(1) [of "blockCache bc" "''blk:'' @ h"]
  by (cases "LRU_get (''blk:'' @ h) (blockCache bc)") (simp add: getBlockByHash_def)

lemma chain_inv_query [preserves]: "chain_inv bc \<Longrightarrow> chain_inv (snd (getBlockByHash h bc))"
  by (simp add: chain_inv_def Blockchain_isValid_def query_cache)

section \<open>Construction\<close>

lemma genesis_inv:
  assumes "createGenesisBlock now_tx now bc = Some (g, bc2)" and "chain bc = []"
    and "db_ok (bdb bc)" and "lru_bounded (blockCache bc)" and "UTXOSet_ok (utxoSet bc)"
  shows "chain_inv (bc2\<lparr>chain := [g]\<rparr>)" and "chain bc2 = []"
proof -
  from assms(1) obtain txs where g: "Block_mine (Block_new now 0 (replicate 64 (CHR ''0'')) txs (currentDifficulty bc)) = Some g"
    and bc2: "bc2 = updateUTXOs g bc"
    by (auto simp: createGenesisBlock_def Let_def split: option.splits)
  from mined_block_formed [OF g] mined_block(5) [OF g] assms(2-5)
  show "chain_inv (bc2\<lparr>chain := [g]\<rparr>)"
    using db_ok_update [of bc g] by (simp add: chain_inv_def bc2 Blockchain_isValid_def UTXOSet_ok_txs)
  show "chain bc2 = []" using assms(2) by (simp add: bc2)
qed

lemma chain_inv_set_meta [preserves]: "chain_inv bc \<Longrightarrow> chain_inv (set_meta k v bc)"
  by (simp add: chain_inv_def Blockchain_isValid_def)

lemma chain_inv_persist [preserves]: "chain_inv bc \<Longrightarrow> chain_inv (persistBlock b bc)"
  by (simp add: chain_inv_def Blockchain_isValid_def db_ok_persist)

lemma loadFromDB_True:
  assumes "loadFromDB now_tx now bc = Some (Inr (True, bc'))"
  obtains d g bc2 where "createGenesisBlock now_tx now (bc\<lparr>currentDifficulty := d\<rparr>) = Some (g, bc2)"
    and "bc' = bc2\<lparr>chain := chain bc2 @ [g]\<rparr>"
proof -
  obtain hs n where h: "getMeta ''height'' (bdb bc) = Some hs" "stoul10 hs = Inr n" "(ucast n :: u32) \<noteq> 0"
    using assms by (auto simp: loadFromDB_def split: option.splits sum.splits if_splits)
  have "bc = bc\<lparr>currentDifficulty := currentDifficulty bc\<rparr>" by simp
  moreover obtain bc1 where "bc1 = bc \<or> (\<exists>d. bc1 = bc\<lparr>currentDifficulty := d\<rparr>)"
    and "\<exists>g bc2. createGenesisBlock now_tx now bc1 = Some (g, bc2) \<and> bc' = bc2\<lparr>chain := chain bc2 @ [g]\<rparr>"
    using assms h by (cases "getMeta ''difficulty'' (bdb bc)")
      (auto simp: loadFromDB_def split: option.splits sum.splits)
  ultimately show thesis using that by metis
qed

text \<open>
  Whatever the store holds, a constructed chain satisfies the invariant and has one block: the
  blocks a store holds are not loaded.
\<close>

lemma Blockchain_new_inv:
  assumes "Blockchain_new disk now0 now_tx now dir = Some (Inr bc)" and "um_ok disk"
  shows "chain_inv bc" and "length (chain bc) = 1"
proof -
  define b0 where "b0 = \<lparr>chain = [], utxoSet = um_empty,
       bdb = snd (db_open (dir @ ''/chaindata'') (db_new\<lparr>memdb := disk\<rparr>)),
       blockCache = LRU_new 512, currentDifficulty = 4, lastAdjustmentTime = now0, dataDir = dir\<rparr>"
  have base: "chain b0 = []" "db_ok (bdb b0)" "lru_bounded (blockCache b0)" "UTXOSet_ok (utxoSet b0)"
    using assms(2) by (simp_all add: b0_def db_ok_def db_open_def db_new_def lru_bounded_new)
  have gen: "chain_inv (bc2\<lparr>chain := chain bc2 @ [g]\<rparr>)" "length (chain (bc2\<lparr>chain := chain bc2 @ [g]\<rparr>)) = 1"
    if "createGenesisBlock now_tx now (b0\<lparr>currentDifficulty := d\<rparr>) = Some (g, bc2)" for d g bc2
    using genesis_inv [OF that] base by simp_all
  have d4: "b0\<lparr>currentDifficulty := 4\<rparr> = b0" by (simp add: b0_def)
  note new = assms(1) [unfolded Blockchain_new_def Let_def, folded b0_def]
  have "chain_inv bc \<and> length (chain bc) = 1"
  proof (cases "loadFromDB now_tx now b0")
    case None
    with new show ?thesis by simp
  next
    case (Some r)
    then obtain fnd b1 where r: "r = Inr (fnd, b1)" using new by (cases r) auto
    show ?thesis
    proof (cases fnd)
      case True
      with new Some r have "bc = b1" by simp
      with Some r True have "loadFromDB now_tx now b0 = Some (Inr (True, bc))" by simp
      then obtain d g bc2 where
        "createGenesisBlock now_tx now (b0\<lparr>currentDifficulty := d\<rparr>) = Some (g, bc2)"
        and "bc = bc2\<lparr>chain := chain bc2 @ [g]\<rparr>" by (rule loadFromDB_True)
      with gen show ?thesis by blast
    next
      case False
      with Some r have "b1 = b0"
        by (auto simp: loadFromDB_def split: option.splits sum.splits if_splits)
      with new Some r False obtain g bc2 where
        g: "createGenesisBlock now_tx now b0 = Some (g, bc2)"
        and bc: "bc = set_meta ''difficulty'' (nat_str (unat (currentDifficulty bc2)))
               (set_meta ''bestHash'' (b_hash g) (set_meta ''height'' ''1''
               (persistBlock g (bc2\<lparr>chain := chain bc2 @ [g]\<rparr>))))"
        by (auto split: option.splits)
      from gen [of 4, unfolded d4, OF g] show ?thesis
        by (simp add: bc preserves)
    qed
  qed
  then show "chain_inv bc" and "length (chain bc) = 1" by blast+
qed

section \<open>Reachable chains\<close>

inductive chain_step :: "Blockchain \<Rightarrow> Blockchain \<Rightarrow> bool" where
  add: "addBlock now_adj now txs bc = Some bc' \<Longrightarrow> chain_step bc bc'"
| query: "bc' = snd (getBlockByHash h bc) \<Longrightarrow> chain_step bc bc'"

inductive_cases chain_stepE: "chain_step bc bc'"

inductive chain_reach :: "Blockchain \<Rightarrow> nat \<Rightarrow> Blockchain \<Rightarrow> bool" where
  start: "\<lbrakk>Blockchain_new disk now0 now_tx now dir = Some (Inr bc); um_ok disk\<rbrakk> \<Longrightarrow> chain_reach bc 1 bc"
| add: "\<lbrakk>chain_reach bc0 n bc; addBlock now_adj now txs bc = Some bc'\<rbrakk> \<Longrightarrow> chain_reach bc0 (n + 1) bc'"
| query: "\<lbrakk>chain_reach bc0 n bc; bc' = snd (getBlockByHash h bc)\<rbrakk> \<Longrightarrow> chain_reach bc0 n bc'"

lemma chain_step_inv: "chain_step bc bc' \<Longrightarrow> chain_inv bc \<Longrightarrow> chain_inv bc'"
  by (erule chain_stepE) (auto intro: chain_inv_add preserves)

text \<open>The height counts the blocks added, and earlier blocks are never changed.\<close>

lemma chain_reach_inv:
  "chain_reach bc0 n bc \<Longrightarrow> chain_inv bc \<and> getHeight bc = n \<and> (\<exists>bs. chain bc = chain bc0 @ bs)"
proof (induction rule: chain_reach.induct)
  case (start disk now0 now_tx now dir bc)
  then show ?case using Blockchain_new_inv by (simp add: getHeight_def)
next
  case (add bc0 n bc now_adj now txs bc')
  then show ?case
    using addBlock_height [OF add.hyps(2)] chain_inv_add [OF _ add.hyps(2)] by (auto simp: getHeight_def)
next
  case (query bc0 n bc bc' h)
  then show ?case using chain_inv_query by (simp add: getHeight_def)
qed

section \<open>What the tip of a chain determines\<close>

text \<open>The texts the headers and the Merkle trees of a list of blocks hash.\<close>

definition hashed_texts :: "Block list \<Rightarrow> string set" where
  "hashed_texts bs =
     (\<Union>b \<in> set bs. insert (header_preimage (header b)) (set (root_texts (map txHash (transactions b)))))"

definition tx_digests :: "Block list \<Rightarrow> bool" where
  "tx_digests bs \<longleftrightarrow> (\<forall>b \<in> set bs. digests (map txHash (transactions b)))"

lemma length_reduce_layers: "l \<noteq> [] \<Longrightarrow> digests l \<Longrightarrow> length (reduce_layers l) = 64"
proof (induction l rule: reduce_layers.induct)
  case (1 layer)
  show ?case
  proof (cases "1 < length layer")
    case True
    then have "pair_layer (pad_layer layer) \<noteq> []" by (simp flip: length_greater_0_conv)
    with True 1 show ?thesis by (simp add: reduce_layers.simps [of layer])
  next
    case False
    with "1.prems" show ?thesis
      by (cases layer) (auto simp: reduce_layers.simps [of "[_]"] digests_def)
  qed
qed

lemma length_buildRoot: "digests l \<Longrightarrow> length (buildRoot l) = 64"
  by (cases "l = []") (simp_all add: buildRoot_def [of "[]"] buildRoot_reduce length_reduce_layers)

lemma same_block_links:
  assumes "block_formed b" and "block_formed b'"
    and "digests (map txHash (transactions b))" and "digests (map txHash (transactions b'))"
    and "b_hash b = b_hash b'"
  shows "previousHash (header b) = previousHash (header b') \<and> merkleRoot (header b) = merkleRoot (header b')
         \<or> collides {header_preimage (header b), header_preimage (header b')}"
  using assms by (intro Block_hash_links) (auto simp: block_formed_def length_buildRoot)

lemma tip_determines:
  assumes valid: "Blockchain_isValid bc" "Blockchain_isValid bc'"
    and formed: "\<forall>b \<in> set (chain bc). block_formed b" "\<forall>b \<in> set (chain bc'). block_formed b"
    and dig: "tx_digests (chain bc)" "tx_digests (chain bc')"
    and len: "length (chain bc) = length (chain bc')" and tip: "b_hash (last (chain bc)) = b_hash (last (chain bc'))"
    and nc: "\<not> collides (hashed_texts (chain bc) \<union> hashed_texts (chain bc'))"
    and i: "i < length (chain bc)"
  shows "b_hash (chain bc ! i) = b_hash (chain bc' ! i)
           \<and> merkleRoot (header (chain bc ! i)) = merkleRoot (header (chain bc' ! i))"
proof -
  let ?c = "chain bc" and ?d = "chain bc'"
  have links: "previousHash (header (?c ! k)) = previousHash (header (?d ! k))
                \<and> merkleRoot (header (?c ! k)) = merkleRoot (header (?d ! k))"
    if k: "k < length ?c" and eq: "b_hash (?c ! k) = b_hash (?d ! k)" for k
  proof -
    have mem: "?c ! k \<in> set ?c" "?d ! k \<in> set ?d" using k len by auto
    then have "{header_preimage (header (?c ! k)), header_preimage (header (?d ! k))}
                 \<subseteq> hashed_texts ?c \<union> hashed_texts ?d"
      unfolding hashed_texts_def by blast
    with nc collides_mono have "\<not> collides {header_preimage (header (?c ! k)), header_preimage (header (?d ! k))}"
      by blast
    with same_block_links [OF _ _ _ _ eq] formed dig mem show ?thesis
      unfolding tx_digests_def by blast
  qed
  have "b_hash (?c ! (length ?c - 1 - j)) = b_hash (?d ! (length ?c - 1 - j))" if "j < length ?c" for j
    using that
  proof (induction j)
    case 0
    then have "?c \<noteq> []" "?d \<noteq> []" using len by auto
    with tip len show ?case by (simp add: last_conv_nth)
  next
    case (Suc j)
    let ?k = "length ?c - 1 - j"
    have k: "0 < ?k" "?k < length ?c" "?k - 1 = length ?c - 1 - Suc j" using Suc.prems by auto
    have eq: "b_hash (?c ! ?k) = b_hash (?d ! ?k)" using Suc by simp
    have "previousHash (header (?c ! ?k)) = b_hash (?c ! (?k - 1))"
      and "previousHash (header (?d ! ?k)) = b_hash (?d ! (?k - 1))"
      using valid k len unfolding isValid_iff by auto
    with links [OF k(2) eq] k(3) show ?case by simp
  qed
  from this [of "length ?c - 1 - i"] i have "b_hash (?c ! i) = b_hash (?d ! i)" by simp
  with links [OF i] show ?thesis by blast
qed

text \<open>Two chains of one height with the same tip hold the same transaction identifiers.\<close>

lemma tip_determines_transactions:
  assumes "chain_inv bc" and "chain_inv bc'" and "tx_digests (chain bc)" and "tx_digests (chain bc')"
    and "map (\<lambda>b. length (transactions b)) (chain bc) = map (\<lambda>b. length (transactions b)) (chain bc')"
    and "b_hash (last (chain bc)) = b_hash (last (chain bc'))"
  shows "map (\<lambda>b. map txHash (transactions b)) (chain bc) = map (\<lambda>b. map txHash (transactions b)) (chain bc')
         \<or> collides (hashed_texts (chain bc) \<union> hashed_texts (chain bc'))"
proof (rule disjCI)
  assume nc: "\<not> collides (hashed_texts (chain bc) \<union> hashed_texts (chain bc'))"
  let ?c = "chain bc" and ?d = "chain bc'"
  have len: "length ?c = length ?d" using assms(5) by (rule map_eq_imp_length_eq)
  have "map txHash (transactions (?c ! i)) = map txHash (transactions (?d ! i))" if i: "i < length ?c" for i
  proof -
    have mem: "?c ! i \<in> set ?c" "?d ! i \<in> set ?d" using i len by auto
    have "merkleRoot (header (?c ! i)) = merkleRoot (header (?d ! i))"
      using tip_determines [OF _ _ _ _ assms(3,4) len assms(6) nc i] assms(1,2) by (simp add: chain_inv_def)
    then have root: "buildRoot (map txHash (transactions (?c ! i))) = buildRoot (map txHash (transactions (?d ! i)))"
      using assms(1,2) mem by (simp add: chain_inv_def block_formed_def)
    have "length (transactions (?c ! i)) = length (transactions (?d ! i))"
      using arg_cong [OF assms(5), of "\<lambda>l. l ! i"] i len by simp
    moreover have "set (root_texts (map txHash (transactions (?c ! i)))) \<union> set (root_texts (map txHash (transactions (?d ! i))))
                     \<subseteq> hashed_texts ?c \<union> hashed_texts ?d"
      using mem unfolding hashed_texts_def by blast
    ultimately show ?thesis
      using buildRoot_bound [OF root] assms(3,4) mem nc collides_mono unfolding tx_digests_def by auto
  qed
  then show "map (\<lambda>b. map txHash (transactions b)) ?c = map (\<lambda>b. map txHash (transactions b)) ?d"
    using len by (intro nth_equalityI) simp_all
qed

end
