(* ===== verification/Supply.thy ===== *)
theory Supply
  imports Chain_Invariants
begin

text \<open>
  Money: the reward schedule of \<open>Blockchain::getBlockReward\<close> and what bounds the value of the
  unspent outputs. The code does not check amounts when it adds a block; the bound is proved for
  chains whose blocks are honest (\<open>conserving\<close> transactions and a coinbase of at most the reward),
  and then no balance wraps around.
\<close>

section \<open>The reward schedule\<close>

definition halved :: "nat \<Rightarrow> nat" where
  "halved k = 50 div 2 ^ k"

lemma halved_zero: "6 \<le> k \<Longrightarrow> halved k = 0"
proof -
  assume "6 \<le> k"
  then have "(2::nat) ^ 6 \<le> 2 ^ k" by (intro power_increasing) auto
  then show ?thesis by (simp add: halved_def)
qed

lemma reward_at_halved:
  assumes "n < 210000 * 2 ^ 32"
  shows "unat (reward_at n) = halved (n div 210000)"
proof -
  let ?k = "n div 210000"
  have "?k < 2 ^ 32" using assms by (simp add: less_mult_imp_div_less mult.commute)
  then have h: "unat (of_nat ?k :: u32) = ?k" by (simp add: unat_of_nat)
  show ?thesis
  proof (cases "64 \<le> ?k")
    case True
    with h show ?thesis by (simp add: reward_at_def Let_def HALVING_INTERVAL_def halved_zero)
  next
    case False
    have "unat (drop_bit ?k (50 :: u64)) = 50 div 2 ^ ?k"
      by (subst unat_drop_bit_eq) (simp add: drop_bit_eq_div)
    with False h show ?thesis
      by (simp add: reward_at_def Let_def HALVING_INTERVAL_def INITIAL_REWARD_def halved_def)
  qed
qed

text \<open>All rewards together: 20,370,000 coins, below the 21,000,000 of \<open>MAX_SUPPLY\<close>.\<close>

lemma sum_div_block: "(\<Sum>n = m * w ..< m * w + w. f (n div w)) = w * f m" for f :: "nat \<Rightarrow> nat"
proof -
  have "(\<Sum>n = m * w ..< m * w + w. f (n div w)) = (\<Sum>n = m * w ..< m * w + w. f m)"
    by (intro sum.cong refl arg_cong [of _ _ f] div_nat_eqI) (simp_all add: mult.commute)
  then show ?thesis by simp
qed

lemma sum_div_blocks: "(\<Sum>n < k * w. f (n div w)) = (\<Sum>m < k. w * f m)" for f :: "nat \<Rightarrow> nat"
  using sum.nat_group [of "\<lambda>n. f (n div w)" w k] by (simp only: sum_div_block)

lemma halved_total: "(\<Sum>n < 6 * 210000. halved (n div 210000)) = 20370000"
proof -
  have "(\<Sum>m < 6. w * halved m) = w * (halved 0 + halved 1 + halved 2 + halved 3 + halved 4 + halved 5)" for w
    by (simp add: eval_nat_numeral lessThan_Suc algebra_simps)
  then show ?thesis
    unfolding sum_div_blocks by (simp add: halved_def)
qed

lemma reward_sum_le: "N \<le> 210000 * 2 ^ 32 \<Longrightarrow> (\<Sum>n < N. unat (reward_at n)) \<le> 20370000"
proof -
  assume N: "N \<le> 210000 * 2 ^ 32"
  let ?M = "max N (6 * 210000)"
  have "(\<Sum>n < N. unat (reward_at n)) = (\<Sum>n < N. halved (n div 210000))"
    using N by (intro sum.cong) (auto intro: reward_at_halved)
  also have "\<dots> \<le> (\<Sum>n < ?M. halved (n div 210000))"
    by (intro sum_mono2) auto
  also have "\<dots> = (\<Sum>n < 6 * 210000. halved (n div 210000))"
  proof (rule sum.mono_neutral_right)
    show "\<forall>n \<in> {..< ?M} - {..< 6 * 210000}. halved (n div 210000) = 0"
    proof
      fix n assume "n \<in> {..< ?M} - {..< 6 * 210000}"
      then have "6 * 210000 \<le> n" by simp
      then have "6 \<le> n div 210000" by (simp add: less_eq_div_iff_mult_less_eq)
      then show "halved (n div 210000) = 0" by (rule halved_zero)
    qed
  qed auto
  finally show ?thesis using halved_total by simp
qed

section \<open>Value moved by transactions\<close>

definition created :: "Transaction \<Rightarrow> nat" where
  "created tx = sum_list (map (\<lambda>out. unat (amount out)) (outputs tx))"

definition minted :: "Transaction list \<Rightarrow> nat" where
  "minted txs = sum_list (map created (filter isCoinbase txs))"

text \<open>A transaction list pays its way: what is not a coinbase creates no more than it spends.\<close>

fun conserving :: "UTXOSet \<Rightarrow> Transaction list \<Rightarrow> bool" where
  "conserving s [] \<longleftrightarrow> True"
| "conserving s (tx # txs) \<longleftrightarrow>
     (isCoinbase tx \<or> unspent_value (spend_inputs tx s) + created tx \<le> unspent_value s)
     \<and> conserving (apply_tx tx s) txs"

lemma unspent_value_add_le: "unspent_value (addUTXO u s) \<le> unspent_value s + unat (utxo_amount u)"
proof (cases "um_find s (UTXO_key u)")
  case None
  then show ?thesis by (simp add: unspent_value_add)
next
  case (Some w)
  from um_sum_put_old [OF Some, of "\<lambda>u. if utxo_spent u then 0 else unat (utxo_amount u)" u]
  show ?thesis unfolding unspent_value_def addUTXO_def by (simp split: if_splits)
qed

lemma unspent_value_spends: "unspent_value (spend_inputs tx s) \<le> unspent_value s"
proof -
  have "unspent_value (fold (\<lambda>inp s. snd (spendUTXO (prevTxHash inp) (outputIndex inp) s)) ins s) \<le> unspent_value s"
    for ins :: "TxInput list"
    by (induction ins arbitrary: s) (auto intro: order.trans unspent_value_spend_le)
  then show ?thesis by (simp add: spend_inputs_def)
qed

lemma unspent_value_adds:
  "unspent_value (fold addUTXO us s) \<le> unspent_value s + sum_list (map (\<lambda>u. unat (utxo_amount u)) us)"
proof (induction us arbitrary: s)
  case (Cons u us)
  have "unspent_value (fold addUTXO us (addUTXO u s))
          \<le> unspent_value (addUTXO u s) + sum_list (map (\<lambda>u. unat (utxo_amount u)) us)"
    by (rule Cons.IH)
  with unspent_value_add_le [of u s] show ?case by simp
qed simp

lemma created_outputs: "sum_list (map (\<lambda>u. unat (utxo_amount u)) (output_utxos tx)) = created tx"
proof -
  have "sum_list (map (\<lambda>e. unat (amount (snd e))) (enumerate n outs)) = sum_list (map (\<lambda>out. unat (amount out)) outs)"
    for n outs
    by (induction outs arbitrary: n) simp_all
  then show ?thesis
    by (simp add: output_utxos_def created_def output_utxo_def comp_def)
qed

lemma unspent_value_tx: "unspent_value (apply_tx tx s) \<le> unspent_value (spend_inputs tx s) + created tx"
  using unspent_value_adds [of "output_utxos tx" "spend_inputs tx s"]
  by (simp add: apply_tx_def created_outputs)

lemma unspent_value_txs:
  "conserving s txs \<Longrightarrow> unspent_value (fold apply_tx txs s) \<le> unspent_value s + minted txs"
proof (induction txs arbitrary: s)
  case (Cons tx txs)
  have "unspent_value (fold apply_tx txs (apply_tx tx s)) \<le> unspent_value (apply_tx tx s) + minted txs"
    using Cons by simp
  moreover have "unspent_value (apply_tx tx s) \<le> unspent_value s + (if isCoinbase tx then created tx else 0)"
    using unspent_value_tx [of tx s] unspent_value_spends [of tx s] Cons.prems by auto
  ultimately show ?case by (simp add: minted_def split: if_splits)
qed (simp add: minted_def)

section \<open>Honest chains\<close>

text \<open>
  \<open>honest n bc\<close>: a chain of height \<open>n\<close> built from a constructed one by blocks that conserve
  value and mint at most the reward the code announces.
\<close>

inductive honest :: "nat \<Rightarrow> Blockchain \<Rightarrow> bool" where
  start: "\<lbrakk>Blockchain_new disk now0 now_tx now dir = Some (Inr bc); um_ok disk\<rbrakk> \<Longrightarrow> honest 1 bc"
| add: "\<lbrakk>honest n bc; conserving (utxoSet bc) txs; minted txs \<le> unat (getBlockReward bc) * SATOSHIS;
         addBlock now_adj now txs bc = Some bc'\<rbrakk> \<Longrightarrow> honest (n + 1) bc'"

lemma honest_reach: "honest n bc \<Longrightarrow> chain_inv bc \<and> getHeight bc = n"
proof (induction rule: honest.induct)
  case (start disk now0 now_tx now dir bc)
  then show ?case using Blockchain_new_inv by (simp add: getHeight_def)
next
  case (add n bc txs now_adj now bc')
  then show ?case
    using addBlock_height [OF add.hyps(4)] chain_inv_add [OF _ add.hyps(4)] by (auto simp: getHeight_def)
qed

lemma addBlock_utxoSet:
  "addBlock now_adj now txs bc = Some bc' \<Longrightarrow> utxoSet bc' = fold apply_tx txs (utxoSet bc)"
  by (elim addBlock_parts) (simp add: mined_block(4))

lemma genesis_value:
  assumes "createGenesisBlock now_tx now bc = Some (g, bc2)" and "utxoSet bc = um_empty"
  shows "unspent_value (utxoSet bc2) \<le> 50 * SATOSHIS"
proof -
  let ?tx = "createCoinbase now_tx ''RXCGenesisAddress_RexNetwork_2026'' INITIAL_REWARD 0"
  from assms(1) obtain b where g: "Block_mine b = Some g" and "b = Block_new now 0 (replicate 64 (CHR ''0'')) [?tx] (currentDifficulty bc)"
    and bc2: "bc2 = updateUTXOs g bc"
    by (auto simp: createGenesisBlock_def Let_def split: option.splits)
  then have "transactions g = [?tx]" using mined_block(4) by blast
  then have "utxoSet bc2 = fold apply_tx [?tx] um_empty" by (simp add: bc2 assms(2))
  moreover have "unspent_value (fold apply_tx [?tx] um_empty) \<le> unspent_value um_empty + minted [?tx]"
    by (rule unspent_value_txs) simp
  moreover have "unspent_value um_empty = 0" by (simp add: unspent_value_def um_empty_def)
  moreover have "minted [?tx] = 50 * SATOSHIS"
    by (simp add: minted_def created_def INITIAL_REWARD_def SATOSHIS_def)
  ultimately show ?thesis by simp
qed

lemma new_value:
  assumes "Blockchain_new disk now0 now_tx now dir = Some (Inr bc)"
  shows "unspent_value (utxoSet bc) \<le> 50 * SATOSHIS"
proof -
  define b0 where "b0 = \<lparr>chain = [], utxoSet = um_empty,
       bdb = snd (db_open (dir @ ''/chaindata'') (db_new\<lparr>memdb := disk\<rparr>)),
       blockCache = LRU_new 512, currentDifficulty = 4, lastAdjustmentTime = now0, dataDir = dir\<rparr>"
  note new = assms [unfolded Blockchain_new_def Let_def, folded b0_def]
  have e: "utxoSet (b0\<lparr>currentDifficulty := d\<rparr>) = um_empty" "utxoSet b0 = um_empty" for d
    by (simp_all add: b0_def)
  obtain fnd b1 where l: "loadFromDB now_tx now b0 = Some (Inr (fnd, b1))"
    using new by (auto split: option.splits sum.splits)
  show ?thesis
  proof (cases fnd)
    case True
    with l new have "loadFromDB now_tx now b0 = Some (Inr (True, bc))" by simp
    then obtain d g bc2 where "createGenesisBlock now_tx now (b0\<lparr>currentDifficulty := d\<rparr>) = Some (g, bc2)"
      and "bc = bc2\<lparr>chain := chain bc2 @ [g]\<rparr>" by (rule loadFromDB_True)
    with genesis_value e show ?thesis by fastforce
  next
    case False
    with l have "b1 = b0"
      by (auto simp: loadFromDB_def split: option.splits sum.splits if_splits)
    with l False new obtain g bc2 where "createGenesisBlock now_tx now b0 = Some (g, bc2)"
      and "utxoSet bc = utxoSet bc2"
      by (auto split: option.splits)
    with genesis_value e show ?thesis by fastforce
  qed
qed

lemma honest_value:
  "honest n bc \<Longrightarrow> unspent_value (utxoSet bc) \<le> (\<Sum>i < n. unat (reward_at i)) * SATOSHIS"
proof (induction rule: honest.induct)
  case (start disk now0 now_tx now dir bc)
  have "unat (reward_at 0) = 50" using reward_at_halved [of 0] by (simp add: halved_def)
  with new_value [OF start.hyps(1)] show ?case by simp
next
  case (add n bc txs now_adj now bc')
  have "length (chain bc) = n" using honest_reach [OF add.hyps(1)] by (simp add: getHeight_def)
  then have "minted txs \<le> unat (reward_at n) * SATOSHIS" using add.hyps(3) by (simp add: getBlockReward_def)
  with unspent_value_txs [OF add.hyps(2)] add.IH show ?case
    by (simp add: addBlock_utxoSet [OF add.hyps(4)] add_mult_distrib)
qed

lemma honest_supply:
  assumes "honest n bc" and "n \<le> 210000 * 2 ^ 32"
  shows "unspent_value (utxoSet bc) \<le> 20370000 * SATOSHIS"
  using honest_value [OF assms(1)] mult_le_mono1 [OF reward_sum_le [OF assms(2)], of SATOSHIS]
  by (rule order.trans)

lemma honest_balance:
  assumes "honest n bc" and "n \<le> 210000 * 2 ^ 32"
  shows "unat (getBalance addr bc) = address_value addr (utxoSet bc)"
    and "unat (getBalance addr bc) \<le> MAX_SUPPLY * SATOSHIS"
proof -
  have le: "unspent_value (utxoSet bc) \<le> 2037000000000000"
    using honest_supply [OF assms] by (simp add: SATOSHIS_def)
  then show eq: "unat (getBalance addr bc) = address_value addr (utxoSet bc)"
    unfolding getBalance_def by (intro getBalance_exact) simp
  have "unat (getBalance addr bc) \<le> 2037000000000000"
    unfolding eq using address_value_le [of addr "utxoSet bc"] le by linarith
  then show "unat (getBalance addr bc) \<le> MAX_SUPPLY * SATOSHIS"
    by (simp add: MAX_SUPPLY_def SATOSHIS_def)
qed

end
