(* ===== verification/Coherence.thy ===== *)
theory Coherence
  imports Chain_Invariants
begin

text \<open>
  The store and the set of unspent outputs: the entries under \<open>u:\<close> in the store should be the
  unspent outputs. \<open>updateUTXOs\<close> first writes all deletions of a block, then \<open>persistBlock\<close>
  writes all its outputs, so this holds after a block exactly when no transaction of the block
  spends an output an earlier one of the same block creates.
\<close>

section \<open>The abstract effect of a block\<close>

type_synonym outpoint = "string \<times> u32"

definition input_points :: "Transaction \<Rightarrow> outpoint list" where
  "input_points tx = map (\<lambda>inp. (prevTxHash inp, outputIndex inp)) (inputs tx)"

definition output_points :: "Transaction \<Rightarrow> (outpoint \<times> UTXO) list" where
  "output_points tx = map (\<lambda>u. (UTXO_outpoint u, u)) (output_utxos tx)"

lemma unspent_spend_inputs:
  "UTXOSet_ok s \<Longrightarrow> unspent (spend_inputs tx s) = unspent s |` (- set (input_points tx))"
proof -
  assume ok: "UTXOSet_ok s"
  have "spend_inputs tx s = fold (\<lambda>p s. snd (spend_at p s)) (input_points tx) s"
    by (simp add: spend_inputs_def input_points_def fold_map comp_def spend_at_def)
  with utxo.unspent_spend_all [OF ok] show ?thesis by simp
qed

lemma UTXOSet_ok_spend_inputs: "UTXOSet_ok s \<Longrightarrow> UTXOSet_ok (spend_inputs tx s)"
  using utxo.ok_spend_all [of s "input_points tx"]
  by (simp add: spend_inputs_def input_points_def fold_map comp_def spend_at_def)

lemma unspent_apply_tx:
  assumes "UTXOSet_ok s"
  shows "unspent (apply_tx tx s) = (unspent s |` (- set (input_points tx))) ++ map_of (rev (output_points tx))"
  using utxo.unspent_add_all [OF UTXOSet_ok_spend_inputs [OF assms], of "output_utxos tx" tx]
    unspent_spend_inputs [OF assms]
  by (auto simp: apply_tx_def output_points_def output_utxos_def output_utxo_def)

text \<open>No transaction spends an output of an earlier transaction of the list.\<close>

fun no_inner_spend :: "Transaction list \<Rightarrow> bool" where
  "no_inner_spend [] \<longleftrightarrow> True"
| "no_inner_spend (tx # txs) \<longleftrightarrow>
     (\<forall>p \<in> set (map fst (output_points tx)). \<forall>tx' \<in> set txs. p \<notin> set (input_points tx'))
     \<and> no_inner_spend txs"

definition all_inputs :: "Transaction list \<Rightarrow> outpoint list" where
  "all_inputs txs = concat (map input_points txs)"

definition all_outputs :: "Transaction list \<Rightarrow> (outpoint \<times> UTXO) list" where
  "all_outputs txs = concat (map output_points txs)"

lemma restrict_map_add_disjoint:
  "dom n \<inter> A = {} \<Longrightarrow> (m ++ n) |` (- A) = (m |` (- A)) ++ n"
  by (rule ext) (auto simp: restrict_map_def map_add_def dom_def split: option.splits)

lemma unspent_txs:
  assumes "UTXOSet_ok s" and "no_inner_spend txs"
  shows "unspent (fold apply_tx txs s) =
           (unspent s |` (- set (all_inputs txs))) ++ map_of (rev (all_outputs txs))"
  using assms
proof (induction txs arbitrary: s)
  case Nil
  then show ?case by (simp add: all_inputs_def all_outputs_def restrict_map_def)
next
  case (Cons tx txs)
  have IH: "unspent (fold apply_tx txs (apply_tx tx s)) =
      (unspent (apply_tx tx s) |` (- set (all_inputs txs))) ++ map_of (rev (all_outputs txs))"
    using Cons UTXOSet_ok_tx by simp
  have "dom (map_of (rev (output_points tx))) \<inter> set (all_inputs txs) = {}"
    using Cons.prems(2) by (auto simp: dom_map_of_conv_image_fst all_inputs_def)
  then have "unspent (apply_tx tx s) |` (- set (all_inputs txs)) =
      ((unspent s |` (- set (input_points tx))) |` (- set (all_inputs txs))) ++ map_of (rev (output_points tx))"
    unfolding unspent_apply_tx [OF Cons.prems(1)] by (rule restrict_map_add_disjoint)
  with IH show ?case
    by (simp add: all_inputs_def all_outputs_def Compl_Un)
qed

section \<open>The effect on the store\<close>

definition point_key :: "outpoint \<Rightarrow> string" where
  "point_key p = utxoKey (fst p) (snd p)"

definition stored :: "UTXO \<Rightarrow> string" where
  "stored u = utxo_address u @ ''|'' @ nat_str (unat (utxo_amount u)) @ ''|0''"

lemma point_key_inject [simp]: "point_key p = point_key q \<longleftrightarrow> p = q"
  by (cases p; cases q) (simp add: point_key_def)

lemma map_of_filter_keys: "P k \<Longrightarrow> map_of (filter (\<lambda>e. P (fst e)) xs) k = map_of xs k"
  by (induction xs) auto

lemma map_of_point_keys:
  "map_of (map (\<lambda>e. (point_key (fst e), stored (snd e))) xs) (point_key p) = map_option stored (map_of xs p)"
  by (induction xs) auto

definition is_utxo_key :: "string \<Rightarrow> bool" where
  "is_utxo_key k \<longleftrightarrow> take 2 k = ''u:''"

lemma point_key_is [simp]: "is_utxo_key (point_key p)"
  by (simp add: is_utxo_key_def point_key_def utxoKey_def)

lemma tx_puts_utxo:
  "filter (\<lambda>e. is_utxo_key (fst e)) (tx_puts tx) =
     map (\<lambda>e. (point_key (fst e), stored (snd e))) (output_points tx)"
proof -
  have "is_utxo_key (utxoKey h i)" for h i by (simp add: is_utxo_key_def utxoKey_def)
  moreover have "\<not> is_utxo_key (''t:'' @ h)" for h by (simp add: is_utxo_key_def)
  ultimately show ?thesis
    by (simp add: tx_puts_def filter_map comp_def output_points_def output_utxos_def UTXO_outpoint_def
        output_utxo_def point_key_def stored_def utxo_record_def filter_True)
qed

lemma block_puts_utxo:
  "filter (\<lambda>e. is_utxo_key (fst e)) (block_puts b) =
     map (\<lambda>e. (point_key (fst e), stored (snd e))) (all_outputs (transactions b))"
proof -
  have "filter (\<lambda>e. is_utxo_key (fst e)) (concat (map tx_puts txs)) =
        map (\<lambda>e. (point_key (fst e), stored (snd e))) (all_outputs txs)" for txs
    by (induction txs) (simp_all add: all_outputs_def tx_puts_utxo)
  then show ?thesis by (simp add: block_puts_def is_utxo_key_def)
qed

lemma block_puts_lookup:
  "map_of (rev (block_puts b)) (point_key p) = map_option stored (map_of (rev (all_outputs (transactions b))) p)"
proof -
  have "map_of (rev (block_puts b)) (point_key p) =
        map_of (filter (\<lambda>e. is_utxo_key (fst e)) (rev (block_puts b))) (point_key p)"
    by (simp add: map_of_filter_keys [of is_utxo_key])
  also have "\<dots> = map_of (map (\<lambda>e. (point_key (fst e), stored (snd e))) (rev (all_outputs (transactions b)))) (point_key p)"
    by (simp add: block_puts_utxo flip: rev_filter rev_map)
  finally show ?thesis by (simp add: map_of_point_keys)
qed

lemma spent_keys_points: "spent_keys b = map point_key (all_inputs (transactions b))"
  by (simp add: spent_keys_def all_inputs_def map_concat input_points_def point_key_def comp_def)

lemma setMeta_lookup [simp]:
  "db_ok d \<Longrightarrow> db_lookup (snd (setMeta k v d)) (point_key p) = db_lookup d (point_key p)"
  using db.lookup_insert [of d "''meta:'' @ k" v] by (simp add: setMeta_def point_key_def utxoKey_def)

lemma update_lookup:
  assumes "db_ok (bdb bc)"
  shows "db_lookup (bdb (updateUTXOs b bc)) (point_key p) =
           (if p \<in> set (all_inputs (transactions b)) then None else db_lookup (bdb bc) (point_key p))"
proof -
  have "opened (bdb bc)" using assms by (simp add: db_ok_def)
  then show ?thesis
    using writeBatch_lookup [OF assms]
    by (auto simp: updateUTXOs_def fold_batch_del DBBatch_new_def spent_keys_points restrict_map_def)
qed

lemma persist_lookup:
  assumes "db_ok (bdb bc)"
  shows "db_lookup (bdb (persistBlock b bc)) (point_key p) =
           (case map_of (rev (all_outputs (transactions b))) p of
              Some u \<Rightarrow> Some (stored u) | None \<Rightarrow> db_lookup (bdb bc) (point_key p))"
  using writeBatch_lookup [OF assms] block_puts_lookup [of b p]
  by (simp add: persistBlock_def fold_batch_put DBBatch_new_def restrict_map_def map_add_def split: option.splits)

lemma with_block_lookup:
  assumes "db_ok (bdb bc)"
  shows "db_lookup (bdb (with_block b bc)) (point_key p) =
           (case map_of (rev (all_outputs (transactions b))) p of
              Some u \<Rightarrow> Some (stored u)
            | None \<Rightarrow> if p \<in> set (all_inputs (transactions b)) then None else db_lookup (bdb bc) (point_key p))"
  using assms persist_lookup [of "updateUTXOs b bc" b p] update_lookup [OF assms, of b p]
  by (auto simp: bdb_with_block db_ok_persist db_ok_update split: option.split)

section \<open>Coherence\<close>

definition coherent :: "Blockchain \<Rightarrow> bool" where
  "coherent bc \<longleftrightarrow> (\<forall>p. db_lookup (bdb bc) (point_key p) = map_option stored (unspent (utxoSet bc) p))"

lemma coherent_before:
  assumes "db_ok (bdb bc)"
  shows "coherent (before_block now bc) \<longleftrightarrow> coherent bc"
  using assms by (simp add: coherent_def before_block_def adjustDifficulty_def Let_def)

lemma coherent_add:
  assumes "chain_inv bc" and "coherent bc" and "no_inner_spend txs"
    and "addBlock now_adj now txs bc = Some bc'"
  shows "coherent bc'"
proof -
  from assms(4) obtain b where
    b: "Block_mine (Block_new now (of_nat (length (chain bc))) (b_hash (last (chain bc))) txs
          (currentDifficulty (before_block now_adj bc))) = Some b"
    and bc': "bc' = with_block b (before_block now_adj bc)" by (rule addBlock_parts)
  have ok: "db_ok (bdb bc)" "UTXOSet_ok (utxoSet bc)" using assms(1) by (auto simp: chain_inv_def)
  then have ok1: "db_ok (bdb (before_block now_adj bc))"
    by (simp add: before_block_def db_ok_adjust)
  have coh: "coherent (before_block now_adj bc)" using coherent_before ok assms(2) by blast
  have txs: "transactions b = txs" using mined_block(4) [OF b] .
  show ?thesis
    using coh unfolding coherent_def bc' with_block_lookup [OF ok1] with_block_fields txs
      before_block_fields unspent_txs [OF ok(2) assms(3)]
    by (auto simp: map_add_def restrict_map_def split: option.splits)
qed

text \<open>
  The other case: an output made and spent within one block stays in the store, although it is
  no longer unspent.
\<close>

lemma inner_spend_incoherent:
  assumes "chain_inv bc" and "addBlock now_adj now txs bc = Some bc'"
    and "(p, u) \<in> set (all_outputs txs)" and "unspent (fold apply_tx txs (utxoSet bc)) p = None"
  shows "db_lookup (bdb bc') (point_key p) \<noteq> None" and "unspent (utxoSet bc') p = None"
proof -
  from assms(2) obtain b where
    b: "Block_mine (Block_new now (of_nat (length (chain bc))) (b_hash (last (chain bc))) txs
          (currentDifficulty (before_block now_adj bc))) = Some b"
    and bc': "bc' = with_block b (before_block now_adj bc)" by (rule addBlock_parts)
  have ok1: "db_ok (bdb (before_block now_adj bc))"
    using assms(1) by (auto simp: chain_inv_def before_block_def intro: db_ok_adjust)
  have txs: "transactions b = txs" using mined_block(4) [OF b] .
  have "map_of (rev (all_outputs txs)) p \<noteq> None"
    using image_eqI [OF _ assms(3), of p fst] by (simp add: map_of_eq_None_iff)
  then show "db_lookup (bdb bc') (point_key p) \<noteq> None"
    by (auto simp: bc' with_block_lookup [OF ok1] txs)
  show "unspent (utxoSet bc') p = None"
    using assms(4) by (simp add: bc' txs)
qed

end
