(* ===== verification/Chain_Store.thy ===== *)
theory Chain_Store
  imports Supply Coherence
begin

text \<open>
  More of what \<open>addBlock\<close> and the constructor do to the store and to the set of outputs: the
  keys a block writes, the height index, the block a query finds, the store of a new chain, and
  two coinbase transactions with one identifier.
\<close>

section \<open>Keys a block writes\<close>

definition table :: "string \<Rightarrow> string" where
  "table k = take 2 k"

lemma length_heightKey_index:
  assumes "unat i < 1000000000"
  shows "heightKey h \<noteq> ''h:'' @ nat_str (unat i)"
proof
  assume "heightKey h = ''h:'' @ nat_str (unat i)"
  then have "length (nat_str (unat i)) = 10" using length_heightKey [of h] by simp
  moreover have "length (nat_str (unat i)) \<le> 9"
    unfolding nat_str_def using assms by (intro length_num_str_le) simp_all
  ultimately show False by simp
qed

lemma tx_puts_tables: "e \<in> set (tx_puts tx) \<Longrightarrow> table (fst e) = ''t:'' \<or> table (fst e) = ''u:''"
  by (auto simp: tx_puts_def table_def utxoKey_def)

lemma block_puts_other:
  assumes "table k = ''b:'' \<or> table k = ''h:''"
  shows "map_of (rev (block_puts b)) k =
           (if k = ''h:'' @ nat_str (unat (b_index b)) then Some (b_hash b)
            else if k = ''b:'' @ b_hash b then Some (serializeBlock b) else None)"
proof -
  have "k \<notin> fst ` set (concat (map tx_puts (transactions b)))"
    using tx_puts_tables assms by fastforce
  then have "map_of (rev (concat (map tx_puts (transactions b)))) k = None"
    unfolding map_of_eq_None_iff set_rev .
  moreover have "rev (block_puts b) = rev (concat (map tx_puts (transactions b))) @
      [(''h:'' @ nat_str (unat (b_index b)), b_hash b), (''b:'' @ b_hash b, serializeBlock b)]"
    by (simp only: block_puts_def rev_append rev.simps append.simps append_Nil append_assoc)
  ultimately show ?thesis
    by (simp only: map_of_append map_add_def map_of.simps fun_upd_apply fst_conv snd_conv option.case)
qed

lemma with_block_other:
  assumes "db_ok (bdb bc)" and "table k = ''b:'' \<or> table k = ''h:''"
  shows "db_lookup (bdb (with_block b bc)) k =
           (case map_of (rev (block_puts b)) k of Some v \<Rightarrow> Some v | None \<Rightarrow> db_lookup (bdb bc) k)"
proof -
  have kd: "k \<notin> set (spent_keys b)"
    using assms(2) by (auto simp: spent_keys_def utxoKey_def table_def)
  have km: "k \<noteq> ''meta:'' @ s" for s using assms(2) by (auto simp: table_def)
  have ok: "db_ok (bdb (updateUTXOs b bc))" using assms(1) by (rule db_ok_update)
  have up: "db_lookup (bdb (updateUTXOs b bc)) k = db_lookup (bdb bc) k"
    using assms(1) kd writeBatch_lookup [OF assms(1)]
    by (simp add: updateUTXOs_def db_ok_def fold_batch_del DBBatch_new_def restrict_map_def)
  have "db_lookup (bdb (persistBlock b (updateUTXOs b bc))) k =
          (case map_of (rev (block_puts b)) k of Some v \<Rightarrow> Some v | None \<Rightarrow> db_lookup (bdb bc) k)"
    using writeBatch_lookup [OF ok] up
    by (simp add: persistBlock_def fold_batch_put DBBatch_new_def restrict_map_def map_add_def
        split: option.split)
  moreover have "db_ok (bdb (persistBlock b (updateUTXOs b bc)))" using ok by (rule db_ok_persist)
  ultimately show ?thesis
    using km by (simp add: bdb_with_block setMeta_def db.lookup_insert db.ok_insert)
qed

lemma db_get_lookup: "db_ok d \<Longrightarrow> db_get k d = db_lookup d k"
  by (simp add: db_get_def db_ok_def db_lookup_def)

lemma before_block_other:
  assumes "db_ok (bdb bc)" and "table k = ''b:'' \<or> table k = ''h:''"
  shows "db_lookup (bdb (before_block now bc)) k = db_lookup (bdb bc) k"
proof -
  have "k \<noteq> ''meta:'' @ s" for s using assms(2) by (auto simp: table_def)
  with assms(1) show ?thesis
    by (simp add: before_block_def adjustDifficulty_def Let_def setMeta_def db.lookup_insert)
qed

lemma addBlock_db_ok: "chain_inv bc \<Longrightarrow> db_ok (bdb (before_block now bc))"
  by (auto simp: chain_inv_def before_block_def intro: db_ok_adjust)

lemma height_index_lost:
  assumes "chain_inv bc" and "addBlock now_adj now txs bc = Some bc'" and "length (chain bc) < 1000000000"
  shows "getHashAtHeight h (bdb bc') = getHashAtHeight h (bdb bc)"
proof -
  from assms(2) obtain b where
    b: "Block_mine (Block_new now (of_nat (length (chain bc))) (b_hash (last (chain bc))) txs
          (currentDifficulty (before_block now_adj bc))) = Some b"
    and bc': "bc' = with_block b (before_block now_adj bc)" by (rule addBlock_parts)
  have i: "unat (b_index b) < 1000000000"
    using assms(3) mined_block(5) [OF b] by (simp add: unat_of_nat)
  have t: "table (heightKey h) = ''h:''" by (simp add: table_def heightKey_def)
  then have hb: "heightKey h \<noteq> ''b:'' @ b_hash b" by (auto simp: heightKey_def)
  have ok: "db_ok (bdb bc)" using assms(1) by (simp add: chain_inv_def)
  note ok1 = addBlock_db_ok [OF assms(1), of now_adj]
  have "db_lookup (bdb bc') (heightKey h) = db_lookup (bdb bc) (heightKey h)"
    using with_block_other [OF ok1, of "heightKey h" b] block_puts_other [of "heightKey h" b] before_block_other [OF ok, of "heightKey h" now_adj]
      t hb length_heightKey_index [OF i, of h] by (simp add: bc')
  then show ?thesis
    using db_ok_with_block [OF ok1, of b] ok by (simp add: getHashAtHeight_def db_get_lookup bc')
qed

section \<open>The block a query finds\<close>

lemma LRU_get_put:
  assumes "lru_bounded c"
  shows "fst (LRU_get k (LRU_put k v c)) = (if cap c = 0 then None else Some v)"
proof -
  note put = LRU_put_refines [OF assms, of k v]
  have "fst (LRU_get k (LRU_put k v c)) = map_of (spec_put (cap c) k v (lru_abs c)) k"
    using LRU_get_refines(3) [OF put(1), of k] put(3) by (auto simp: spec_get_def split: option.splits)
  then show ?thesis by (cases "cap c") (simp_all add: spec_put_def)
qed

lemma LRU_contains_get: "LRU_contains k c \<longleftrightarrow> fst (LRU_get k c) \<noteq> None"
  by (auto simp: LRU_contains_def um_contains_def LRU_get_def Let_def split: option.split)

lemma fst_getBlockByHash:
  "fst (getBlockByHash h bc) =
     (if LRU_contains (''blk:'' @ h) (blockCache bc) then fst (LRU_get (''blk:'' @ h) (blockCache bc))
      else db_getBlock h (bdb bc))"
  by (simp add: getBlockByHash_def split: prod.split)

lemma added_block_found:
  assumes "chain_inv bc" and "addBlock now_adj now txs bc = Some bc'"
  shows "fst (getBlockByHash (b_hash (last (chain bc'))) bc') = Some (serializeBlock (last (chain bc')))"
proof -
  from assms(2) obtain b where bc': "bc' = with_block b (before_block now_adj bc)" by (rule addBlock_parts)
  let ?k = "''blk:'' @ b_hash b"
  have c: "blockCache bc' = LRU_put ?k (serializeBlock b) (blockCache bc)" by (simp add: bc')
  have "lru_bounded (blockCache bc)" using assms(1) by (simp add: chain_inv_def)
  note get = LRU_get_put [OF this, of ?k "serializeBlock b", folded c]
  note ok1 = addBlock_db_ok [OF assms(1), of now_adj]
  have "table (''b:'' @ b_hash b) = ''b:''" by (simp add: table_def)
  then have "db_lookup (bdb bc') (''b:'' @ b_hash b) = Some (serializeBlock b)"
    using with_block_other [OF ok1, of "''b:'' @ b_hash b" b] block_puts_other [of "''b:'' @ b_hash b" b]
    by (simp add: bc')
  then have "db_getBlock (b_hash b) (bdb bc') = Some (serializeBlock b)"
    using db_ok_with_block [OF ok1, of b] by (simp add: db_getBlock_def db_get_lookup bc')
  then have "fst (getBlockByHash (b_hash b) bc') = Some (serializeBlock b)"
    unfolding fst_getBlockByHash LRU_contains_get get by simp
  then show ?thesis by (simp add: bc')
qed

section \<open>The store of a new chain\<close>

text \<open>A genesis block that is also written makes a store without outputs agree with the set.\<close>

lemma genesis_coherent:
  assumes "db_ok (bdb bc)" and "utxoSet bc = um_empty"
    and "\<And>p. db_lookup (bdb bc) (point_key p) = None"
    and "createGenesisBlock now_tx now bc = Some (g, bc2)"
  shows "coherent (persistBlock g bc2)"
proof -
  from assms(4) obtain tx where bc2: "bc2 = updateUTXOs g bc"
    and g: "Block_mine (Block_new now 0 (replicate 64 (CHR ''0'')) [tx] (currentDifficulty bc)) = Some g"
    by (auto simp: createGenesisBlock_def Let_def split: option.splits)
  have txs: "transactions g = [tx]" using mined_block(4) [OF g] .
  have "unspent um_empty = (\<lambda>_. None)" by (simp add: unspent_def fun_eq_iff)
  then have "unspent (utxoSet bc2) = map_of (rev (all_outputs [tx]))"
    using unspent_txs [of um_empty "[tx]"] assms(2) txs by (simp add: bc2)
  moreover have "db_ok (bdb bc2)" using db_ok_update [OF assms(1)] by (simp add: bc2)
  note persist_lookup [OF this, of g]
  moreover have "db_lookup (bdb bc2) (point_key p) = None" for p
    using update_lookup [OF assms(1)] assms(3) by (simp add: bc2)
  ultimately show ?thesis by (simp add: coherent_def txs split: option.split)
qed

lemma new_on_empty_store_coherent:
  assumes "Blockchain_new um_empty now0 now_tx now dir = Some (Inr bc)"
  shows "coherent bc"
proof -
  define b0 where "b0 = \<lparr>chain = [], utxoSet = um_empty,
       bdb = snd (db_open (dir @ ''/chaindata'') (db_new\<lparr>memdb := um_empty\<rparr>)),
       blockCache = LRU_new 512, currentDifficulty = 4, lastAdjustmentTime = now0, dataDir = dir\<rparr>"
  have ok: "db_ok (bdb b0)" "utxoSet b0 = um_empty" "chain b0 = []"
    by (simp_all add: b0_def db_ok_def db_open_def db_new_def)
  have none: "db_get k (bdb b0) = None" for k
    by (simp add: b0_def db_open_def db_new_def db_get_def)
  have look: "db_lookup (bdb b0) (point_key p) = None" for p
    using none db_get_lookup [OF ok(1)] by simp
  have "loadFromDB now_tx now b0 = Some (Inr (False, b0))"
    by (simp add: loadFromDB_def getMeta_def none)
  with assms [unfolded Blockchain_new_def Let_def, folded b0_def] obtain g bc2 where
    g: "createGenesisBlock now_tx now b0 = Some (g, bc2)"
    and bc: "bc = set_meta ''difficulty'' (nat_str (unat (currentDifficulty bc2)))
               (set_meta ''bestHash'' (b_hash g) (set_meta ''height'' ''1''
               (persistBlock g (bc2\<lparr>chain := chain bc2 @ [g]\<rparr>))))"
    by (auto split: option.splits)
  have c: "coherent (persistBlock g bc2)" using genesis_coherent [OF ok(1,2) look g] .
  have "db_ok (bdb bc2)" using g ok(1)
    by (auto simp: createGenesisBlock_def Let_def split: option.splits intro: db_ok_update)
  then have d: "db_ok (bdb (persistBlock g (bc2\<lparr>chain := chain bc2 @ [g]\<rparr>)))"
    by (intro db_ok_persist) simp
  have "bdb (persistBlock g (bc2\<lparr>chain := chain bc2 @ [g]\<rparr>)) = bdb (persistBlock g bc2)"
    by (simp add: persistBlock_def Let_def)
  with c d show ?thesis by (simp add: coherent_def bc)
qed

section \<open>Transactions nobody checks\<close>

text \<open>A transaction that creates value from nothing is accepted like any other.\<close>

lemma fresh_output_unspent:
  assumes "UTXOSet_ok s" and "out = \<lparr>amount = a, out_address = addr, scriptPubKey = sc\<rparr>"
  shows "unspent (apply_tx (Transaction_create now [] [out]) s)
           (txHash (Transaction_create now [] [out]), 0) =
         Some \<lparr>utxo_txHash = txHash (Transaction_create now [] [out]), utxo_outputIndex = 0,
               utxo_address = addr, utxo_amount = a, utxo_spent = False\<rparr>"
  unfolding unspent_apply_tx [OF assms(1)]
  by (simp add: output_points_def output_utxos_def output_utxo_def UTXO_outpoint_def assms(2) del: create_txHash)

lemma map_add_twice: "(m ++ n) ++ n = m ++ n"
  by (rule ext) (simp add: map_add_def split: option.split)

text \<open>
  Two coinbase transactions of one miner with one time and reward have one identifier, so the
  second replaces the output of the first: the set is the one with the first alone.
\<close>

lemma same_coinbase_lost:
  assumes "UTXOSet_ok s"
  shows "unspent (apply_tx (createCoinbase now a r h') (apply_tx (createCoinbase now a r h) s))
           = unspent (apply_tx (createCoinbase now a r h) s)"
proof -
  let ?t = "createCoinbase now a r h" and ?t' = "createCoinbase now a r h'"
  have "outputs ?t' = outputs ?t" "txHash ?t' = txHash ?t"
    using createCoinbase_height_ignored [of now a r h' h] by (simp_all only: createCoinbase_fields)
  then have pts: "output_points ?t' = output_points ?t" "length (output_points ?t) = 1"
    by (simp_all add: output_points_def output_utxos_def)
  have ins: "input_points ?t' = input_points ?t" "input_points ?t = [(replicate 64 (CHR ''0''), 0xFFFFFFFF)]"
    by (simp_all add: input_points_def createCoinbase_def Let_def Transaction_new_def)
  have "fst p \<noteq> (replicate 64 (CHR ''0''), 0xFFFFFFFF)" if "p \<in> set (output_points ?t)" for p
    using that by (auto simp: output_points_def output_utxos_def UTXO_outpoint_def output_utxo_def)
  then have "dom (map_of (rev (output_points ?t))) \<inter> set (input_points ?t) = {}"
    unfolding ins dom_map_of_conv_image_fst set_rev by fastforce
  from restrict_map_add_disjoint [OF this] show ?thesis
    unfolding unspent_apply_tx [OF UTXOSet_ok_tx [OF assms]] unspent_apply_tx [OF assms] pts ins
    by (simp add: map_add_twice)
qed

end
