(* ===== verification/Demo_Chain.thy ===== *)
theory Demo_Chain
  imports Chain_Store
begin

text \<open>
  A concrete chain for the witnesses: a store that recorded difficulty 0, so that every hash meets
  the target and mining returns at once whatever the hash is, a genesis block and one block that
  pays the reward to one address and then spends part of it.
\<close>

definition demo_disk :: "(string, string) umap" where
  "demo_disk = [(''meta:height'', ''1''), (''meta:difficulty'', ''0'')]"

definition demo_start :: Blockchain where
  "demo_start =
     (case Blockchain_new demo_disk 0 0 0 ''data'' of Some (Inr bc) \<Rightarrow> bc | _ \<Rightarrow> undefined)"

definition demo_txs :: "Transaction list" where
  "demo_txs = [createCoinbase 10 ''alice'' 50 1]"

definition demo_next :: Blockchain where
  "demo_next = the (addBlock 20 30 demo_txs demo_start)"

lemma Block_mine_0: "difficulty (header b) = 0 \<Longrightarrow> Block_mine b = Some b"
  by (subst Block_mine.simps) simp

lemma demo_numbers: "stoul10 ''1'' = Inr 1" "stoul10 ''0'' = Inr 0"
proof -
  have "nat_str 1 = ''1''" "nat_str 0 = ''0''"
    by (simp_all add: nat_str_def num_str.simps digit_char_def) code_simp+
  then show "stoul10 ''1'' = Inr 1" "stoul10 ''0'' = Inr 0"
    using stoul10_nat_str [of 1] stoul10_nat_str [of 0] by (simp_all add: npos_def)
qed

lemma demo_new: "Blockchain_new demo_disk 0 0 0 ''data'' = Some (Inr demo_start)"
  and demo_difficulty: "currentDifficulty demo_start = 0"
proof -
  define b0 where "b0 = \<lparr>chain = [], utxoSet = um_empty,
       bdb = snd (db_open (''data'' @ ''/chaindata'') (db_new\<lparr>memdb := demo_disk\<rparr>)),
       blockCache = LRU_new 512, currentDifficulty = 4, lastAdjustmentTime = 0, dataDir = ''data''\<rparr>"
  have meta: "getMeta ''height'' (bdb b0) = Some ''1''" "getMeta ''difficulty'' (bdb b0) = Some ''0''"
    by (simp_all add: b0_def getMeta_def db_get_def db_open_def db_new_def demo_disk_def)
  obtain g bc2 where gen: "createGenesisBlock 0 0 (b0\<lparr>currentDifficulty := 0\<rparr>) = Some (g, bc2)"
    and bc2: "bc2 = updateUTXOs g (b0\<lparr>currentDifficulty := 0\<rparr>)"
    by (simp add: createGenesisBlock_def Let_def Block_mine_0)
  have "loadFromDB 0 0 b0 = Some (Inr (True, bc2\<lparr>chain := chain bc2 @ [g]\<rparr>))"
    using gen by (simp add: loadFromDB_def meta demo_numbers)
  then have new: "Blockchain_new demo_disk 0 0 0 ''data'' = Some (Inr (bc2\<lparr>chain := chain bc2 @ [g]\<rparr>))"
    unfolding Blockchain_new_def Let_def b0_def [symmetric] by simp
  then show "Blockchain_new demo_disk 0 0 0 ''data'' = Some (Inr demo_start)"
    by (simp add: demo_start_def)
  from new show "currentDifficulty demo_start = 0"
    by (simp add: demo_start_def bc2)
qed

lemma demo_disk_ok: "um_ok demo_disk"
  by (simp add: um_ok_def demo_disk_def)

lemma demo_start_inv: "chain_inv demo_start" and demo_start_height: "length (chain demo_start) = 1"
  using Blockchain_new_inv [OF demo_new demo_disk_ok] by auto

lemma addBlock_0:
  assumes "length (chain bc) = 1" and "currentDifficulty bc = 0"
  shows "\<exists>bc'. addBlock a n txs bc = Some bc'"
  using assms by (simp add: addBlock_def Let_def DIFFICULTY_WINDOW_def Block_mine_0)

lemma demo_add: "addBlock 20 30 demo_txs demo_start = Some demo_next"
  using addBlock_0 [OF demo_start_height demo_difficulty, of 20 30 demo_txs] by (auto simp: demo_next_def)

lemma demo_reach: "chain_reach demo_start 2 demo_next"
  using chain_reach.add [OF chain_reach.start [OF demo_new demo_disk_ok] demo_add] by (simp add: numeral_2_eq_2)

lemma demo_txs_honest:
  "conserving s demo_txs" "minted demo_txs = 50 * SATOSHIS"
  by (simp_all add: demo_txs_def minted_def created_def SATOSHIS_def)

lemma demo_honest: "honest 2 demo_next"
proof -
  have "unat (getBlockReward demo_start) = 50"
    using reward_at_halved [of 1] by (simp add: getBlockReward_def demo_start_height halved_def)
  then show ?thesis
    using honest.add [OF honest.start [OF demo_new demo_disk_ok] _ _ demo_add] demo_txs_honest
    by (simp add: numeral_2_eq_2)
qed

lemma demo_no_inner_spend: "no_inner_spend demo_txs"
  by (simp add: demo_txs_def)

text \<open>The same start with its genesis block written, as the constructor does on an empty store.\<close>

definition demo_written :: Blockchain where
  "demo_written = persistBlock (hd (chain demo_start)) demo_start"

lemma demo_start_parts:
  "\<exists>b0 g bc2. db_ok (bdb b0) \<and> utxoSet b0 = um_empty \<and> (\<forall>p. db_lookup (bdb b0) (point_key p) = None)
     \<and> createGenesisBlock 0 0 b0 = Some (g, bc2) \<and> demo_start = bc2\<lparr>chain := [g]\<rparr>"
proof -
  define b0 where "b0 = \<lparr>chain = [], utxoSet = um_empty,
       bdb = snd (db_open (''data'' @ ''/chaindata'') (db_new\<lparr>memdb := demo_disk\<rparr>)),
       blockCache = LRU_new 512, currentDifficulty = 4, lastAdjustmentTime = 0, dataDir = ''data''\<rparr>"
  let ?b = "b0\<lparr>currentDifficulty := 0\<rparr>"
  have meta: "getMeta ''height'' (bdb b0) = Some ''1''" "getMeta ''difficulty'' (bdb b0) = Some ''0''"
    by (simp_all add: b0_def getMeta_def db_get_def db_open_def db_new_def demo_disk_def)
  obtain g bc2 where gen: "createGenesisBlock 0 0 ?b = Some (g, bc2)"
    and bc2: "bc2 = updateUTXOs g ?b"
    by (simp add: createGenesisBlock_def Let_def Block_mine_0)
  have c: "chain bc2 = []" by (simp add: bc2 b0_def)
  have "loadFromDB 0 0 b0 = Some (Inr (True, bc2\<lparr>chain := chain bc2 @ [g]\<rparr>))"
    using gen by (simp add: loadFromDB_def meta demo_numbers)
  then have "Blockchain_new demo_disk 0 0 0 ''data'' = Some (Inr (bc2\<lparr>chain := [g]\<rparr>))"
    unfolding Blockchain_new_def Let_def b0_def [symmetric] by (simp add: c)
  then have "demo_start = bc2\<lparr>chain := [g]\<rparr>" by (simp add: demo_new)
  moreover have "db_ok (bdb ?b)" "utxoSet ?b = um_empty"
    using demo_disk_ok by (simp_all add: b0_def db_ok_def db_open_def db_new_def)
  moreover have "db_lookup (bdb ?b) (point_key p) = None" for p
    by (simp add: b0_def db_lookup_def db_get_def db_open_def db_new_def demo_disk_def point_key_def utxoKey_def)
  ultimately show ?thesis using gen by blast
qed

lemma demo_written_coherent: "coherent demo_written"
proof -
  obtain b0 g bc2 where b0: "db_ok (bdb b0)" "utxoSet b0 = um_empty" "\<forall>p. db_lookup (bdb b0) (point_key p) = None"
    and g: "createGenesisBlock 0 0 b0 = Some (g, bc2)" and d: "demo_start = bc2\<lparr>chain := [g]\<rparr>"
    using demo_start_parts by blast
  have "coherent (persistBlock g bc2)" using genesis_coherent [OF b0(1,2) _ g] b0(3) by simp
  then show ?thesis by (simp add: demo_written_def d coherent_def persistBlock_def Let_def)
qed

lemma demo_written_inv: "chain_inv demo_written"
  by (simp add: demo_written_def chain_inv_persist demo_start_inv)

lemma demo_written_height: "length (chain demo_written) = 1" "currentDifficulty demo_written = 0"
  by (simp_all add: demo_written_def demo_start_height demo_difficulty)

lemma demo_next_digests: "tx_digests (chain demo_next)"
proof -
  obtain b0 g bc2 where g: "createGenesisBlock 0 0 b0 = Some (g, bc2)" and d: "demo_start = bc2\<lparr>chain := [g]\<rparr>"
    using demo_start_parts by blast
  from g obtain a r h where "transactions g = [createCoinbase 0 a r h]"
    by (auto simp: createGenesisBlock_def Let_def mined_block(4) split: option.splits)
  moreover obtain b where "chain demo_next = chain demo_start @ [b]" "transactions b = demo_txs"
    using addBlock_height [OF demo_add] by blast
  ultimately show ?thesis by (simp add: tx_digests_def digests_def d demo_txs_def)
qed

end
