(* ===== verification/Std_Sort.thy ===== *)
theory Std_Sort
  imports Prelude
begin

text \<open>
  \<open>std::sort\<close> with a comparison that puts greater keys first, as the pool of transactions and the
  peer scores use it. What the standard promises is the predicate \<open>std_sort\<close> on the sorting
  function; picking the first elements of its result is picking the best.
\<close>

section \<open>The contract\<close>

definition std_sort :: "(('a \<Rightarrow> 'a \<Rightarrow> bool) \<Rightarrow> 'a list \<Rightarrow> 'a list) \<Rightarrow> bool" where
  "std_sort sort_by \<longleftrightarrow>
     (\<forall>f :: 'a \<Rightarrow> int. \<forall>xs. mset (sort_by (\<lambda>a b. f b < f a) xs) = mset xs
        \<and> sorted_wrt (\<lambda>a b. f b \<le> f a) (sort_by (\<lambda>a b. f b < f a) xs))"

lemma std_sort_set:
  "std_sort sort_by \<Longrightarrow> set (sort_by (\<lambda>a b. f b < (f a :: int)) xs) = set xs"
  "std_sort sort_by \<Longrightarrow> length (sort_by (\<lambda>a b. f b < (f a :: int)) xs) = length xs"
  unfolding std_sort_def by (metis set_mset_mset, metis size_mset)

text \<open>No element behind a prefix of the sorted list has a greater key than one in the prefix.\<close>

lemma std_sort_best:
  assumes "std_sort sort_by" and "a \<in> set (take n (sort_by (\<lambda>a b. f b < (f a :: int)) xs))"
    and "b \<in> set xs" and "b \<notin> set (take n (sort_by (\<lambda>a b. f b < f a) xs))"
  shows "f b \<le> f a"
proof -
  let ?p = "sort_by (\<lambda>a b. f b < f a) xs"
  have "b \<in> set (drop n ?p)"
    using assms(3,4) std_sort_set(1) [OF assms(1), of f xs] by (metis append_take_drop_id set_append Un_iff)
  moreover have "sorted_wrt (\<lambda>a b. f b \<le> f a) (take n ?p @ drop n ?p)"
    using assms(1) by (simp add: std_sort_def)
  ultimately show ?thesis using assms(2) unfolding sorted_wrt_append by blast
qed

text \<open>The same for keys that are machine words.\<close>

lemma std_sort_word:
  fixes f :: "'a \<Rightarrow> 'b::len word"
  assumes "std_sort sort_by"
  shows "mset (sort_by (\<lambda>a b. f b < f a) xs) = mset xs"
    and "\<lbrakk>a \<in> set (take n (sort_by (\<lambda>a b. f b < f a) xs)); b \<in> set xs;
          b \<notin> set (take n (sort_by (\<lambda>a b. f b < f a) xs))\<rbrakk> \<Longrightarrow> f b \<le> f a"
proof -
  have eq: "(\<lambda>a b. f b < f a) = (\<lambda>a b. uint (f b) < uint (f a))" by (simp add: word_less_def)
  show "mset (sort_by (\<lambda>a b. f b < f a) xs) = mset xs"
    using assms unfolding eq std_sort_def by (elim allE [of _ "\<lambda>a. uint (f a)"]) simp
  show "f b \<le> f a"
    if "a \<in> set (take n (sort_by (\<lambda>a b. f b < f a) xs))" "b \<in> set xs"
      "b \<notin> set (take n (sort_by (\<lambda>a b. f b < f a) xs))"
    using std_sort_best [OF assms, of a n "\<lambda>a. uint (f a)" xs b] that
    unfolding eq by (simp add: word_le_def)
qed

section \<open>A sort that satisfies it\<close>

fun insert_by :: "('a \<Rightarrow> 'a \<Rightarrow> bool) \<Rightarrow> 'a \<Rightarrow> 'a list \<Rightarrow> 'a list" where
  "insert_by lt x [] = [x]"
| "insert_by lt x (y # ys) = (if lt y x then y # insert_by lt x ys else x # y # ys)"

definition insertion_sort :: "('a \<Rightarrow> 'a \<Rightarrow> bool) \<Rightarrow> 'a list \<Rightarrow> 'a list" where
  "insertion_sort lt xs = foldr (insert_by lt) xs []"

lemma mset_insert_by [simp]: "mset (insert_by lt x ys) = add_mset x (mset ys)"
  by (induction ys) auto

lemma set_insert_by [simp]: "set (insert_by lt x ys) = insert x (set ys)"
  by (induction ys) auto

lemma sorted_insert_by:
  "sorted_wrt (\<lambda>a b. f b \<le> f a) ys \<Longrightarrow> sorted_wrt (\<lambda>a b. f b \<le> f a) (insert_by (\<lambda>a b. f b < f a) x ys)"
  for f :: "'a \<Rightarrow> 'b::linorder"
  by (induction ys) (auto dest: order.trans less_imp_le simp: not_less)

lemma insertion_sort_std: "std_sort insertion_sort"
proof -
  have "mset (insertion_sort lt xs) = mset xs" for lt :: "'a \<Rightarrow> 'a \<Rightarrow> bool" and xs
    by (induction xs) (auto simp: insertion_sort_def)
  moreover have "sorted_wrt (\<lambda>a b. f b \<le> f a) (insertion_sort (\<lambda>a b. f b < f a) xs)"
    for f :: "'a \<Rightarrow> int" and xs
    by (induction xs) (auto simp: insertion_sort_def intro: sorted_insert_by)
  ultimately show ?thesis unfolding std_sort_def by blast
qed

end
