(* ===== verification/Mempool.thy ===== *)
theory Mempool
  imports Transaction Unordered_Map Std_Sort
begin

text \<open>
  \<open>src/src/core/mempool.{h,cpp}\<close>: the pool of unconfirmed transactions. \<open>std::sort\<close> is an
  argument, \<open>sort_by\<close>, of which only what the standard promises is used: it permutes, and no
  element comes after one the comparison puts behind it. Console output is left out.
\<close>

section \<open>Operations\<close>

type_synonym Mempool = "(string, Transaction) umap"

definition MAX_SIZE :: nat where "MAX_SIZE = 5000"
definition MAX_BLOCK_TXS :: nat where "MAX_BLOCK_TXS = 2000"

definition Mempool_add :: "Transaction \<Rightarrow> Mempool \<Rightarrow> bool \<times> Mempool" where
  "Mempool_add tx txs =
     (if length txs \<ge> MAX_SIZE then (False, txs)
      else if \<not> Transaction_isValid tx then (False, txs)
      else if um_contains txs (txHash tx) then (False, txs)
      else (True, um_put (txHash tx) tx txs))"

definition Mempool_remove :: "string \<Rightarrow> Mempool \<Rightarrow> Mempool" where
  "Mempool_remove h txs = um_erase h txs"

definition removeConfirmed :: "string list \<Rightarrow> Mempool \<Rightarrow> Mempool" where
  "removeConfirmed hashes txs = fold um_erase hashes txs"

definition feeRate :: "Transaction \<Rightarrow> u64" where
  "feeRate tx =
     (let size = length (Transaction_serialize tx) in if size = 0 then 0 else fee tx div of_nat size)"

definition getTopTxs ::
  "((Transaction \<Rightarrow> Transaction \<Rightarrow> bool) \<Rightarrow> Transaction list \<Rightarrow> Transaction list) \<Rightarrow> nat \<Rightarrow> Mempool
     \<Rightarrow> Transaction list" where
  "getTopTxs sort_by cnt txs =
     (let ptrs = sort_by (\<lambda>a b. feeRate b < feeRate a) (map snd txs)
      in map (\<lambda>i. ptrs ! i) [0 ..< min cnt (length ptrs)])"

definition Mempool_contains :: "string \<Rightarrow> Mempool \<Rightarrow> bool" where
  "Mempool_contains h txs \<longleftrightarrow> um_contains txs h"

definition Mempool_get :: "string \<Rightarrow> Mempool \<Rightarrow> Transaction option" where
  "Mempool_get h txs = um_find txs h"

definition Mempool_size :: "Mempool \<Rightarrow> nat" where
  "Mempool_size txs = length txs"

definition Mempool_empty :: "Mempool \<Rightarrow> bool" where
  "Mempool_empty txs \<longleftrightarrow> txs = []"

definition totalFees :: "Mempool \<Rightarrow> u64" where
  "totalFees txs = um_sum fee txs"

definition Mempool_clear :: "Mempool \<Rightarrow> Mempool" where
  "Mempool_clear txs = um_empty"

section \<open>The invariant\<close>

definition pool_ok :: "Mempool \<Rightarrow> bool" where
  "pool_ok txs \<longleftrightarrow> um_ok txs \<and> length txs \<le> MAX_SIZE
     \<and> (\<forall>h tx. um_find txs h = Some tx \<longrightarrow> txHash tx = h \<and> Transaction_isValid tx)"

datatype pool_op = Add Transaction | Remove string | Confirm "string list" | Clear

fun pool_apply :: "pool_op \<Rightarrow> Mempool \<Rightarrow> Mempool" where
  "pool_apply (Add tx) txs = snd (Mempool_add tx txs)"
| "pool_apply (Remove h) txs = Mempool_remove h txs"
| "pool_apply (Confirm hs) txs = removeConfirmed hs txs"
| "pool_apply Clear txs = Mempool_clear txs"

lemma pool_ok_erase [preserves]: "pool_ok txs \<Longrightarrow> pool_ok (um_erase h txs)"
  using length_um_erase_le [of h txs] by (auto simp: pool_ok_def)

lemma pool_ok_erase_all [preserves]: "pool_ok txs \<Longrightarrow> pool_ok (fold um_erase hs txs)"
  by (induction hs arbitrary: txs) (auto intro: preserves)

lemma pool_ok_add [preserves]: "pool_ok txs \<Longrightarrow> pool_ok (snd (Mempool_add tx txs))"
  by (auto simp: pool_ok_def Mempool_add_def length_um_put)

lemma pool_ok_empty [simp]: "pool_ok um_empty"
  by (simp add: pool_ok_def um_empty_def um_ok_def MAX_SIZE_def)

lemma pool_apply_ok: "pool_ok txs \<Longrightarrow> pool_ok (pool_apply x txs)"
  by (cases x) (auto simp: Mempool_remove_def removeConfirmed_def Mempool_clear_def intro: preserves)

interpretation pool: preserved pool_apply pool_ok
  by unfold_locales (rule pool_apply_ok)

text \<open>When a transaction is taken, and what the pool then holds.\<close>

lemma Mempool_add_accepts:
  "fst (Mempool_add tx txs) \<longleftrightarrow>
     length txs < MAX_SIZE \<and> Transaction_isValid tx \<and> um_find txs (txHash tx) = None"
  by (auto simp: Mempool_add_def um_contains_def)

lemma Mempool_add_get:
  "Mempool_get h (snd (Mempool_add tx txs)) =
     (if fst (Mempool_add tx txs) \<and> h = txHash tx then Some tx else Mempool_get h txs)"
  by (auto simp: Mempool_add_def Mempool_get_def)

lemma removeConfirmed_get:
  assumes "pool_ok txs"
  shows "Mempool_get h (removeConfirmed hs txs) = (if h \<in> set hs then None else Mempool_get h txs)"
proof -
  have "um_ok txs" using assms by (simp add: pool_ok_def)
  from um.lookup_erase_all [OF this, of hs] show ?thesis
    by (simp add: Mempool_get_def removeConfirmed_def restrict_map_def)
qed

section \<open>Selection\<close>

lemma map_nth_take: "n \<le> length xs \<Longrightarrow> map (\<lambda>i. xs ! i) [0 ..< n] = take n xs"
  by (rule nth_equalityI) simp_all

text \<open>
  The selection has the size asked for or the whole pool, has no transaction twice, and no
  transaction left out has a higher fee rate than one taken.
\<close>

lemma getTopTxs_best:
  assumes "std_sort sort_by" and "pool_ok txs"
  shows "length (getTopTxs sort_by n txs) = min n (length txs)"
    and "distinct (map txHash (getTopTxs sort_by n txs))"
    and "set (getTopTxs sort_by n txs) \<subseteq> snd ` set txs"
    and "\<lbrakk>a \<in> set (getTopTxs sort_by n txs); b \<in> snd ` set txs; b \<notin> set (getTopTxs sort_by n txs)\<rbrakk>
           \<Longrightarrow> feeRate b \<le> feeRate a"
proof -
  let ?p = "sort_by (\<lambda>a b. feeRate b < feeRate a) (map snd txs)"
  have p: "mset ?p = mset (map snd txs)" by (rule std_sort_word(1) [OF assms(1)])
  have len: "length ?p = length txs" and set: "set ?p = snd ` set txs"
    using p by (metis length_map size_mset, metis image_set set_mset_mset)
  have top: "getTopTxs sort_by n txs = take n ?p"
    by (simp add: getTopTxs_def Let_def map_nth_take take_all_iff min_def)
  have "map txHash (map snd txs) = map fst txs"
    using assms(2) um_in_find [of txs] by (auto simp: pool_ok_def)
  moreover have "distinct (map fst txs)" using assms(2) by (simp add: pool_ok_def um_ok_def)
  moreover have "mset (map txHash ?p) = mset (map txHash (map snd txs))"
    using p by (simp only: mset_map)
  ultimately have "distinct (map txHash ?p)" by (metis mset_eq_imp_distinct_iff)
  then show "distinct (map txHash (getTopTxs sort_by n txs))"
    by (simp add: top distinct_take flip: take_map)
  show "length (getTopTxs sort_by n txs) = min n (length txs)" by (simp add: top len min.commute)
  show "set (getTopTxs sort_by n txs) \<subseteq> snd ` set txs" using set_take_subset [of n ?p] set top by simp
  show "feeRate b \<le> feeRate a"
    if "a \<in> set (getTopTxs sort_by n txs)" "b \<in> snd ` set txs" "b \<notin> set (getTopTxs sort_by n txs)"
    using std_sort_word(2) [OF assms(1), of a n feeRate "map snd txs" b] that by (simp add: top)
qed

text \<open>Every fee is 0, because the value of the inputs is never looked up: the order is vacuous.\<close>

lemma feeRate_zero [simp]: "feeRate tx = 0"
  by (simp add: feeRate_def Let_def)

lemma totalFees_zero: "totalFees txs = 0"
  by (induction txs) (simp_all add: totalFees_def)

section \<open>Properties\<close>

text \<open>The transactions picked for a block are as many as asked for or all there are, without
  repetition, all from the pool, and none left out pays a higher fee rate than one picked, for any
  sorting function that satisfies the standard's contract.\<close>

theorem top_transactions:
  assumes "std_sort sort_by" and "pool_ok txs"
  shows "length (getTopTxs sort_by n txs) = min n (length txs)
       \<and> distinct (map txHash (getTopTxs sort_by n txs))
       \<and> set (getTopTxs sort_by n txs) \<subseteq> snd ` set txs
       \<and> (\<forall>a b. a \<in> set (getTopTxs sort_by n txs) \<and> b \<in> snd ` set txs \<and> b \<notin> set (getTopTxs sort_by n txs)
            \<longrightarrow> feeRate b \<le> feeRate a)"
  using getTopTxs_best [OF assms] by blast

theorem top_transactions_witness:
  "length (getTopTxs insertion_sort 3 (snd (Mempool_add (createCoinbase 1 ''a'' 50 1) um_empty))) = 1"
proof -
  have "pool_ok (snd (Mempool_add (createCoinbase 1 ''a'' 50 1) um_empty))"
    by (rule pool_ok_add) simp
  from top_transactions [OF insertion_sort_std this, of 3] show ?thesis
    by (simp add: Mempool_add_def Transaction_isValid_def MAX_SIZE_def um_contains_def um_empty_def um_put_def
        del: createCoinbase_txHash)
qed

text \<open>C21: Through any sequence of insertions, removals, confirmations and clearings the pool holds at
  most 5000 well-formed transactions, each under its own identifier; it takes a transaction exactly
  when there is room, its structure is right and its identifier is new.\<close>

theorem pool_invariant:
  "length (fold pool_apply ops um_empty) \<le> MAX_SIZE
   \<and> {h. \<exists>tx. Mempool_get h (fold pool_apply ops um_empty) = Some tx
            \<and> \<not> (txHash tx = h \<and> Transaction_isValid tx)} = {}
   \<and> (fst (Mempool_add tx (fold pool_apply ops um_empty)) \<longleftrightarrow>
        length (fold pool_apply ops um_empty) < MAX_SIZE \<and> Transaction_isValid tx
        \<and> Mempool_get (txHash tx) (fold pool_apply ops um_empty) = None)"
  using pool.run [OF pool_ok_empty, of ops] Mempool_add_accepts [of tx "fold pool_apply ops um_empty"]
  by (auto simp: pool_ok_def Mempool_get_def)

end
