(* ===== verification/Script.thy ===== *)
theory Script
  imports ECDSA
begin

text \<open>
  \<open>src/src/core/script.{h,cpp}\<close>: scripts as text. \<open>find\<close> results are \<open>size_t\<close>, so the code's
  \<open>find(..) + 11\<close> and \<open>end - start\<close> wrap around and \<open>substr\<close> may throw.
\<close>

section \<open>Operations\<close>

datatype ScriptType = P2PKH | P2SH | P2PK | UNKNOWN

definition buildP2PKH :: "string \<Rightarrow> string" where
  "buildP2PKH pubKeyHash = ''OP_DUP OP_HASH160 '' @ pubKeyHash @ '' OP_EQUALVERIFY OP_CHECKSIG''"

definition buildP2SH :: "string \<Rightarrow> string" where
  "buildP2SH scriptHash = ''OP_HASH160 '' @ scriptHash @ '' OP_EQUAL''"

definition buildUnlockP2PKH :: "string \<Rightarrow> string \<Rightarrow> string" where
  "buildUnlockP2PKH sigHex pubKeyHex = sigHex @ '' '' @ pubKeyHex"

definition verifyP2PKH :: "('e, 'z) openssl_scheme \<Rightarrow> string \<Rightarrow> string \<Rightarrow> string \<Rightarrow> bool result" where
  "verifyP2PKH ssl lockScript unlockScript txHash =
     (let start = sz_add (str_find lockScript ''OP_HASH160 '') 11;
          end_pos = str_find lockScript '' OP_EQUALVERIFY''
      in if start = npos \<or> end_pos = npos then Inr False
         else bind_result (str_substr lockScript start (sz_sub end_pos start)) (\<lambda>expectedHash.
           let sp = str_find unlockScript '' ''
           in if sp = npos then Inr False
              else
                bind_result (str_substr unlockScript 0 sp) (\<lambda>sigHex.
                bind_result (str_substr unlockScript (sz_add sp 1) npos) (\<lambda>pubKeyHex.
                bind_result (hexToBytes pubKeyHex) (\<lambda>pubBytes.
                bind_result (Hash160_hash (string_of pubBytes)) (\<lambda>computedHash.
                  if computedHash \<noteq> expectedHash then Inr False
                  else
                    bind_result (str_substr sigHex 0 64) (\<lambda>r.
                    bind_result (str_substr sigHex 64 64) (\<lambda>s.
                      ECDSA_verify ssl pubKeyHex txHash \<lparr>sig_r = r, sig_s = s, sig_der = []\<rparr>))))))))"

definition detectType :: "string \<Rightarrow> ScriptType" where
  "detectType script =
     (if str_find script ''OP_DUP OP_HASH160'' \<noteq> npos then P2PKH
      else if str_find script ''OP_HASH160'' \<noteq> npos \<and> str_find script ''OP_EQUAL'' \<noteq> npos then P2SH
      else if str_find script ''OP_CHECKSIG'' \<noteq> npos then P2PK
      else UNKNOWN)"

definition extractAddress :: "string \<Rightarrow> string result" where
  "extractAddress lockScript =
     (if detectType lockScript = P2PKH then
        let start = sz_add (str_find lockScript ''OP_HASH160 '') 11;
            end_pos = str_find lockScript '' OP_EQUALVERIFY''
        in if start \<noteq> npos \<and> end_pos \<noteq> npos
           then str_substr lockScript start (sz_sub end_pos start)
           else Inr []
      else Inr [])"

section \<open>Positions in a built script\<close>

text \<open>A hash or an address: no space, and not the letter a following operator starts with.\<close>

definition script_word :: "string \<Rightarrow> bool" where
  "script_word w \<longleftrightarrow> CHR '' '' \<notin> set w \<and> CHR ''O'' \<notin> set w"

lemma script_word_first:
  assumes "script_word w"
  shows "\<not> starts_with (CHR '' '' # CHR ''O'' # p) (CHR '' '' # w @ CHR '' '' # s)"
  using assms by (cases w) (auto simp: starts_with_def script_word_def)

lemma P2PKH_start: "str_find (buildP2PKH w) ''OP_HASH160 '' = 7"
  by (simp add: str_find_def str_find_from_def buildP2PKH_def starts_with_def)

lemma P2PKH_end:
  assumes "script_word w"
  shows "str_find (buildP2PKH w) '' OP_EQUALVERIFY'' = 18 + length w"
proof -
  have "CHR '' '' \<notin> set w" using assms by (simp add: script_word_def)
  then have "find_idx '' OP_EQUALVERIFY'' (w @ '' OP_EQUALVERIFY OP_CHECKSIG'') = Some (length w)"
    by (simp add: find_idx_skip starts_with_def)
  moreover have "\<not> starts_with '' OP_EQUALVERIFY'' (CHR '' '' # w @ '' OP_EQUALVERIFY OP_CHECKSIG'')"
    using script_word_first [OF assms] by simp
  ultimately show ?thesis
    by (simp add: str_find_def str_find_from_def buildP2PKH_def) (simp add: starts_with_def)
qed

lemma P2PKH_word:
  assumes "script_word w" and "length w < 2 ^ 32"
  shows "str_substr (buildP2PKH w) (sz_add (str_find (buildP2PKH w) ''OP_HASH160 '') 11)
           (sz_sub (str_find (buildP2PKH w) '' OP_EQUALVERIFY'') (sz_add (str_find (buildP2PKH w) ''OP_HASH160 '') 11))
         = Inr w"
  using assms
  by (simp add: P2PKH_start P2PKH_end sz_add_small sz_sub_small str_substr_def)
    (simp add: buildP2PKH_def)

lemma detectType_P2PKH: "detectType (buildP2PKH w) = P2PKH"
  by (simp add: detectType_def str_find_def str_find_from_def buildP2PKH_def starts_with_def npos_def)

text \<open>The address a locking script was built for is the one that is extracted.\<close>

lemma extractAddress_buildP2PKH:
  assumes "script_word w" and "length w < 2 ^ 32"
  shows "extractAddress (buildP2PKH w) = Inr w"
  using assms P2PKH_word [OF assms]
  by (simp add: extractAddress_def detectType_P2PKH Let_def P2PKH_start P2PKH_end sz_add_small npos_def)

section \<open>Verification\<close>

lemma hex_script_word: "is_hex h \<Longrightarrow> script_word h"
  by (auto simp: script_word_def is_hex_def list_all_iff digit_val_def)

lemma find_space: "CHR '' '' \<notin> set a \<Longrightarrow> str_find (a @ '' '' @ b) '' '' = length a"
  using find_idx_char [of "CHR '' ''" a b] by (simp add: str_find_def str_find_from_def)

text \<open>
  What verification comes down to on a built pair: the key hashes to the word of the locking
  script, and the signature verifies.
\<close>

lemma verifyP2PKH_built:
  assumes "script_word w" and "length w < 2 ^ 32" and "is_hex sigHex" and "length sigHex < 2 ^ 32"
    and "length pubKeyHex < 2 ^ 32"
    and "hexToBytes pubKeyHex = Inr pb" and "Hash160_hash (string_of pb) = Inr computed"
  shows "verifyP2PKH ssl (buildP2PKH w) (buildUnlockP2PKH sigHex pubKeyHex) txHash =
           (if computed \<noteq> w then Inr False
            else if length sigHex < 64 then Inl Out_of_range
            else ECDSA_verify ssl pubKeyHex txHash
                   \<lparr>sig_r = take 64 sigHex, sig_s = take 64 (drop 64 sigHex), sig_der = []\<rparr>)"
proof -
  have "CHR '' '' \<notin> set sigHex" using hex_script_word [OF assms(3)] by (simp add: script_word_def)
  then have sp: "str_find (buildUnlockP2PKH sigHex pubKeyHex) '' '' = length sigHex"
    unfolding buildUnlockP2PKH_def by (rule find_space)
  have sub: "str_substr (buildUnlockP2PKH sigHex pubKeyHex) (length sigHex + 1) npos = Inr pubKeyHex"
    using assms(5) by (simp add: buildUnlockP2PKH_def str_substr_def npos_def)
  have sg: "take (length sigHex) (buildUnlockP2PKH sigHex pubKeyHex) = sigHex"
    by (simp add: buildUnlockP2PKH_def)
  have sub2: "str_substr sigHex 64 64 =
      (if length sigHex < 64 then Inl Out_of_range else Inr (take 64 (drop 64 sigHex)))"
    by (simp add: str_substr_def)
  have "str_substr sigHex 0 64 = Inr (take 64 sigHex)" by simp
  moreover have "str_substr (buildUnlockP2PKH sigHex pubKeyHex) 0 (length sigHex) = Inr sigHex"
    using sg by simp
  ultimately show ?thesis
    using assms P2PKH_word [OF assms(1,2)] sp sub sub2
    by (simp add: verifyP2PKH_def Let_def P2PKH_start P2PKH_end sz_add_small npos_def
        del: str_substr_prefix)
qed

section \<open>Properties\<close>

lemma signature_lengths:
  assumes "openssl_correct ssl" and "ECDSA_sign ssl e privHex hashHex = Inr sig" and "sig_r sig \<noteq> []"
  shows "length (sig_r sig) = 64" and "length (sig_s sig) = 64"
    and "is_hex (sig_r sig)" and "is_hex (sig_s sig)"
proof -
  obtain p h rb sb der where "ossl_sign ssl e p h = Some (rb, sb, der)"
    and "sig_r sig = bytesToHex rb" "sig_s sig = bytesToHex sb"
    using assms(2,3) by (auto simp: ECDSA_sign_def split: option.splits)
  moreover from this have "length rb = 32 \<and> length sb = 32"
    using openssl_correctD(4) [OF assms(1)] by blast
  ultimately show "length (sig_r sig) = 64" "length (sig_s sig) = 64" "is_hex (sig_r sig)" "is_hex (sig_s sig)"
    by simp_all
qed

lemma ECDSA_verify_der:
  "ECDSA_verify ssl pub h \<lparr>sig_r = sig_r sig, sig_s = sig_s sig, sig_der = d\<rparr> = ECDSA_verify ssl pub h sig"
  by (simp add: ECDSA_verify_def)

text \<open>C16: A payment to the hash of a public key can be unlocked with the key: the locking script
  built for the hash, the unlocking script built from a signature of the transaction hash and the
  public key verify, and the hash can be read back from the locking script.\<close>

theorem payment_unlocks:
  assumes "openssl_correct ssl" and "is_hex privHex" and "is_hex hashHex"
    and "ECDSA_sign ssl e privHex hashHex = Inr sig" and "sig_r sig \<noteq> []"
    and "ECDSA_derivePublicKey ssl privHex = Inr pub"
    and "hexToBytes pub = Inr pb" and "Hash160_hash (string_of pb) = Inr h160"
  shows "verifyP2PKH ssl (buildP2PKH h160) (buildUnlockP2PKH (sig_r sig @ sig_s sig) pub) hashHex = Inr True
       \<and> extractAddress (buildP2PKH h160) = Inr h160"
proof -
  note len = signature_lengths [OF assms(1,4,5)]
  have w: "script_word h160" "length h160 < 2 ^ 32"
    using Hash160_hash_ok [of "string_of pb"] assms(8) hex_script_word by auto
  have "length (ossl_public ssl p) = 33" for p using openssl_correctD(1) [OF assms(1)] .
  then have pl: "length pub < 2 ^ 32"
    using assms(6) by (auto simp: ECDSA_derivePublicKey_def)
  have "ECDSA_verify ssl pub hashHex sig = Inr True"
    using ECDSA_verify_sign [OF assms(1-5)] assms(6) by simp
  then have "verifyP2PKH ssl (buildP2PKH h160) (buildUnlockP2PKH (sig_r sig @ sig_s sig) pub) hashHex = Inr True"
    using verifyP2PKH_built [OF w, of "sig_r sig @ sig_s sig" pub pb h160 ssl hashHex] len pl assms(7,8)
    by (simp add: ECDSA_verify_der)
  with extractAddress_buildP2PKH [OF w] show ?thesis by simp
qed

theorem payment_unlocks_witness:
  "\<exists>(sig :: Signature) pub h160. verifyP2PKH echo_ssl (buildP2PKH h160) (buildUnlockP2PKH (sig_r sig @ sig_s sig) pub) ''ab'' = Inr True
     \<and> extractAddress (buildP2PKH h160) = Inr h160"
proof -
  have hex: "is_hex ''01''" "is_hex ''ab''" by code_simp+
  obtain pb where pb: "hexToBytes ''01'' = Inr pb" using hexToBytes_hex [OF hex(1)] by blast
  obtain hb where hb: "hexToBytes ''ab'' = Inr hb" using hexToBytes_hex [OF hex(2)] by blast
  define sig where "sig = \<lparr>sig_r = bytesToHex (str_resize pb 32 0), sig_s = bytesToHex (str_resize (str_resize hb 32 0) 32 0), sig_der = []\<rparr>"
  have sg: "ECDSA_sign echo_ssl 0 ''01'' ''ab'' = Inr sig"
    unfolding ECDSA_sign_def pb hb by (simp add: echo_ssl_def sig_def)
  have "length (sig_r sig) = 64" by (simp add: sig_def)
  then have ne: "sig_r sig \<noteq> []" by auto
  have pub: "ECDSA_derivePublicKey echo_ssl ''01'' = Inr (bytesToHex (ossl_public echo_ssl pb))"
    unfolding ECDSA_derivePublicKey_def pb by simp
  obtain h where "Hash160_hash (string_of (ossl_public echo_ssl pb)) = Inr h"
    using Hash160_hash_ok by blast
  with payment_unlocks [OF echo_ssl_correct hex sg ne pub hexToBytes_bytesToHex] show ?thesis by blast
qed

end
