(* ===== verification/PoW.thy ===== *)
theory PoW
  imports SHA256 Nonce_Loop
begin

text \<open>
  \<open>src/src/consensus/pow.{h,cpp}\<close>: the stand-alone proof of work. \<open>mine\<close> returns the nonce
  and the hash it writes to \<open>outHash\<close>. Timing and the console line are left out.
\<close>

section \<open>Operations\<close>

definition pow_digest :: "string \<Rightarrow> u64 \<Rightarrow> string" where
  "pow_digest blockData n = double_hash (blockData @ nat_str (unat n))"

partial_function (option) pow_loop :: "string \<Rightarrow> u32 \<Rightarrow> u64 \<Rightarrow> (u64 \<times> string) option" where
  "pow_loop blockData d n =
     (let outHash = pow_digest blockData n
      in if take (unat d) outHash = replicate (unat d) (CHR ''0'') then Some (n, outHash)
         else pow_loop blockData d (n + 1))"

definition ProofOfWork_mine :: "string \<Rightarrow> u32 \<Rightarrow> (u64 \<times> string) option" where
  "ProofOfWork_mine blockData d = pow_loop blockData d 0"

definition meetsTarget :: "string \<Rightarrow> u32 \<Rightarrow> bool" where
  "meetsTarget hash d \<longleftrightarrow>
     (if length hash < unat d then False else take (unat d) hash = replicate (unat d) (CHR ''0''))"

definition ProofOfWork_verify :: "string \<Rightarrow> u32 \<Rightarrow> u64 \<Rightarrow> string \<Rightarrow> bool" where
  "ProofOfWork_verify blockData d n hash \<longleftrightarrow>
     (let computed = pow_digest blockData n in computed = hash \<and> meetsTarget hash d)"

text \<open>
  The double starts at 1 and is multiplied by 16, which is exact up to the overflow at \<open>2\<^sup>1\<^sup>0\<^sup>2\<^sup>4\<close>;
  \<open>None\<close> is infinity, which stays.
\<close>

definition times16 :: "nat option \<Rightarrow> nat option" where
  "times16 x = (case x of None \<Rightarrow> None | Some r \<Rightarrow> if 16 * r < 2 ^ 1024 then Some (16 * r) else None)"

definition estimateHashRate :: "u32 \<Rightarrow> nat option" where
  "estimateHashRate d = fold (\<lambda>i expected. times16 expected) [0..<unat d] (Some 1)"

section \<open>Lemmas\<close>

lemma times16_power: "times16 (Some (16 ^ n)) = (if n < 255 then Some (16 ^ Suc n) else None)"
proof -
  have "(16 :: nat) * 16 ^ n = (2 ^ 4) ^ Suc n" by simp
  also have "\<dots> = 2 ^ (4 * Suc n)" by (rule power_mult [symmetric])
  finally have "(16 :: nat) * 16 ^ n < 2 ^ 1024 \<longleftrightarrow> n < 255" by (simp only: power_strict_increasing_iff) auto
  then show ?thesis by (simp only: times16_def option.case power_Suc)
qed

lemma estimateHashRate_power: "estimateHashRate d = (if unat d < 256 then Some (16 ^ unat d) else None)"
proof -
  have "fold (\<lambda>i expected. times16 expected) [0..<n] (Some 1) = (if n < 256 then Some (16 ^ n) else None)" for n
  proof (induction n)
    case (Suc n)
    have "times16 None = None" by (simp add: times16_def)
    with Suc times16_power [of n] show ?case by simp
  qed simp
  then show ?thesis by (simp add: estimateHashRate_def)
qed

lemma meetsTarget_prefix: "meetsTarget h d \<longleftrightarrow> take (unat d) h = replicate (unat d) (CHR ''0'')"
proof -
  have "unat d \<le> length h" if "take (unat d) h = replicate (unat d) (CHR ''0'')"
    using arg_cong [OF that, of length] by simp
  then show ?thesis by (auto simp: meetsTarget_def)
qed

text \<open>A target for difficulty \<open>d\<close> is one for every lower difficulty.\<close>

lemma meetsTarget_mono:
  assumes "meetsTarget h d" and "d' \<le> d"
  shows "meetsTarget h d'"
proof -
  have le: "unat d' \<le> unat d" using assms(2) by (simp add: word_le_nat_alt)
  have "take (unat d') h = take (unat d') (take (unat d) h)" using le by (simp add: min_absorb1)
  with assms(1) le show ?thesis by (simp add: meetsTarget_prefix min_absorb1)
qed

definition pow_attempt :: "string \<Rightarrow> u32 \<Rightarrow> u64 \<Rightarrow> (u64 \<times> string) option" where
  "pow_attempt blockData d n =
     (if meetsTarget (pow_digest blockData n) d then Some (n, pow_digest blockData n) else None)"

lemma pow_loop_least:
  assumes "\<And>n. P n \<Longrightarrow> pow_attempt blockData d n = None \<and> P (n + 1)" and "P n"
  shows "pow_loop blockData d n = None"
proof -
  have "\<not> P n" if "pow_loop blockData d n = Some r" for n r
  proof (rule pow_loop.raw_induct [OF _ that, of "\<lambda>bd e n r. bd = blockData \<and> e = d \<longrightarrow> \<not> P n", THEN mp])
    fix loop :: "string \<Rightarrow> u32 \<Rightarrow> u64 \<Rightarrow> (u64 \<times> string) option" and bd e n r
    assume IH: "\<And>bd e n r. loop bd e n = Some r \<Longrightarrow> bd = blockData \<and> e = d \<longrightarrow> \<not> P n"
      and rec: "(let outHash = pow_digest bd n
            in if take (unat e) outHash = replicate (unat e) (CHR ''0'') then Some (n, outHash)
               else loop bd e (n + 1)) = Some r"
    show "bd = blockData \<and> e = d \<longrightarrow> \<not> P n"
      using rec assms(1) [of n] IH [of bd e "n + 1" r]
      by (auto simp: pow_attempt_def meetsTarget_prefix Let_def split: if_splits)
  qed simp
  with \<open>P n\<close> show ?thesis by (cases "pow_loop blockData d n") auto
qed

interpretation pow: nonce_loop "pow_loop bd d" "pow_attempt bd d" "\<lambda>n. n + 1" "\<lambda>_ n. n" for bd d
proof
  show "pow_loop bd d n = (case pow_attempt bd d n of Some r \<Rightarrow> Some r | None \<Rightarrow> pow_loop bd d (n + 1))" for n
    by (subst pow_loop.simps) (simp add: pow_attempt_def meetsTarget_prefix Let_def)
  show "n + 1 = n + (1 :: u64)" for n ..
qed (rule pow_loop_least)

text \<open>\<open>mine\<close> returns exactly when some nonce verifies, and then with the least one.\<close>

lemma ProofOfWork_mine_returns:
  "(\<exists>r. ProofOfWork_mine bd d = Some r) \<longleftrightarrow> (\<exists>n. ProofOfWork_verify bd d n (pow_digest bd n))"
  using pow.returns_iff [of bd d 0] by (simp add: ProofOfWork_mine_def pow_attempt_def ProofOfWork_verify_def)

lemma unat_of_nat_le: "unat (of_nat k :: u64) \<le> k"
  by (simp add: unat_of_nat)

lemma ProofOfWork_mine_least:
  assumes "ProofOfWork_mine bd d = Some (n, h)"
  shows "ProofOfWork_verify bd d n h \<and> (\<forall>m < n. \<not> ProofOfWork_verify bd d m (pow_digest bd m))"
proof -
  from pow.first_nonce [of bd d 0] assms obtain k
    where k: "pow_attempt bd d (of_nat k) = Some (n, h)"
      and least: "\<forall>j < k. pow_attempt bd d (of_nat j) = None"
    by (auto simp: ProofOfWork_mine_def)
  from k have n: "n = of_nat k" and h: "h = pow_digest bd n" "meetsTarget h d"
    by (auto simp: pow_attempt_def split: if_splits)
  have "\<not> ProofOfWork_verify bd d m (pow_digest bd m)" if "m < n" for m
  proof -
    from that have "unat m < k"
      using unat_of_nat_le [of k] by (simp add: n word_less_nat_alt)
    with least have "pow_attempt bd d (of_nat (unat m)) = None" by blast
    then have "pow_attempt bd d m = None" by simp
    then show ?thesis by (auto simp: pow_attempt_def ProofOfWork_verify_def split: if_splits)
  qed
  with h show ?thesis by (auto simp: ProofOfWork_verify_def)
qed

lemma ProofOfWork_mine_diverges:
  assumes "64 < unat d"
  shows "ProofOfWork_mine bd d = None"
proof -
  have "\<not> ProofOfWork_verify bd d n (pow_digest bd n)" for n
    using assms by (simp add: ProofOfWork_verify_def meetsTarget_def pow_digest_def)
  then show ?thesis using ProofOfWork_mine_returns [of bd d] by (cases "ProofOfWork_mine bd d") auto
qed

section \<open>Properties\<close>


end
