(* ===== verification/Pruning.thy ===== *)
theory Pruning
  imports Prelude
begin

text \<open>
  \<open>src/src/storage/pruning.{h,cpp}\<close>: the pruner keeps the last \<open>keepBlocks\<close> blocks and
  reports how many more it has dropped. Heights are 32-bit; the console line is left out.
\<close>

record ChainPruner =
  keepBlocks :: u32
  prunedHeight :: u32

definition ChainPruner_new :: "u32 \<Rightarrow> ChainPruner" where
  "ChainPruner_new keep = \<lparr>keepBlocks = keep, prunedHeight = 0\<rparr>"

definition prune :: "u32 \<Rightarrow> ChainPruner \<Rightarrow> u32 \<times> ChainPruner" where
  "prune currentHeight p =
     (if currentHeight \<le> keepBlocks p then (0, p)
      else let target = currentHeight - keepBlocks p;
               pruned = target - prunedHeight p
           in (pruned, p\<lparr>prunedHeight := target\<rparr>))"

text \<open>Calls in order, with the sum of what they report.\<close>

fun prune_all :: "u32 list \<Rightarrow> ChainPruner \<Rightarrow> nat \<times> ChainPruner" where
  "prune_all [] p = (0, p)"
| "prune_all (h # hs) p =
     (let (n, p') = prune h p; (total, p'') = prune_all hs p' in (unat n + total, p''))"

text \<open>
  While heights do not go down, nothing is reported twice: the reports add up to the height
  pruned so far, and that is below the height by the number of blocks kept.
\<close>

definition prunable :: "u32 \<Rightarrow> ChainPruner \<Rightarrow> bool" where
  "prunable h p \<longleftrightarrow> unat (prunedHeight p) \<le> unat h - unat (keepBlocks p)"

lemma prune_step:
  assumes "prunable h p"
  shows "unat (prunedHeight (snd (prune h p))) = unat (prunedHeight p) + unat (fst (prune h p))"
    and "keepBlocks (snd (prune h p)) = keepBlocks p"
    and "h \<le> h' \<Longrightarrow> prunable h' (snd (prune h p))"
    and "unat (prunedHeight (snd (prune h p))) = (if h \<le> keepBlocks p then unat (prunedHeight p) else unat h - unat (keepBlocks p))"
proof -
  note d = prune_def Let_def prunable_def word_le_nat_alt
  have t: "unat (h - keepBlocks p) = unat h - unat (keepBlocks p)" if "\<not> h \<le> keepBlocks p"
    using that by (intro unat_sub_no_wrap) (simp add: word_le_nat_alt)
  then have s: "unat (h - keepBlocks p - prunedHeight p) = unat h - unat (keepBlocks p) - unat (prunedHeight p)"
    if "\<not> h \<le> keepBlocks p"
    using that assms by (subst unat_sub_no_wrap) (auto simp: prunable_def)
  show "unat (prunedHeight (snd (prune h p))) = unat (prunedHeight p) + unat (fst (prune h p))"
    using assms s t by (auto simp: prune_def Let_def prunable_def)
  show "keepBlocks (snd (prune h p)) = keepBlocks p"
    by (simp add: prune_def Let_def)
  show "prunable h' (snd (prune h p))" if "h \<le> h'"
    using assms t that by (auto simp: prune_def Let_def prunable_def word_le_nat_alt)
  show "unat (prunedHeight (snd (prune h p))) = (if h \<le> keepBlocks p then unat (prunedHeight p) else unat h - unat (keepBlocks p))"
    using t by (simp add: prune_def Let_def)
qed

lemma prune_all_total:
  assumes "sorted hs" and "hs \<noteq> [] \<longrightarrow> prunable (hd hs) p"
  shows "unat (prunedHeight (snd (prune_all hs p))) = unat (prunedHeight p) + fst (prune_all hs p)"
  using assms
proof (induction hs arbitrary: p)
  case (Cons h hs)
  then have p: "prunable h p" by simp
  have "hs \<noteq> [] \<longrightarrow> prunable (hd hs) (snd (prune h p))"
    using Cons.prems(1) prune_step(3) [OF p] by (cases hs) auto
  with Cons prune_step(1) [OF p] show ?case
    by (auto simp: split_beta Let_def)
qed simp

text \<open>When the height goes down, the subtraction wraps and billions of blocks are reported.\<close>

lemma prune_wraps:
  assumes "keepBlocks p < h" and "h - keepBlocks p < prunedHeight p"
  shows "2 ^ 32 - unat (prunedHeight p) \<le> unat (fst (prune h p))"
proof -
  have lt: "unat (h - keepBlocks p) < unat (prunedHeight p)"
    using assms(2) by (simp add: word_less_nat_alt)
  then have "unat (h - keepBlocks p - prunedHeight p) = 2 ^ 32 + unat (h - keepBlocks p) - unat (prunedHeight p)"
    by (subst unat_sub_if_size) (simp add: word_size)
  with assms(1) show ?thesis by (simp add: prune_def Let_def not_le)
qed

end
