(* ===== verification/PoS.thy ===== *)
theory PoS
  imports SHA256 Unordered_Map
begin

text \<open>
  \<open>src/src/consensus/pos.{h,cpp}\<close>: validators, their selection by stake, and rewards. Amounts are
  64-bit and wrap around. Console output is left out.
\<close>

section \<open>Operations\<close>

record Validator =
  v_address :: string
  stake :: u64
  rewards :: u64
  active :: bool

type_synonym ProofOfStake = "(string, Validator) umap"

definition MIN_STAKE :: u64 where "MIN_STAKE = 1000 * 100000000"

definition addValidator :: "string \<Rightarrow> u64 \<Rightarrow> ProofOfStake \<Rightarrow> ProofOfStake result" where
  "addValidator address stakeAmount vs =
     (if stakeAmount < MIN_STAKE then Inl (Runtime_error ''Stake too low. Minimum: 1000 RXC'')
      else Inr (um_put address
             \<lparr>v_address = address, stake = stakeAmount, rewards = 0, active = True\<rparr> vs))"

definition removeValidator :: "string \<Rightarrow> ProofOfStake \<Rightarrow> ProofOfStake" where
  "removeValidator address vs =
     (case um_find vs address of None \<Rightarrow> vs | Some v \<Rightarrow> um_put address (v\<lparr>active := False\<rparr>) vs)"

definition totalStaked :: "ProofOfStake \<Rightarrow> u64" where
  "totalStaked vs = um_sum (\<lambda>v. if active v then stake v else 0) vs"

text \<open>The first eight characters of the digest as one number, and the walk over the map.\<close>

definition seed_number :: "string \<Rightarrow> u64" where
  "seed_number seed =
     foldl (\<lambda>pick i. push_bit 8 pick OR of_nat (of_char (SHA256_hash seed ! i))) 0 [0 ..< 8]"

fun pick_loop :: "u64 \<Rightarrow> u64 \<Rightarrow> ProofOfStake \<Rightarrow> string option" where
  "pick_loop pick cumulative [] = None"
| "pick_loop pick cumulative ((addr, v) # vs) =
     (if \<not> active v then pick_loop pick cumulative vs
      else let cumulative = cumulative + stake v
           in if pick < cumulative then Some addr else pick_loop pick cumulative vs)"

definition selectValidator :: "string \<Rightarrow> ProofOfStake \<Rightarrow> string" where
  "selectValidator seed vs =
     (if vs = [] then []
      else let total = totalStaked vs
           in if total = 0 then []
              else case pick_loop (seed_number seed mod total) 0 vs of
                     Some addr \<Rightarrow> addr
                   | None \<Rightarrow> fst (hd vs))"

definition validateBlock :: "string \<Rightarrow> string \<Rightarrow> ProofOfStake \<Rightarrow> bool" where
  "validateBlock validatorAddress blockHash vs =
     (case um_find vs validatorAddress of None \<Rightarrow> False | Some v \<Rightarrow> active v)"

definition share :: "u64 \<Rightarrow> u64 \<Rightarrow> Validator \<Rightarrow> u64" where
  "share totalReward tot v = (totalReward * stake v) div tot"

definition distributeRewards :: "u64 \<Rightarrow> ProofOfStake \<Rightarrow> ProofOfStake" where
  "distributeRewards totalReward vs =
     (let total = totalStaked vs
      in if total = 0 then vs
         else map (\<lambda>(addr, v). (addr, if active v then v\<lparr>rewards := rewards v + share totalReward total v\<rparr> else v)) vs)"

definition getValidators :: "ProofOfStake \<Rightarrow> Validator list" where
  "getValidators vs = map snd vs"

section \<open>The invariant\<close>

definition pos_ok :: "ProofOfStake \<Rightarrow> bool" where
  "pos_ok vs \<longleftrightarrow> um_ok vs \<and> (\<forall>k v. um_find vs k = Some v \<longrightarrow> v_address v = k \<and> MIN_STAKE \<le> stake v)"

datatype pos_op = AddV string u64 | RemoveV string | Reward u64

fun pos_apply :: "pos_op \<Rightarrow> ProofOfStake \<Rightarrow> ProofOfStake" where
  "pos_apply (AddV a s) vs = (case addValidator a s vs of Inr vs' \<Rightarrow> vs' | Inl _ \<Rightarrow> vs)"
| "pos_apply (RemoveV a) vs = removeValidator a vs"
| "pos_apply (Reward r) vs = distributeRewards r vs"

lemma um_find_map: "um_find (map (\<lambda>(k, v). (k, f v)) m) k = map_option f (um_find m k)"
  by (simp add: um_find_def map_of_map)

lemma pos_apply_ok: "pos_ok vs \<Longrightarrow> pos_ok (pos_apply x vs)"
proof (cases x)
  case (Reward r)
  assume ok: "pos_ok vs"
  let ?f = "\<lambda>v. if active v then v\<lparr>rewards := rewards v + share r (totalStaked vs) v\<rparr> else v"
  have "um_ok (map (\<lambda>(k, v). (k, ?f v)) vs)"
    using ok by (simp add: pos_ok_def um_ok_def comp_def split_def)
  with ok Reward show ?thesis
    by (auto simp: distributeRewards_def Let_def pos_ok_def um_find_map split: if_splits)
qed (auto simp: pos_ok_def addValidator_def removeValidator_def not_less split: option.splits sum.splits if_splits)

interpretation pos: preserved pos_apply pos_ok
  by unfold_locales (rule pos_apply_ok)

lemma pos_ok_empty: "pos_ok um_empty"
  by (simp add: pos_ok_def)

section \<open>Selection is by stake\<close>

definition staked :: "ProofOfStake \<Rightarrow> nat" where
  "staked vs = um_sum (\<lambda>v. if active v then unat (stake v) else 0) vs"

definition stake_of :: "string \<Rightarrow> ProofOfStake \<Rightarrow> nat" where
  "stake_of a vs = (case um_find vs a of Some v \<Rightarrow> if active v then unat (stake v) else 0 | None \<Rightarrow> 0)"

lemma staked_simps [simp]:
  "staked [] = 0" "staked ((a, v) # vs) = (if active v then unat (stake v) else 0) + staked vs"
  by (simp_all add: staked_def)

lemma unat_totalStaked: "staked vs < 2 ^ 64 \<Longrightarrow> unat (totalStaked vs) = staked vs"
proof -
  assume "staked vs < 2 ^ 64"
  moreover have "staked vs = sum_list (map unat (map (\<lambda>e. if active (snd e) then stake (snd e) else 0) vs))"
    unfolding staked_def um_sum_def by (induction vs) auto
  ultimately show ?thesis
    using unat_sum_list_no_wrap [of "map (\<lambda>e. if active (snd e) then stake (snd e) else 0) vs"]
    by (simp add: totalStaked_def um_sum_def)
qed

lemma card_Ico_split:
  assumes "(c::nat) \<le> m" and "m \<le> n"
  shows "card {p. c \<le> p \<and> p < n \<and> P p} = card {p. c \<le> p \<and> p < m \<and> P p} + card {p. m \<le> p \<and> p < n \<and> P p}"
proof -
  have "{p. c \<le> p \<and> p < n \<and> P p} = {p. c \<le> p \<and> p < m \<and> P p} \<union> {p. m \<le> p \<and> p < n \<and> P p}"
    using assms by auto
  moreover have "{p. c \<le> p \<and> p < m \<and> P p} \<inter> {p. m \<le> p \<and> p < n \<and> P p} = {}" by auto
  moreover have "finite {p. c \<le> p \<and> p < m \<and> P p}" "finite {p. m \<le> p \<and> p < n \<and> P p}"
    by (rule finite_subset [of _ "{..<m}"]; auto) (rule finite_subset [of _ "{..<n}"]; auto)
  ultimately show ?thesis by (simp add: card_Un_disjoint)
qed

lemma pick_loop_count:
  assumes "um_ok vs" and "c + staked vs < 2 ^ 64"
  shows "card {p. c \<le> p \<and> p < c + staked vs \<and> pick_loop (of_nat p) (of_nat c) vs = Some a} = stake_of a vs"
  using assms
proof (induction vs arbitrary: c)
  case Nil
  then show ?case by (simp add: stake_of_def)
next
  case (Cons e vs)
  obtain k v where e: "e = (k, v)" by (cases e)
  have ok: "um_ok vs" and new: "um_find vs k = None"
    using Cons.prems(1) by (auto simp: um_ok_def e um_find_None_iff)
  show ?case
  proof (cases "active v")
    case False
    with Cons.IH [OF ok, of c] Cons.prems(2) show ?thesis
      using new by (cases "k = a") (auto simp: e stake_of_def)
  next
    case True
    define m where "m = c + unat (stake v)"
    have m: "c \<le> m" "m \<le> c + staked (e # vs)" "m + staked vs = c + staked (e # vs)" "m < 2 ^ 64"
      using True Cons.prems(2) by (auto simp: m_def e)
    have cum: "of_nat c + stake v = of_nat m" by (simp add: m_def)
    have lt: "(of_nat p < (of_nat m :: u64)) = (p < m)" if "p < c + staked (e # vs)" for p
      using that m(4) Cons.prems(2) by (simp add: word_less_nat_alt unat_of_nat)
    have step: "pick_loop (of_nat p) (of_nat c) (e # vs) = (if p < m then Some k else pick_loop (of_nat p) (of_nat m) vs)"
      if "p < c + staked (e # vs)" for p
      using True lt [OF that] by (simp add: e cum)
    have "{p. c \<le> p \<and> p < m \<and> pick_loop (of_nat p) (of_nat c) (e # vs) = Some a} = (if k = a then {c ..< m} else {})"
      using step m(2) by auto
    then have first: "card {p. c \<le> p \<and> p < m \<and> pick_loop (of_nat p) (of_nat c) (e # vs) = Some a}
        = (if k = a then unat (stake v) else 0)"
      by (simp add: m_def)
    have "{p. m \<le> p \<and> p < c + staked (e # vs) \<and> pick_loop (of_nat p) (of_nat c) (e # vs) = Some a} =
          {p. m \<le> p \<and> p < m + staked vs \<and> pick_loop (of_nat p) (of_nat m) vs = Some a}"
      using step m(3) by auto
    then have "card {p. m \<le> p \<and> p < c + staked (e # vs) \<and> pick_loop (of_nat p) (of_nat c) (e # vs) = Some a} = stake_of a vs"
      using Cons.IH [OF ok, of m] m(3) Cons.prems(2) by simp
    with first card_Ico_split [OF m(1,2), of "\<lambda>p. pick_loop (of_nat p) (of_nat c) (e # vs) = Some a"]
    show ?thesis using True new by (auto simp: e stake_of_def)
  qed
qed

lemma pick_loop_covers:
  assumes "c + staked vs < 2 ^ 64" and "c \<le> p" and "p < c + staked vs"
  shows "\<exists>a v. pick_loop (of_nat p) (of_nat c) vs = Some a \<and> (a, v) \<in> set vs \<and> active v"
  using assms
proof (induction vs arbitrary: c)
  case (Cons e vs)
  obtain k v where e: "e = (k, v)" by (cases e)
  show ?case
  proof (cases "active v")
    case False
    with Cons.IH [of c] Cons.prems show ?thesis by (auto simp: e)
  next
    case True
    define m where "m = c + unat (stake v)"
    have m: "m + staked vs = c + staked (e # vs)" "of_nat c + stake v = (of_nat m :: u64)"
      using True by (auto simp: m_def e)
    have "(of_nat p < (of_nat m :: u64)) = (p < m)"
    proof -
      have "m < 2 ^ 64" "p < 2 ^ 64" using Cons.prems m(1) by auto
      then show ?thesis by (simp add: word_less_nat_alt unat_of_nat)
    qed
    with Cons.IH [of m] Cons.prems True m show ?thesis by (cases "p < m") (auto simp: e)
  qed
qed simp

text \<open>
  When the stakes add up without overflow, the draw is by stake: each validator is chosen for
  exactly as many of the values of the draw as it has stake, and the one chosen is active.
\<close>

lemma select_by_stake:
  assumes "pos_ok vs" and "staked vs < 2 ^ 64"
  shows "card {p. p < staked vs \<and> pick_loop (of_nat p) 0 vs = Some a} = stake_of a vs"
  using pick_loop_count [of vs 0 a] assms by (simp add: pos_ok_def)

lemma select_active:
  assumes "pos_ok vs" and "staked vs < 2 ^ 64" and "um_find vs k = Some w" and "active w"
  shows "\<exists>v. um_find vs (selectValidator seed vs) = Some v \<and> active v"
proof -
  have "unat (stake w) \<le> staked vs"
    using um_sum_ge [OF assms(3), of "\<lambda>v. if active v then unat (stake v) else 0"] assms(4)
    by (simp add: staked_def)
  moreover have "0 < unat (stake w)"
  proof -
    have "MIN_STAKE \<le> stake w" using assms(1,3) by (auto simp: pos_ok_def)
    then show ?thesis by (simp add: MIN_STAKE_def word_le_nat_alt)
  qed
  ultimately have pos: "0 < staked vs" by simp
  define tot where "tot = totalStaked vs"
  have tot: "unat tot = staked vs" using assms(2) by (simp add: tot_def unat_totalStaked)
  with pos have nz: "tot \<noteq> 0" by auto
  define p where "p = seed_number seed mod tot"
  have "unat p < staked vs" using pos by (simp add: p_def unat_mod tot)
  with pick_loop_covers [of 0 vs "unat p"] assms(2) obtain a v
    where "pick_loop p 0 vs = Some a" and "(a, v) \<in> set vs" "active v" by auto
  moreover have "um_find vs a = Some v"
    using calculation(2) assms(1) by (auto simp: pos_ok_def intro: um_in_find)
  moreover have "vs \<noteq> []" using assms(3) by auto
  ultimately show ?thesis
    using nz by (simp add: selectValidator_def Let_def tot_def p_def)
qed

section \<open>Rewards\<close>

definition paid :: "u64 \<Rightarrow> ProofOfStake \<Rightarrow> nat" where
  "paid r vs = um_sum (\<lambda>v. if active v then unat (share r (totalStaked vs) v) else 0) vs"

text \<open>Without overflow no more is paid than the total, and each share is the exact quotient.\<close>

lemma share_exact:
  assumes "unat r * unat (stake v) < 2 ^ 64"
  shows "unat (share r tot v) = unat r * unat (stake v) div unat tot"
  using assms by (simp add: share_def unat_div unat_word_ariths)

lemma sum_div_le: "sum_list (map (\<lambda>x. f x div (n::nat)) xs) \<le> sum_list (map f xs) div n"
proof (induction xs)
  case (Cons x xs)
  have "f x div n + sum_list (map f xs) div n \<le> (f x + sum_list (map f xs)) div n"
    unfolding div_add1_eq [of "f x" _ n] by (rule le_add1)
  with Cons show ?case by simp
qed simp

lemma paid_le:
  assumes "staked vs < 2 ^ 64" and "totalStaked vs \<noteq> 0"
    and "\<forall>e \<in> set vs. unat r * unat (stake (snd e)) < 2 ^ 64"
  shows "paid r vs \<le> unat r"
proof -
  let ?t = "staked vs" and ?f = "\<lambda>e. if active (snd e) then unat r * unat (stake (snd e)) else 0"
  have t: "unat (totalStaked vs) = ?t" using assms(1) by (rule unat_totalStaked)
  moreover have "unat (totalStaked vs) \<noteq> 0" using assms(2) by (simp add: unat_eq_0)
  ultimately have pos: "0 < ?t" by simp
  have "paid r vs = sum_list (map (\<lambda>e. ?f e div ?t) vs)"
    unfolding paid_def um_sum_def
  proof (intro arg_cong [of _ _ sum_list] map_cong refl)
    fix e assume "e \<in> set vs"
    with assms(3) have "unat r * unat (stake (snd e)) < 2 ^ 64" by blast
    from share_exact [OF this, of "totalStaked vs"]
    show "(if active (snd e) then unat (share r (totalStaked vs) (snd e)) else 0) = ?f e div ?t"
      by (simp add: t)
  qed
  also have "\<dots> \<le> sum_list (map ?f vs) div ?t" by (rule sum_div_le)
  also have "sum_list (map ?f vs) = unat r * ?t"
    by (induction vs) (auto simp: algebra_simps staked_def)
  finally show ?thesis using pos by simp
qed

text \<open>The product overflows for one validator with the minimum stake and a reward of two coins.\<close>

lemma share_overflow:
  "share 200000000 MIN_STAKE \<lparr>v_address = a, stake = MIN_STAKE, rewards = r, active = b\<rparr> = 15532559"
  by (simp add: share_def MIN_STAKE_def)

section \<open>Properties\<close>

definition two_validators :: ProofOfStake where
  "two_validators =
     [(''a'', \<lparr>v_address = ''a'', stake = MIN_STAKE, rewards = 0, active = True\<rparr>),
      (''b'', \<lparr>v_address = ''b'', stake = 3 * MIN_STAKE, rewards = 0, active = True\<rparr>)]"

lemma two_validators_ok:
  "pos_ok two_validators" "staked two_validators = 400000000000" "totalStaked two_validators = 400000000000"
  "stake_of ''b'' two_validators = 300000000000"
  by (auto simp: pos_ok_def um_ok_def two_validators_def um_find_def stake_of_def MIN_STAKE_def totalStaked_def
      um_sum_def word_le_nat_alt split: if_splits)

text \<open>C25: A block producer is selected by stake: as long as the active stake fits 64 bits, of the
  numbers below the total exactly as many select an address as it has active stake, so an inactive
  or unknown address is never selected, and the selected validator is active.\<close>

theorem selection_by_stake:
  assumes "pos_ok vs" and "staked vs < 2 ^ 64"
  shows "card {p. p < staked vs \<and> pick_loop (of_nat p) 0 vs = Some a} = stake_of a vs
       \<and> ((\<exists>k w. um_find vs k = Some w \<and> active w) \<longrightarrow>
            (\<exists>v. um_find vs (selectValidator seed vs) = Some v \<and> active v))"
  using select_by_stake [OF assms] select_active [OF assms] by blast

theorem selection_by_stake_witness:
  "card {p. p < staked two_validators \<and> pick_loop (of_nat p) 0 two_validators = Some ''b''} = 300000000000"
  using selection_by_stake [OF two_validators_ok(1)] two_validators_ok by simp



end
