(* ===== verification/Double_Ratio.thy ===== *)
theory Double_Ratio
  imports Prelude
begin

text \<open>
  The double-precision comparison \<open>(double)v / t >= 0.67\<close> that decides finality
  (\<open>consensus/hybrid.cpp\<close>) and governance votes (\<open>governance/proposal.cpp\<close>). A double is kept as
  the fraction it denotes; \<open>fl n d\<close> is the double nearest to \<open>n / d\<close>, ties to even, as IEEE 754
  prescribes for a conversion or a division whose exact result is \<open>n / d\<close>.
\<close>

section \<open>Rounding\<close>

text \<open>The integer nearest to \<open>n / d\<close>, ties to even.\<close>

definition round_even :: "nat \<Rightarrow> nat \<Rightarrow> nat" where
  "round_even n d =
     (let q = n div d; r = n mod d
      in if 2 * r < d \<or> (2 * r = d \<and> even q) then q else q + 1)"

definition first_exp :: "(nat \<Rightarrow> bool) \<Rightarrow> nat" where
  "first_exp P = hd (filter P [0 ..< 1100])"

definition fl :: "nat \<Rightarrow> nat \<Rightarrow> nat \<times> nat" where
  "fl n d =
     (if n = 0 then (0, 1)
      else if n < 2 ^ 53 * d then
        let e = first_exp (\<lambda>e. 2 ^ 52 * d \<le> n * 2 ^ e) in (round_even (n * 2 ^ e) d, 2 ^ e)
      else
        let k = first_exp (\<lambda>k. n < 2 ^ 53 * d * 2 ^ k) in (round_even n (d * 2 ^ k) * 2 ^ k, 1))"

definition fl_ge :: "nat \<times> nat \<Rightarrow> nat \<times> nat \<Rightarrow> bool" where
  "fl_ge x y \<longleftrightarrow> fst y * snd x \<le> fst x * snd y"

text \<open>The literal \<open>0.67\<close>.\<close>

definition threshold :: "nat \<times> nat" where
  "threshold = fl 67 100"

definition ratio_passes :: "nat \<Rightarrow> nat \<Rightarrow> bool" where
  "ratio_passes v t =
     (let (a, b) = fl v 1; (c, d) = fl t 1 in fl_ge (fl (a * d) (b * c)) threshold)"

section \<open>Lemmas on rounding\<close>

lemma round_even_bounds:
  assumes "0 < d"
  shows "2 * n \<le> 2 * (round_even n d * d) + d" and "2 * (round_even n d * d) \<le> 2 * n + d"
proof -
  define q r where "q = n div d" and "r = n mod d"
  have n: "n = q * d + r" and r: "r < d" using assms by (simp_all add: q_def r_def)
  have re: "round_even n d = (if 2 * r < d \<or> (2 * r = d \<and> even q) then q else q + 1)"
    by (simp add: round_even_def q_def r_def Let_def)
  show "2 * n \<le> 2 * (round_even n d * d) + d" and "2 * (round_even n d * d) \<le> 2 * n + d"
    unfolding re using r n by (auto simp: distrib_right)
qed

lemma round_even_ge:
  assumes "0 < d" and "2 * k * d < 2 * n + d"
  shows "k \<le> round_even n d"
proof (rule ccontr)
  assume "\<not> k \<le> round_even n d"
  then have "Suc (round_even n d) * d \<le> k * d" by (intro mult_le_mono1) simp
  with round_even_bounds(1) [OF assms(1), of n] assms(2) show False by simp
qed

lemma round_even_le:
  assumes "0 < d" and "2 * n < (2 * k + 1) * d"
  shows "round_even n d \<le> k"
proof (rule ccontr)
  assume "\<not> round_even n d \<le> k"
  then have "Suc k * d \<le> round_even n d * d" by (intro mult_le_mono1) simp
  with round_even_bounds(2) [OF assms(1), of n] assms(2) show False by simp
qed

lemma round_even_exact [simp]: "0 < d \<Longrightarrow> round_even (n * d) d = n"
  by (simp add: round_even_def)

lemma round_even_scale: "0 < s \<Longrightarrow> round_even (n * s) (d * s) = round_even n d"
  by (simp add: round_even_def mult_mod_left [symmetric] Let_def flip: mult.assoc)

lemma first_exp_least:
  assumes "P k" and "k < 1100"
  shows "P (first_exp P)" and "first_exp P \<le> k" and "j < first_exp P \<Longrightarrow> \<not> P j"
proof -
  have "filter P [0 ..< 1100] \<noteq> []" using assms by (auto simp: filter_empty_conv)
  then obtain x xs where f: "filter P [0 ..< 1100] = x # xs" by (cases "filter P [0 ..< 1100]") auto
  then obtain us vs where s: "[0 ..< 1100] = us @ x # vs" "\<forall>u \<in> set us. \<not> P u" "P x"
    unfolding filter_eq_Cons_iff by blast
  have x: "x = first_exp P" using f by (simp add: first_exp_def)
  have us: "us = [0 ..< x]"
  proof -
    have len: "length us < 1100" using arg_cong [OF s(1), of length] by simp
    have "x = [0 ..< 1100] ! length us" by (simp add: s(1))
    with len have "x = length us" by simp
    moreover have "us = take (length us) [0 ..< 1100]" by (simp add: s(1))
    ultimately show ?thesis using len by (metis take_upt add_0 less_imp_le)
  qed
  show "P (first_exp P)" using s(3) x by simp
  show "\<not> P j" if "j < first_exp P" for j using s(2) that x us by auto
  then show "first_exp P \<le> k" using assms(1) not_less by blast
qed

lemma fl_scale: "0 < s \<Longrightarrow> fl (n * s) (d * s) = fl n d"
proof -
  assume s: "0 < s"
  have 1: "(2 ^ 52 * (d * s) \<le> n * s * 2 ^ e) = (2 ^ 52 * d \<le> n * 2 ^ e)" for e
  proof -
    have "2 ^ 52 * (d * s) = (2 ^ 52 * d) * s" "n * s * 2 ^ e = (n * 2 ^ e) * s" by simp_all
    then show ?thesis using s by (simp only: mult_le_cancel2 simp_thms)
  qed
  have 2: "(n * s < 2 ^ 53 * (d * s) * 2 ^ k) = (n < 2 ^ 53 * d * 2 ^ k)" for k
  proof -
    have "2 ^ 53 * (d * s) * 2 ^ k = (2 ^ 53 * d * 2 ^ k) * s" by simp
    then show ?thesis using s by (simp only: mult_less_cancel2 simp_thms)
  qed
  have 3: "round_even (n * s * 2 ^ e) (d * s) = round_even (n * 2 ^ e) d" for e
  proof -
    have "n * s * 2 ^ e = (n * 2 ^ e) * s" by simp
    then show ?thesis by (simp only: round_even_scale [OF s])
  qed
  have 4: "round_even (n * s) (d * s * 2 ^ k) = round_even n (d * 2 ^ k)" for k
  proof -
    have "d * s * 2 ^ k = (d * 2 ^ k) * s" by simp
    then show ?thesis by (simp only: round_even_scale [OF s])
  qed
  have 5: "(n * s < 2 ^ 53 * (d * s)) = (n < 2 ^ 53 * d)" using 2 [of 0] by simp
  have 6: "(n * s = 0) = (n = 0)" using s by simp
  show ?thesis unfolding fl_def Let_def 1 2 3 4 5 6 ..
qed

text \<open>An integer below \<open>2 ^ 53\<close> is a double.\<close>

lemma fl_integer:
  assumes "n < 2 ^ 53"
  shows "\<exists>b > 0. fl n 1 = (n * b, b)"
  using assms by (auto simp: fl_def Let_def round_even_def intro!: exI [of _ "2 ^ first_exp _"] exI [of _ 1])

lemma ratio_passes_fl:
  assumes "v < 2 ^ 53" and "t < 2 ^ 53"
  shows "ratio_passes v t \<longleftrightarrow> fl_ge (fl v t) threshold"
proof -
  obtain b where b: "0 < b" "fl v 1 = (v * b, b)" using fl_integer [OF assms(1)] by blast
  obtain d where d: "0 < d" "fl t 1 = (t * d, d)" using fl_integer [OF assms(2)] by blast
  have "fl (v * b * d) (b * (t * d)) = fl v t"
    using fl_scale [of "b * d" v t] b(1) d(1) by (simp add: mult.commute mult.left_commute)
  with b d show ?thesis by (simp add: ratio_passes_def)
qed

section \<open>The threshold\<close>

lemma first_exp_eq: "P k \<Longrightarrow> k < 1100 \<Longrightarrow> (\<And>j. j < k \<Longrightarrow> \<not> P j) \<Longrightarrow> first_exp P = k"
  using first_exp_least [of P k] by (meson le_neq_implies_less)

lemma threshold_eq: "threshold = (6034823500676465, 2 ^ 53)"
proof -
  have "first_exp (\<lambda>e. 2 ^ 52 * 100 \<le> (67 :: nat) * 2 ^ e) = 53"
  proof (rule first_exp_eq)
    fix j :: nat assume "j < 53"
    then have "(2::nat) ^ j \<le> 2 ^ 52" by (intro power_increasing) auto
    then show "\<not> 2 ^ 52 * 100 \<le> (67 :: nat) * 2 ^ j" by simp
  qed simp_all
  then show ?thesis by (simp add: threshold_def fl_def Let_def round_even_def)
qed

text \<open>
  The comparison is exact for totals up to 600,000,000,000,000 (six million coins in the
  smallest unit): rounding never turns a share below 67% into a pass, nor one of 67% into a fail.
\<close>

lemma ratio_passes_iff:
  assumes t: "0 < t" "t \<le> 600000000000000" and v: "v < 2 ^ 53"
  shows "ratio_passes v t \<longleftrightarrow> 67 * t \<le> 100 * v"
proof (cases "v = 0")
  case True
  have "fl_ge (fl 0 t) threshold \<longleftrightarrow> False" by (simp add: fl_ge_def fl_def threshold_eq)
  with True t show ?thesis using ratio_passes_fl [of 0 t] by simp
next
  case False
  let ?C = "6034823500676465 :: nat"
  define e where "e = first_exp (\<lambda>e. 2 ^ 52 * t \<le> v * 2 ^ e)"
  have ex: "2 ^ 52 * t \<le> v * 2 ^ 103"
  proof -
    have "t \<le> 2 ^ 51" using t(2) by simp
    then have "2 ^ 52 * t \<le> 2 ^ 52 * 2 ^ 51" by (rule mult_le_mono2)
    also have "\<dots> = 1 * 2 ^ 103" by simp
    also have "\<dots> \<le> v * 2 ^ 103" using False by (intro mult_le_mono1) simp
    finally show ?thesis .
  qed
  note e = first_exp_least [of "\<lambda>e. 2 ^ 52 * t \<le> v * 2 ^ e" 103, folded e_def, OF ex]
  have le: "2 ^ 52 * t \<le> v * 2 ^ e" using e(1) by simp
  have least: "v * 2 ^ j < 2 ^ 52 * t" if "j < e" for j
    using e(3) [of j] that by (simp add: not_le)
  let ?m = "round_even (v * 2 ^ e) t"
  have "v < 2 ^ 53 * t" using v t(1) by simp
  with False have fl: "fl v t = (?m, 2 ^ e)" by (simp add: fl_def Let_def e_def)
  have pass: "ratio_passes v t \<longleftrightarrow> ?C * 2 ^ e \<le> ?m * 2 ^ 53"
    using ratio_passes_fl [OF v, of t] t by (simp add: fl_ge_def fl threshold_eq)
  consider "e < 53" | "e = 53" | "53 < e" by linarith
  then show ?thesis
  proof cases
    case 1
    have "2 ^ 52 \<le> ?m" using le t(1) by (intro round_even_ge) simp_all
    moreover have e52: "(2::nat) ^ e \<le> 2 ^ 52" using 1 by (intro power_increasing) auto
    ultimately have "?C * 2 ^ e \<le> ?m * 2 ^ 53"
    proof -
      assume m: "2 ^ 52 \<le> ?m"
      have "?C * 2 ^ e \<le> ?C * 2 ^ 52" using e52 by (rule mult_le_mono2)
      also have "\<dots> \<le> 2 ^ 52 * 2 ^ 53" by simp
      also have "\<dots> \<le> ?m * 2 ^ 53" using m by (rule mult_le_mono1)
      finally show ?thesis .
    qed
    moreover have "67 * t \<le> 100 * v"
    proof -
      have "2 ^ 52 * t \<le> v * 2 ^ 52"
        using le mult_le_mono2 [OF e52, of v] by (rule le_trans)
      then show ?thesis by simp
    qed
    ultimately show ?thesis using pass by simp
  next
    case 2
    have "?C \<le> ?m \<longleftrightarrow> 67 * t \<le> 100 * v"
    proof
      assume "67 * t \<le> 100 * v"
      then show "?C \<le> ?m" using t(1) by (intro round_even_ge) (simp_all add: 2)
    next
      assume C: "?C \<le> ?m"
      show "67 * t \<le> 100 * v"
      proof (rule ccontr)
        assume "\<not> 67 * t \<le> 100 * v"
        then have "?m \<le> ?C - 1" using t by (intro round_even_le) (simp_all add: 2)
        with C show False by simp
      qed
    qed
    with pass 2 show ?thesis by simp
  next
    case 3
    have small: "v * 2 ^ 53 < 2 ^ 52 * t" using least [OF 3] .
    obtain j where j: "e = Suc j" using 3 by (cases e) auto
    have "v * 2 ^ e < 2 ^ 53 * t" using least [of j] by (simp add: j)
    then have "?m \<le> 2 ^ 53" using t(1) by (intro round_even_le) simp_all
    moreover have "(2::nat) ^ 54 \<le> 2 ^ e" using 3 by (intro power_increasing) auto
    ultimately have "?m * 2 ^ 53 < ?C * 2 ^ e"
    proof -
      assume m: "?m \<le> 2 ^ 53" and p: "(2::nat) ^ 54 \<le> 2 ^ e"
      have "?m * 2 ^ 53 \<le> 2 ^ 53 * 2 ^ 53" using m by (rule mult_le_mono1)
      also have "\<dots> < ?C * 2 ^ 54" by simp
      also have "\<dots> \<le> ?C * 2 ^ e" using p by (rule mult_le_mono2)
      finally show ?thesis .
    qed
    moreover have "\<not> 67 * t \<le> 100 * v" using small by simp
    ultimately show ?thesis using pass by simp
  qed
qed

end
