(* ===== verification/Hybrid.thy ===== *)
theory Hybrid
  imports PoW PoS Double_Ratio
begin

text \<open>
  \<open>src/src/consensus/hybrid.{h,cpp}\<close>: blocks proposed by proof of work and finalized by the votes
  of validators. The ratio of votes is a double (\<open>Double_Ratio\<close>). Console output is left out.
\<close>

section \<open>Operations\<close>

record HybridConsensus =
  hc_pos :: ProofOfStake
  voteCount :: "(string, int) umap"
  finalized :: "(string, bool) umap"

definition HybridConsensus_new :: HybridConsensus where
  "HybridConsensus_new = \<lparr>hc_pos = um_empty, voteCount = um_empty, finalized = um_empty\<rparr>"

definition proposeBlock :: "string \<Rightarrow> u32 \<Rightarrow> u64 \<Rightarrow> string \<Rightarrow> bool" where
  "proposeBlock blockData d n hash = ProofOfWork_verify blockData d n hash"

definition count_active :: "ProofOfStake \<Rightarrow> nat" where
  "count_active vs = length (filter active (getValidators vs))"

definition count_votes :: "string \<Rightarrow> string list \<Rightarrow> ProofOfStake \<Rightarrow> nat" where
  "count_votes blockHash voters vs = length (filter (\<lambda>v. validateBlock v blockHash vs) voters)"

definition finalizeBlock :: "string \<Rightarrow> string list \<Rightarrow> HybridConsensus \<Rightarrow> bool \<times> HybridConsensus" where
  "finalizeBlock blockHash voters hc =
     (let totalActive = count_active (hc_pos hc)
      in if totalActive = 0 then (True, hc\<lparr>finalized := um_put blockHash True (finalized hc)\<rparr>)
         else
           let votes = count_votes blockHash voters (hc_pos hc);
               hc = hc\<lparr>voteCount := um_put blockHash (int votes) (voteCount hc)\<rparr>
           in if ratio_passes votes totalActive
              then (True, hc\<lparr>finalized := um_put blockHash True (finalized hc)\<rparr>)
              else (False, hc))"

definition hc_addValidator :: "string \<Rightarrow> u64 \<Rightarrow> HybridConsensus \<Rightarrow> HybridConsensus result" where
  "hc_addValidator address st hc =
     bind_result (addValidator address st (hc_pos hc)) (\<lambda>vs. Inr (hc\<lparr>hc_pos := vs\<rparr>))"

definition isConfirmed :: "string \<Rightarrow> HybridConsensus \<Rightarrow> bool" where
  "isConfirmed blockHash hc \<longleftrightarrow>
     (case um_find (finalized hc) blockHash of None \<Rightarrow> False | Some b \<Rightarrow> b)"

section \<open>Lemmas\<close>

text \<open>Finality is exactly: no active validator, or at least 67% of their number in votes.\<close>

lemma finalizeBlock_iff:
  assumes "count_active (hc_pos hc) \<le> 600000000000000" and "length voters < 2 ^ 53"
  shows "fst (finalizeBlock h voters hc) \<longleftrightarrow>
           count_active (hc_pos hc) = 0
         \<or> 67 * count_active (hc_pos hc) \<le> 100 * count_votes h voters (hc_pos hc)"
proof -
  have "count_votes h voters (hc_pos hc) < 2 ^ 53"
    using assms(2) le_less_trans [OF length_filter_le] unfolding count_votes_def by blast
  then show ?thesis
    using ratio_passes_iff [of "count_active (hc_pos hc)" "count_votes h voters (hc_pos hc)"] assms(1)
    by (auto simp: finalizeBlock_def Let_def)
qed

text \<open>A block is confirmed after the call when it was before or the call returned true, and no
  other block changes.\<close>

lemma finalizeBlock_confirmed:
  "isConfirmed h' (snd (finalizeBlock h voters hc)) \<longleftrightarrow>
     isConfirmed h' hc \<or> (h' = h \<and> fst (finalizeBlock h voters hc))"
  by (auto simp: finalizeBlock_def isConfirmed_def Let_def split: option.splits)

lemma finalizeBlock_pos [simp]: "hc_pos (snd (finalizeBlock h voters hc)) = hc_pos hc"
  by (simp add: finalizeBlock_def Let_def)

text \<open>Distinct voters with less than the threshold do not finalize; one voter repeated does.\<close>

lemma count_votes_distinct:
  assumes "distinct voters" and "um_ok (hc_pos hc)"
  shows "count_votes h voters (hc_pos hc) \<le> count_active (hc_pos hc)"
proof -
  let ?vs = "hc_pos hc"
  have "set (filter (\<lambda>v. validateBlock v h ?vs) voters) \<subseteq> fst ` set (filter (\<lambda>e. active (snd e)) ?vs)"
  proof
    fix v assume "v \<in> set (filter (\<lambda>v. validateBlock v h ?vs) voters)"
    then obtain w where "um_find ?vs v = Some w" "active w"
      by (auto simp: validateBlock_def split: option.splits)
    with um_find_in [OF this(1)] show "v \<in> fst ` set (filter (\<lambda>e. active (snd e)) ?vs)"
      by force
  qed
  then have "card (set (filter (\<lambda>v. validateBlock v h ?vs) voters)) \<le> length (filter (\<lambda>e. active (snd e)) ?vs)"
    by (metis List.finite_set card_length card_mono finite_imageI le_trans length_map set_map)
  moreover have "card (set (filter (\<lambda>v. validateBlock v h ?vs) voters)) = count_votes h voters ?vs"
    unfolding count_votes_def using assms(1) by (intro distinct_card) simp
  moreover have "count_active ?vs = length (filter (\<lambda>e. active (snd e)) ?vs)"
    by (simp add: count_active_def getValidators_def filter_map comp_def)
  ultimately show ?thesis by simp
qed

lemma repeated_voter_finalizes:
  assumes "um_find (hc_pos hc) a = Some w" and "active w" and "count_active (hc_pos hc) \<le> 600000000000000"
  shows "fst (finalizeBlock h (replicate (count_active (hc_pos hc)) a) hc)"
proof -
  have "count_votes h (replicate n a) (hc_pos hc) = n" for n
    using assms(1,2) by (simp add: count_votes_def validateBlock_def)
  with finalizeBlock_iff [of hc "replicate (count_active (hc_pos hc)) a" h] assms(3) show ?thesis
    by simp
qed

section \<open>Properties\<close>

definition one_validator :: HybridConsensus where
  "one_validator = HybridConsensus_new\<lparr>hc_pos :=
     [(''a'', \<lparr>v_address = ''a'', stake = MIN_STAKE, rewards = 0, active = True\<rparr>)]\<rparr>"



end
