(* ===== verification/Difficulty.thy ===== *)
theory Difficulty
  imports Prelude
begin

text \<open>
  \<open>src/src/consensus/difficulty.{h,cpp}\<close>: the stand-alone difficulty adjuster. Times are signed
  64-bit: a difference outside the range is undefined behaviour. The console line is left out.
\<close>

section \<open>Operations\<close>

definition ADJUSTMENT_INTERVAL :: u32 where "ADJUSTMENT_INTERVAL = 2016"
definition TARGET_BLOCK_TIME :: int where "TARGET_BLOCK_TIME = 600"
definition MAX_ADJUSTMENT :: int where "MAX_ADJUSTMENT = 4"

definition int64_ok :: "int \<Rightarrow> bool" where
  "int64_ok x \<longleftrightarrow> - (2 ^ 63) \<le> x \<and> x < 2 ^ 63"

definition calculate :: "u32 \<Rightarrow> int \<Rightarrow> int \<Rightarrow> u32 result" where
  "calculate d firstBlockTime lastBlockTime =
     (if \<not> int64_ok (lastBlockTime - firstBlockTime) then Inl Undefined_behaviour
      else
        let elapsed = lastBlockTime - firstBlockTime;
            expected = TARGET_BLOCK_TIME * uint ADJUSTMENT_INTERVAL;
            elapsed = (if elapsed < expected div MAX_ADJUSTMENT then expected div MAX_ADJUSTMENT else elapsed);
            elapsed = (if elapsed > expected * MAX_ADJUSTMENT then expected * MAX_ADJUSTMENT else elapsed)
        in Inr (if elapsed < expected then min (d + 1) 32
                else if elapsed > expected \<and> d > 1 then d - 1 else d))"

definition needsAdjustment :: "u32 \<Rightarrow> bool" where
  "needsAdjustment h \<longleftrightarrow> h > 0 \<and> h mod ADJUSTMENT_INTERVAL = 0"

definition nextAdjustmentBlock :: "u32 \<Rightarrow> u32" where
  "nextAdjustmentBlock h = (h div ADJUSTMENT_INTERVAL + 1) * ADJUSTMENT_INTERVAL"

section \<open>Lemmas\<close>

text \<open>The rule the code follows: the clamp to a factor of four has no effect on it.\<close>

lemma calculate_rule:
  assumes "int64_ok (t1 - t0)"
  shows "calculate d t0 t1 =
           Inr (if t1 - t0 < 1209600 then min (d + 1) 32
                else if t1 - t0 > 1209600 \<and> d > 1 then d - 1 else d)"
  using assms by (auto simp: calculate_def Let_def TARGET_BLOCK_TIME_def ADJUSTMENT_INTERVAL_def MAX_ADJUSTMENT_def)

text \<open>Within 1 to 32 it stays, and it moves by one at most.\<close>

definition difficulty_ok :: "u32 \<Rightarrow> bool" where
  "difficulty_ok d \<longleftrightarrow> 1 \<le> unat d \<and> unat d \<le> 32"

lemma unat_succ: "unat d \<le> 32 \<Longrightarrow> unat (d + 1 :: u32) = unat d + 1"
  by (subst unat_add_no_wrap) simp_all

lemma unat_pred: "1 \<le> unat d \<Longrightarrow> unat (d - 1 :: u32) = unat d - 1"
  by (subst unat_sub_no_wrap) simp_all

lemma unat_min: "unat (min a b :: u32) = min (unat a) (unat b)"
  by (auto simp: min_def word_le_nat_alt)

lemma calculate_bounds:
  assumes "difficulty_ok d" and "calculate d t0 t1 = Inr d'"
  shows "difficulty_ok d'" and "unat d' \<le> unat d + 1" and "unat d \<le> unat d' + 1"
proof -
  have ok: "int64_ok (t1 - t0)" using assms(2) by (auto simp: calculate_def split: if_splits)
  have r: "d' = (if t1 - t0 < 1209600 then min (d + 1) 32
                 else if t1 - t0 > 1209600 \<and> d > 1 then d - 1 else d)"
    using assms(2) unfolding calculate_rule [OF ok] by simp
  have b: "1 \<le> unat d" "unat d \<le> 32" using assms(1) by (auto simp: difficulty_ok_def)
  have gt: "unat d \<noteq> 1" if "d > 1" using that by (auto simp: word_less_nat_alt)
  show "difficulty_ok d'" and "unat d' \<le> unat d + 1" and "unat d \<le> unat d' + 1"
    using b gt unfolding r difficulty_ok_def by (auto simp: unat_min unat_succ unat_pred)
qed

text \<open>A sequence of adjustments; one with undefined behaviour is not taken.\<close>

definition adjust_step :: "int \<times> int \<Rightarrow> u32 \<Rightarrow> u32" where
  "adjust_step ts d = (case calculate d (fst ts) (snd ts) of Inr d' \<Rightarrow> d' | Inl _ \<Rightarrow> d)"

interpretation adjuster: preserved adjust_step difficulty_ok
  by unfold_locales (auto simp: adjust_step_def calculate_bounds(1) split: sum.split)

text \<open>The next height to adjust at is a multiple of 2016 above the given one, unless it overflows.\<close>

lemma nextAdjustmentBlock_spec:
  assumes "unat h + 2016 < 2 ^ 32"
  shows "unat (nextAdjustmentBlock h) = (unat h div 2016 + 1) * 2016"
    and "h < nextAdjustmentBlock h" and "needsAdjustment (nextAdjustmentBlock h)"
proof -
  have q: "unat (h div 2016) = unat h div 2016" by (simp add: unat_div)
  have b: "(unat h div 2016 + 1) * 2016 \<le> unat h + 2016" by simp
  have "unat (h div 2016 + 1) = unat h div 2016 + 1"
    using assms q by (subst unat_add_no_wrap) simp_all
  then show n: "unat (nextAdjustmentBlock h) = (unat h div 2016 + 1) * 2016"
    using assms b by (simp add: nextAdjustmentBlock_def ADJUSTMENT_INTERVAL_def unat_word_ariths)
  have "unat h < (unat h div 2016 + 1) * 2016"
    using div_mult_mod_eq [of "unat h" 2016] mod_less_divisor [of 2016 "unat h"] by simp
  then show lt: "h < nextAdjustmentBlock h" by (simp add: word_less_nat_alt n)
  have "unat (nextAdjustmentBlock h mod 2016) = 0" by (simp add: unat_mod n)
  then have "nextAdjustmentBlock h mod 2016 = 0" by (simp add: unat_eq_0)
  with lt show "needsAdjustment (nextAdjustmentBlock h)"
    by (auto simp: needsAdjustment_def ADJUSTMENT_INTERVAL_def word_less_nat_alt)
qed

section \<open>Properties\<close>

text \<open>C28: The adjusted difficulty stays between 1 and 32, moves by at most one step, goes up after a
  period shorter than two weeks and down after a longer one; how much shorter or longer makes no
  difference, so the clamp to a factor of four has no effect.\<close>

theorem difficulty_adjustment:
  assumes "difficulty_ok d" and "int64_ok (t1 - t0)"
  shows "\<exists>d'. calculate d t0 t1 = Inr d' \<and> difficulty_ok d'
       \<and> d' = (if t1 - t0 < 1209600 then min (d + 1) 32 else if t1 - t0 > 1209600 \<and> d > 1 then d - 1 else d)
       \<and> unat d' \<le> unat d + 1 \<and> unat d \<le> unat d' + 1"
  using calculate_rule [OF assms(2), of d] calculate_bounds [OF assms(1)] by blast

theorem difficulty_adjustment_witness:
  "calculate 4 0 86400 = Inr 5 \<and> calculate 4 0 1209599 = Inr 5 \<and> calculate 4 0 9999999 = Inr 3"
  using difficulty_adjustment [of 4 86400 0] difficulty_adjustment [of 4 1209599 0]
    difficulty_adjustment [of 4 9999999 0]
  by (simp add: difficulty_ok_def int64_ok_def min_def)

end
