(* ===== verification/Opcode.thy ===== *)
theory Opcode
  imports Cxx_Strings
begin

text \<open>
  \<open>src/src/vm/opcode.{h,cpp}\<close> and \<open>src/src/vm/gas.h\<close>: the instruction set with its byte codes,
  names and gas costs, and the gas meter. A byte that is no instruction is \<open>OpOther\<close>, since the
  code casts any byte to the enum.
\<close>

section \<open>Instructions\<close>

datatype Opcode =
    OpPUSH | OpPOP | OpDUP | OpSWAP
  | OpADD | OpSUB | OpMUL | OpDIV | OpMOD
  | OpEQ | OpLT | OpGT | OpAND | OpOR | OpNOT
  | OpSHA256 | OpHASH | OpVERIFY
  | OpSSTORE | OpSLOAD
  | OpCALLER | OpBALANCE | OpHEIGHT | OpTIMESTAMP | OpSELFADDR
  | OpJUMP | OpJUMPI | OpHALT | OpREVERT | OpRETURN
  | OpTRANSFER | OpMINT | OpBURN | OpLOG
  | OpOther u8

definition opcode_table :: "(u8 \<times> Opcode) list" where
  "opcode_table =
     [(0x01, OpPUSH), (0x02, OpPOP), (0x03, OpDUP), (0x04, OpSWAP),
      (0x10, OpADD), (0x11, OpSUB), (0x12, OpMUL), (0x13, OpDIV), (0x14, OpMOD),
      (0x20, OpEQ), (0x21, OpLT), (0x22, OpGT), (0x23, OpAND), (0x24, OpOR), (0x25, OpNOT),
      (0x30, OpSHA256), (0x31, OpHASH), (0x32, OpVERIFY), (0x40, OpSSTORE), (0x41, OpSLOAD),
      (0x50, OpCALLER), (0x51, OpBALANCE), (0x52, OpHEIGHT), (0x53, OpTIMESTAMP), (0x54, OpSELFADDR),
      (0x60, OpJUMP), (0x61, OpJUMPI), (0x62, OpHALT), (0x63, OpREVERT), (0x64, OpRETURN),
      (0x70, OpTRANSFER), (0x71, OpMINT), (0x72, OpBURN), (0x80, OpLOG)]"

text \<open>\<open>(Opcode)(uint8_t)c\<close>, and \<open>(char)(uint8_t)op\<close>.\<close>

definition opcode_of :: "u8 \<Rightarrow> Opcode" where
  "opcode_of b = (case map_of opcode_table b of Some op \<Rightarrow> op | None \<Rightarrow> OpOther b)"

fun opcode_byte :: "Opcode \<Rightarrow> u8" where
  "opcode_byte (OpOther b) = b"
| "opcode_byte op = (case map_of (map (\<lambda>(b, x). (x, b)) opcode_table) op of Some b \<Rightarrow> b | None \<Rightarrow> 0)"

definition opcode_char :: "Opcode \<Rightarrow> char" where
  "opcode_char op = char_of_byte (opcode_byte op)"

definition char_opcode :: "char \<Rightarrow> Opcode" where
  "char_opcode c = opcode_of (byte_of c)"

fun opcodeName :: "Opcode \<Rightarrow> string" where
  "opcodeName OpPUSH = ''PUSH''"
| "opcodeName OpPOP = ''POP''"
| "opcodeName OpADD = ''ADD''"
| "opcodeName OpSUB = ''SUB''"
| "opcodeName OpMUL = ''MUL''"
| "opcodeName OpDIV = ''DIV''"
| "opcodeName OpSHA256 = ''SHA256''"
| "opcodeName OpSSTORE = ''SSTORE''"
| "opcodeName OpSLOAD = ''SLOAD''"
| "opcodeName OpHALT = ''HALT''"
| "opcodeName OpREVERT = ''REVERT''"
| "opcodeName OpRETURN = ''RETURN''"
| "opcodeName OpTRANSFER = ''TRANSFER''"
| "opcodeName op = ''UNKNOWN''"

fun opcodeGasCost :: "Opcode \<Rightarrow> u64" where
  "opcodeGasCost OpPUSH = 1"
| "opcodeGasCost OpPOP = 1"
| "opcodeGasCost OpDUP = 1"
| "opcodeGasCost OpADD = 3"
| "opcodeGasCost OpSUB = 3"
| "opcodeGasCost OpMUL = 3"
| "opcodeGasCost OpDIV = 5"
| "opcodeGasCost OpMOD = 5"
| "opcodeGasCost OpSHA256 = 30"
| "opcodeGasCost OpHASH = 30"
| "opcodeGasCost OpSSTORE = 200"
| "opcodeGasCost OpSLOAD = 50"
| "opcodeGasCost OpTRANSFER = 100"
| "opcodeGasCost OpLOG = 75"
| "opcodeGasCost op = 1"

text \<open>Every instruction has its own byte, and is read back from it.\<close>

lemma opcode_of_table:
  "opcode_of (opcode_byte op) = op" if "\<And>b. op \<noteq> OpOther b"
  using that by (cases op) (simp_all add: opcode_of_def opcode_table_def)

lemma char_opcode_char: "(\<And>b. op \<noteq> OpOther b) \<Longrightarrow> char_opcode (opcode_char op) = op"
  by (simp add: char_opcode_def opcode_char_def opcode_of_table)

lemma opcodeGasCost_bounds: "1 \<le> unat (opcodeGasCost op)" "unat (opcodeGasCost op) \<le> 200"
  by (cases op rule: opcodeGasCost.cases; simp)+

section \<open>The gas meter\<close>

record GasMeter =
  gm_limit :: u64
  gm_used :: u64

definition GasMeter_new :: "u64 \<Rightarrow> GasMeter" where
  "GasMeter_new limit = \<lparr>gm_limit = limit, gm_used = 0\<rparr>"

definition consume :: "u64 \<Rightarrow> GasMeter \<Rightarrow> bool \<times> GasMeter" where
  "consume a g =
     (if gm_used g + a > gm_limit g then (False, g) else (True, g\<lparr>gm_used := gm_used g + a\<rparr>))"

definition gas_remaining :: "GasMeter \<Rightarrow> u64" where
  "gas_remaining g = gm_limit g - gm_used g"

definition outOfGas :: "GasMeter \<Rightarrow> bool" where
  "outOfGas g \<longleftrightarrow> gm_used g \<ge> gm_limit g"

definition gas_ok :: "GasMeter \<Rightarrow> bool" where
  "gas_ok g \<longleftrightarrow> gm_used g \<le> gm_limit g"

lemma gas_ok_new [simp]: "gas_ok (GasMeter_new limit)"
  by (simp add: gas_ok_def GasMeter_new_def)

lemma consume_limit [simp]: "gm_limit (snd (consume a g)) = gm_limit g"
  by (simp add: consume_def)

lemma gas_ok_consume: "gas_ok g \<Longrightarrow> gas_ok (snd (consume a g))"
  by (simp add: consume_def gas_ok_def not_less)

interpretation gas: preserved "\<lambda>a g. snd (consume a g)" gas_ok
  by unfold_locales (rule gas_ok_consume)

text \<open>Without wrap-around (costs are at most 200) the meter is ordinary arithmetic.\<close>

lemma consume_exact:
  assumes "unat (gm_used g) + unat a < 2 ^ 64"
  shows "fst (consume a g) \<longleftrightarrow> unat (gm_used g) + unat a \<le> unat (gm_limit g)"
    and "fst (consume a g) \<Longrightarrow> unat (gm_used (snd (consume a g))) = unat (gm_used g) + unat a"
proof -
  have "unat (gm_used g + a) = unat (gm_used g) + unat a"
    using assms by (intro unat_add_no_wrap) simp
  then show "fst (consume a g) \<longleftrightarrow> unat (gm_used g) + unat a \<le> unat (gm_limit g)"
    and "fst (consume a g) \<Longrightarrow> unat (gm_used (snd (consume a g))) = unat (gm_used g) + unat a"
    by (auto simp: consume_def word_less_nat_alt)
qed

end
