(* ===== verification/VM.thy ===== *)
theory VM
  imports Opcode SHA256 Unordered_Map
begin

text \<open>
  \<open>src/src/vm/vm.{h,cpp}\<close>: contracts and the bytecode interpreter. The stack is a list with its
  top at the head. The interpreter runs through the bytes of the program once: there are no
  jumps, so it always stops.
\<close>

section \<open>Data\<close>

record VMState =
  stack :: "string list"
  storage :: "(string, string) umap"
  gasUsed :: u64
  gasLimit :: u64
  halted :: bool
  reverted :: bool
  returnData :: string

record Contract =
  c_address :: string
  c_bytecode :: string
  c_owner :: string
  c_balance :: u64
  c_storage :: "(string, string) umap"

type_synonym VM = "(string, Contract) umap"

definition VMState_new :: VMState where
  "VMState_new = \<lparr>stack = [], storage = um_empty, gasUsed = 0, gasLimit = 0, halted = False,
                  reverted = False, returnData = []\<rparr>"

section \<open>Operations\<close>

definition generateAddress :: "string \<Rightarrow> string \<Rightarrow> string" where
  "generateAddress owner bytecode = ''RXC_CONTRACT_'' @ take 20 (SHA256_hash (owner @ bytecode))"

definition deployContract :: "string \<Rightarrow> string \<Rightarrow> u64 \<Rightarrow> VM \<Rightarrow> string \<times> VM" where
  "deployContract bytecode owner gas_limit vm =
     (let addr = generateAddress owner bytecode;
          c = \<lparr>c_address = addr, c_bytecode = bytecode, c_owner = owner, c_balance = 0, c_storage = um_empty\<rparr>
      in (addr, um_put addr c vm))"

text \<open>The \<open>switch\<close>: instructions it does not name do nothing.\<close>

definition vm_step :: "Opcode \<Rightarrow> VMState \<Rightarrow> VMState" where
  "vm_step op s =
     (case op of
        OpHALT \<Rightarrow> s\<lparr>halted := True\<rparr>
      | OpREVERT \<Rightarrow> s\<lparr>reverted := True\<rparr>
      | OpSHA256 \<Rightarrow>
          (case stack s of [] \<Rightarrow> s | x # st \<Rightarrow> s\<lparr>stack := SHA256_hash x # st\<rparr>)
      | OpSSTORE \<Rightarrow>
          (case stack s of v # k # st \<Rightarrow> s\<lparr>stack := st, storage := um_put k v (storage s)\<rparr> | _ \<Rightarrow> s)
      | OpSLOAD \<Rightarrow>
          (case stack s of [] \<Rightarrow> s
           | k # st \<Rightarrow> s\<lparr>stack := (case um_find (storage s) k of Some v \<Rightarrow> v | None \<Rightarrow> []) # st\<rparr>)
      | _ \<Rightarrow> s)"

fun vm_run :: "string \<Rightarrow> VMState \<times> GasMeter \<Rightarrow> VMState \<times> GasMeter" where
  "vm_run [] (s, g) = (s, g)"
| "vm_run (c # cs) (s, g) =
     (if halted s \<or> reverted s then (s, g)
      else let op = char_opcode c; (ok, g') = consume (opcodeGasCost op) g
           in if \<not> ok then (s\<lparr>reverted := True\<rparr>, g') else vm_run cs (vm_step op s, g'))"

definition vm_execute :: "string \<Rightarrow> string \<Rightarrow> u64 \<Rightarrow> VMState" where
  "vm_execute bytecode input gas_limit =
     (let s0 = VMState_new\<lparr>gasLimit := gas_limit, stack := (if input \<noteq> [] then [input] else [])\<rparr>;
          (s, g) = vm_run bytecode (s0, GasMeter_new gas_limit)
      in s\<lparr>gasUsed := gm_used g\<rparr>)"

definition vm_call :: "string \<Rightarrow> string \<Rightarrow> u64 \<Rightarrow> VM \<Rightarrow> VMState" where
  "vm_call address input gas_limit vm =
     (case um_find vm address of
        None \<Rightarrow> VMState_new\<lparr>reverted := True\<rparr>
      | Some c \<Rightarrow> vm_execute (c_bytecode c) input gas_limit)"

definition getContract :: "string \<Rightarrow> VM \<Rightarrow> Contract option" where
  "getContract address vm = um_find vm address"

section \<open>Gas\<close>

lemma vm_run_gas_ok: "gas_ok g \<Longrightarrow> gas_ok (snd (vm_run code (s, g))) \<and> gm_limit (snd (vm_run code (s, g))) = gm_limit g"
proof (induction code arbitrary: s g)
  case (Cons c cs)
  then show ?case
    using gas_ok_consume [of g "opcodeGasCost (char_opcode c)"] consume_limit [of "opcodeGasCost (char_opcode c)" g]
    by (cases "consume (opcodeGasCost (char_opcode c)) g") (auto simp: Let_def)
qed simp

text \<open>No run uses more gas than its limit.\<close>

definition start_state :: "string \<Rightarrow> u64 \<Rightarrow> VMState" where
  "start_state input limit =
     VMState_new\<lparr>gasLimit := limit, stack := (if input \<noteq> [] then [input] else [])\<rparr>"

lemma vm_execute_run:
  "vm_execute code input limit =
     (fst (vm_run code (start_state input limit, GasMeter_new limit)))
       \<lparr>gasUsed := gm_used (snd (vm_run code (start_state input limit, GasMeter_new limit)))\<rparr>"
  by (simp add: vm_execute_def start_state_def Let_def split: prod.split)

lemma start_state_flags [simp]: "\<not> halted (start_state input limit)" "\<not> reverted (start_state input limit)"
  by (simp_all add: start_state_def VMState_new_def)

lemma execute_gas_le: "gasUsed (vm_execute code input limit) \<le> limit"
  using vm_run_gas_ok [of "GasMeter_new limit" code "start_state input limit"]
  by (auto simp: vm_execute_run gas_ok_def GasMeter_new_def)

section \<open>What a run executes\<close>

text \<open>The instructions up to and including the first \<open>HALT\<close> or \<open>REVERT\<close>, and their cost.\<close>

definition stops :: "Opcode \<Rightarrow> bool" where
  "stops op \<longleftrightarrow> op = OpHALT \<or> op = OpREVERT"

fun executed :: "Opcode list \<Rightarrow> Opcode list" where
  "executed [] = []"
| "executed (op # ops) = op # (if stops op then [] else executed ops)"

definition gas_of :: "Opcode list \<Rightarrow> nat" where
  "gas_of ops = sum_list (map (\<lambda>op. unat (opcodeGasCost op)) ops)"

lemma gas_of_simps [simp]: "gas_of [] = 0" "gas_of (op # ops) = unat (opcodeGasCost op) + gas_of ops"
  by (simp_all add: gas_of_def)

lemma vm_step_flags [simp]:
  "halted (vm_step op s) \<longleftrightarrow> halted s \<or> op = OpHALT"
  "reverted (vm_step op s) \<longleftrightarrow> reverted s \<or> op = OpREVERT"
  by (cases op; auto simp: vm_step_def split: list.split)+

lemma vm_run_stopped: "halted s \<or> reverted s \<Longrightarrow> vm_run code (s, g) = (s, g)"
  by (cases code) auto

text \<open>
  With enough gas a run is exactly the effect of the executed instructions in order, and uses
  exactly their cost.
\<close>

lemma vm_run_enough:
  assumes "\<not> halted s" and "\<not> reverted s"
    and "unat (gm_used g) + gas_of (executed (map char_opcode code)) \<le> unat (gm_limit g)"
  shows "fst (vm_run code (s, g)) = fold vm_step (executed (map char_opcode code)) s
       \<and> unat (gm_used (snd (vm_run code (s, g)))) = unat (gm_used g) + gas_of (executed (map char_opcode code))"
  using assms
proof (induction code arbitrary: s g)
  case (Cons c cs)
  let ?op = "char_opcode c" and ?k = "consume (opcodeGasCost (char_opcode c)) g"
  have nw: "unat (gm_used g) + unat (opcodeGasCost ?op) \<le> unat (gm_limit g)"
    using Cons.prems(3) by simp
  then have "unat (gm_used g) + unat (opcodeGasCost ?op) < 2 ^ 64"
    using unat_u64_less [of "gm_limit g"] by simp
  note k = consume_exact [OF this]
  obtain g' where g': "?k = (True, g')" using k(1) nw by (cases ?k) auto
  have used: "unat (gm_used g') = unat (gm_used g) + unat (opcodeGasCost ?op)" "gm_limit g' = gm_limit g"
    using k(2) g' consume_limit [of "opcodeGasCost ?op" g] by auto
  show ?case
  proof (cases "stops ?op")
    case True
    then have "halted (vm_step ?op s) \<or> reverted (vm_step ?op s)" by (auto simp: stops_def)
    with True Cons.prems g' used show ?thesis by (simp add: vm_run_stopped Let_def)
  next
    case False
    then have "\<not> halted (vm_step ?op s)" "\<not> reverted (vm_step ?op s)"
      using Cons.prems by (auto simp: stops_def)
    moreover have "unat (gm_used g') + gas_of (executed (map char_opcode cs)) \<le> unat (gm_limit g')"
      using Cons.prems(3) used False by simp
    ultimately show ?thesis
      using Cons.IH [of "vm_step ?op s" g'] Cons.prems False g' used by (simp add: Let_def)
  qed
qed simp

text \<open>With less gas than that, the run is reverted.\<close>

lemma vm_run_short:
  assumes "\<not> halted s" and "\<not> reverted s" and "gas_ok g"
    and "unat (gm_limit g) < unat (gm_used g) + gas_of (executed (map char_opcode code))"
    and "unat (gm_limit g) + 200 < 2 ^ 64"
  shows "reverted (fst (vm_run code (s, g)))"
  using assms
proof (induction code arbitrary: s g)
  case Nil
  then show ?case by (simp add: gas_ok_def word_le_nat_alt)
next
  case (Cons c cs)
  let ?op = "char_opcode c" and ?k = "consume (opcodeGasCost (char_opcode c)) g"
  have "unat (gm_used g) + unat (opcodeGasCost ?op) < 2 ^ 64"
    using Cons.prems(3,5) opcodeGasCost_bounds(2) [of ?op] by (simp add: gas_ok_def word_le_nat_alt)
  note k = consume_exact [OF this]
  obtain ok g' where g': "?k = (ok, g')" by (cases ?k)
  show ?case
  proof (cases ok)
    case False
    with Cons.prems g' show ?thesis by (simp add: Let_def)
  next
    case True
    have used: "unat (gm_used g') = unat (gm_used g) + unat (opcodeGasCost ?op)" "gm_limit g' = gm_limit g"
      "gas_ok g'"
      using k(2) g' True consume_limit [of "opcodeGasCost ?op" g] gas_ok_consume [OF Cons.prems(3), of "opcodeGasCost ?op"]
      by auto
    show ?thesis
    proof (cases "stops ?op")
      case True
      with Cons.prems(4) used have "unat (gm_limit g') < unat (gm_used g')" by simp
      with used(3) show ?thesis by (simp add: gas_ok_def word_le_nat_alt)
    next
      case False
      then have "\<not> halted (vm_step ?op s)" "\<not> reverted (vm_step ?op s)"
        using Cons.prems by (auto simp: stops_def)
      moreover have "unat (gm_limit g') < unat (gm_used g') + gas_of (executed (map char_opcode cs))"
        using Cons.prems(4) used False by simp
      ultimately show ?thesis
        using Cons.IH [of "vm_step ?op s" g'] Cons.prems used True g' by (simp add: Let_def)
    qed
  qed
qed

text \<open>Both cases of \<open>execute\<close> for a limit below the wrap-around range.\<close>

lemma execute_spec:
  assumes "unat limit + 200 < 2 ^ 64"
  shows "if gas_of (executed (map char_opcode code)) \<le> unat limit
         then unat (gasUsed (vm_execute code input limit)) = gas_of (executed (map char_opcode code))
            \<and> (halted (vm_execute code input limit) \<longleftrightarrow> OpHALT \<in> set (executed (map char_opcode code)))
            \<and> (reverted (vm_execute code input limit) \<longleftrightarrow> OpREVERT \<in> set (executed (map char_opcode code)))
         else reverted (vm_execute code input limit)"
proof -
  let ?s0 = "start_state input limit"
  let ?g = "GasMeter_new limit" and ?ops = "executed (map char_opcode code)"
  note s0 = start_state_flags [of input limit]
  have g: "unat (gm_used ?g) = 0" "gm_limit ?g = limit" by (simp_all add: GasMeter_new_def)
  have flags: "halted (fold vm_step ops s) \<longleftrightarrow> halted s \<or> OpHALT \<in> set ops"
    "reverted (fold vm_step ops s) \<longleftrightarrow> reverted s \<or> OpREVERT \<in> set ops" for ops s
    by (induction ops arbitrary: s) auto
  show ?thesis
  proof (cases "gas_of ?ops \<le> unat limit")
    case True
    then have "unat (gm_used ?g) + gas_of ?ops \<le> unat (gm_limit ?g)" using g by simp
    from vm_run_enough [OF s0 this] True s0 g show ?thesis by (simp add: vm_execute_run flags)
  next
    case False
    then have "unat (gm_limit ?g) < unat (gm_used ?g) + gas_of ?ops" using g by simp
    from vm_run_short [OF s0 _ this] False assms g show ?thesis by (simp add: vm_execute_run)
  qed
qed

text \<open>With enough gas the final state is the executed instructions applied in order.\<close>

lemma execute_effect:
  assumes "gas_of (executed (map char_opcode code)) \<le> unat limit"
  shows "vm_execute code input limit =
    (fold vm_step (executed (map char_opcode code)) (start_state input limit))
      \<lparr>gasUsed := of_nat (gas_of (executed (map char_opcode code)))\<rparr>"
proof -
  have "unat (gm_used (GasMeter_new limit)) + gas_of (executed (map char_opcode code))
      \<le> unat (gm_limit (GasMeter_new limit))"
    using assms by (simp add: GasMeter_new_def)
  note run = vm_run_enough [OF start_state_flags this, of input limit]
  then have used: "gas_of (executed (map char_opcode code))
      = unat (gm_used (snd (vm_run code (start_state input limit, GasMeter_new limit))))"
    by (simp add: GasMeter_new_def)
  show ?thesis
    unfolding vm_execute_run conjunct1 [OF run] used by simp
qed

section \<open>Contracts\<close>

text \<open>Calling what was deployed runs its bytecode; nothing a call stores is kept.\<close>

lemma deploy_call:
  "vm_call (fst (deployContract code owner lim vm)) input limit (snd (deployContract code owner lim vm))
     = vm_execute code input limit"
  by (simp add: deployContract_def vm_call_def Let_def)

lemma deploy_getContract:
  "getContract (generateAddress owner code) (snd (deployContract code owner lim vm)) =
     Some \<lparr>c_address = generateAddress owner code, c_bytecode = code, c_owner = owner, c_balance = 0,
           c_storage = um_empty\<rparr>"
  by (simp add: deployContract_def getContract_def Let_def)

section \<open>Properties\<close>

text \<open>C29: Running bytecode always stops. If the limit covers the instructions up to the first
  \<open>HALT\<close> or \<open>REVERT\<close>, the final state is these instructions applied in order, exactly their cost is
  used and the flags say which of the two was met; if not, the run reverts. Never is more gas used than the limit. A deployed contract runs its code.\<close>

theorem execution_gas:
  assumes "unat limit + 200 < 2 ^ 64"
  shows "(if gas_of (executed (map char_opcode code)) \<le> unat limit
         then unat (gasUsed (vm_execute code input limit)) = gas_of (executed (map char_opcode code))
            \<and> (halted (vm_execute code input limit) \<longleftrightarrow> OpHALT \<in> set (executed (map char_opcode code)))
            \<and> (reverted (vm_execute code input limit) \<longleftrightarrow> OpREVERT \<in> set (executed (map char_opcode code)))
         else reverted (vm_execute code input limit))
       \<and> (gas_of (executed (map char_opcode code)) \<le> unat limit \<longrightarrow>
            vm_execute code input limit =
              (fold vm_step (executed (map char_opcode code)) (start_state input limit))
                \<lparr>gasUsed := of_nat (gas_of (executed (map char_opcode code)))\<rparr>)
       \<and> gasUsed (vm_execute code input limit) \<le> limit
       \<and> vm_call (fst (deployContract code owner lim vm)) input limit (snd (deployContract code owner lim vm))
           = vm_execute code input limit"
  using execute_spec [OF assms, of code input] execute_gas_le execute_effect deploy_call by blast

theorem execution_gas_witness:
  "reverted (vm_execute [opcode_char OpSSTORE, opcode_char OpHALT] [] 200)
   \<and> halted (vm_execute [opcode_char OpSSTORE, opcode_char OpHALT] [] 201)"
  using execution_gas [of 200 "[opcode_char OpSSTORE, opcode_char OpHALT]" "[]"]
    execution_gas [of 201 "[opcode_char OpSSTORE, opcode_char OpHALT]" "[]"]
  by (simp add: char_opcode_char stops_def)

end
