(* ===== verification/Compiler.thy ===== *)
theory Compiler
  imports VM
begin

text \<open>
  \<open>src/src/vm/compiler.{h,cpp}\<close>: words to bytecode. A word that is no instruction of the list is
  data: a \<open>PUSH\<close> byte followed by the characters of the word, which the machine then runs as
  instructions.
\<close>

section \<open>Operations\<close>

definition tokenize :: "string \<Rightarrow> string list" where
  "tokenize source = ws_tokens source"

text \<open>The instructions the compiler knows, in the order it compares.\<close>

definition mnemonics :: "(string \<times> Opcode) list" where
  "mnemonics =
     [(''PUSH'', OpPUSH), (''POP'', OpPOP), (''ADD'', OpADD), (''SUB'', OpSUB), (''MUL'', OpMUL),
      (''DIV'', OpDIV), (''SHA256'', OpSHA256), (''SSTORE'', OpSSTORE), (''SLOAD'', OpSLOAD),
      (''TRANSFER'', OpTRANSFER), (''HALT'', OpHALT), (''REVERT'', OpREVERT), (''RETURN'', OpRETURN)]"

definition compile_token :: "string \<Rightarrow> string" where
  "compile_token token =
     (case map_of mnemonics token of
        Some op \<Rightarrow> [opcode_char op]
      | None \<Rightarrow> if token = [CHR 0x0A] then [] else opcode_char OpPUSH # token)"

definition compile :: "string \<Rightarrow> string" where
  "compile source = foldl (\<lambda>bytecode token. bytecode @ compile_token token) [] (tokenize source)"

text \<open>
  The object keeps a list of errors, which \<open>compile\<close> clears and nothing fills.
\<close>

record CompileError =
  ce_line :: int
  ce_message :: string

definition Compiler_compile :: "string \<Rightarrow> CompileError list \<Rightarrow> string \<times> CompileError list" where
  "Compiler_compile source errors = (compile source, [])"

definition hasErrors :: "CompileError list \<Rightarrow> bool" where
  "hasErrors errors \<longleftrightarrow> errors \<noteq> []"

definition disassemble :: "string \<Rightarrow> string" where
  "disassemble bytecode =
     concat (map (\<lambda>(i, c). ''['' @ nat_str i @ ''] '' @ opcodeName (char_opcode c) @ '' (gas='' @
                           nat_str (unat (opcodeGasCost (char_opcode c))) @ '')'' @ [CHR 0x0A])
              (enumerate 0 bytecode))"

section \<open>Programs of instructions\<close>

lemma compile_concat: "compile source = concat (map compile_token (tokenize source))"
proof -
  have "foldl (\<lambda>b t. b @ compile_token t) b ts = b @ concat (map compile_token ts)" for b ts
    by (induction ts arbitrary: b) simp_all
  then show ?thesis by (simp add: compile_def)
qed

text \<open>A program text: words separated by single spaces.\<close>

fun unwords :: "string list \<Rightarrow> string" where
  "unwords [] = []"
| "unwords [w] = w"
| "unwords (w # ws) = w @ CHR '' '' # unwords ws"

definition word_ok :: "string \<Rightarrow> bool" where
  "word_ok w \<longleftrightarrow> w \<noteq> [] \<and> (\<forall>c \<in> set w. \<not> is_space c)"

lemma tokenize_unwords: "\<forall>w \<in> set ws. word_ok w \<Longrightarrow> tokenize (unwords ws) = ws"
proof (induction ws rule: unwords.induct)
  case (2 w)
  then show ?case using ws_tokens_word(2) [of w "CHR '' ''"] by (simp add: tokenize_def word_ok_def is_space_def)
next
  case (3 w v ws)
  then have "ws_tokens (w @ CHR '' '' # unwords (v # ws)) = w # ws_tokens (unwords (v # ws))"
    using ws_tokens_word(1) [of w "CHR '' ''" "unwords (v # ws)"] by (simp add: word_ok_def is_space_def)
  with 3 show ?case by (simp add: tokenize_def)
qed (simp add: tokenize_def)

definition mnemonic_of :: "Opcode \<Rightarrow> string" where
  "mnemonic_of op = opcodeName op"

definition compilable :: "Opcode \<Rightarrow> bool" where
  "compilable op \<longleftrightarrow> op \<in> snd ` set mnemonics"

lemma compilable_cases:
  assumes "compilable op"
  shows "map_of mnemonics (mnemonic_of op) = Some op" and "word_ok (mnemonic_of op)"
    and "op \<noteq> OpOther b"
  using assms by (auto simp: compilable_def mnemonics_def mnemonic_of_def word_ok_def is_space_def)

text \<open>
  The compiler is right on programs of instructions: the bytecode of their names decodes to
  the instructions.
\<close>

lemma compile_program:
  assumes "\<forall>op \<in> set ops. compilable op"
  shows "map char_opcode (compile (unwords (map mnemonic_of ops))) = ops"
proof -
  have "tokenize (unwords (map mnemonic_of ops)) = map mnemonic_of ops"
    using assms compilable_cases(2) by (intro tokenize_unwords) auto
  then have "compile (unwords (map mnemonic_of ops)) = concat (map (compile_token \<circ> mnemonic_of) ops)"
    by (simp add: compile_concat)
  also have "\<dots> = map opcode_char ops"
    using assms by (induction ops) (auto simp: compile_token_def compilable_cases(1))
  finally show ?thesis
    using assms compilable_cases(3) by (auto simp: comp_def char_opcode_char intro!: map_idI)
qed

lemma execute_compiled:
  assumes "\<forall>op \<in> set ops. compilable op" and "gas_of (executed ops) \<le> unat limit" and "unat limit + 200 < 2 ^ 64"
  shows "unat (gasUsed (vm_execute (compile (unwords (map mnemonic_of ops))) input limit)) = gas_of (executed ops)"
    and "halted (vm_execute (compile (unwords (map mnemonic_of ops))) input limit) \<longleftrightarrow> OpHALT \<in> set (executed ops)"
    and "vm_execute (compile (unwords (map mnemonic_of ops))) input limit =
           (fold vm_step (executed ops) (start_state input limit))\<lparr>gasUsed := of_nat (gas_of (executed ops))\<rparr>"
  using execute_spec [OF assms(3), of "compile (unwords (map mnemonic_of ops))" input]
    execute_effect [of "compile (unwords (map mnemonic_of ops))" limit input]
    compile_program [OF assms(1)] assms(2)
  by simp_all

section \<open>Properties\<close>

text \<open>C30: The compiler is right on programs of instructions: the bytecode of their names decodes to
  exactly the instructions, and with enough gas its run applies the instructions up to the first
  \<open>HALT\<close> or \<open>REVERT\<close> in order and costs what they cost. A data word is not kept apart from instructions: the word \<open>b\<close>, whose
  character is the byte of \<open>HALT\<close>, stops the machine. No source text is ever reported as wrong.\<close>

theorem compiled_programs_run:
  assumes "\<forall>op \<in> set ops. compilable op" and "gas_of (executed ops) \<le> unat limit" and "unat limit + 200 < 2 ^ 64"
  shows "map char_opcode (compile (unwords (map mnemonic_of ops))) = ops
       \<and> unat (gasUsed (vm_execute (compile (unwords (map mnemonic_of ops))) input limit)) = gas_of (executed ops)
       \<and> (halted (vm_execute (compile (unwords (map mnemonic_of ops))) input limit) \<longleftrightarrow> OpHALT \<in> set (executed ops))
       \<and> vm_execute (compile (unwords (map mnemonic_of ops))) input limit =
            (fold vm_step (executed ops) (start_state input limit))\<lparr>gasUsed := of_nat (gas_of (executed ops))\<rparr>
       \<and> map char_opcode (compile ''b'') = [OpPUSH, OpHALT]
       \<and> \<not> hasErrors (snd (Compiler_compile source errors))"
proof -
  have "tokenize ''b'' = [''b'']"
    using tokenize_unwords [of "[''b'']"] by (simp add: word_ok_def is_space_def)
  moreover have "char_opcode (CHR ''b'') = OpHALT"
    by (simp add: char_opcode_def opcode_of_def opcode_table_def byte_of_def)
  ultimately have "map char_opcode (compile ''b'') = [OpPUSH, OpHALT]"
    by (simp add: compile_def compile_token_def mnemonics_def char_opcode_char)
  moreover have "\<not> hasErrors (snd (Compiler_compile source errors))" by (simp add: hasErrors_def Compiler_compile_def)
  ultimately show ?thesis using compile_program [OF assms(1)] execute_compiled [OF assms] by blast
qed

theorem compiled_programs_run_witness:
  "map char_opcode (compile ''SHA256 HALT'') = [OpSHA256, OpHALT]
   \<and> unat (gasUsed (vm_execute (compile ''SHA256 HALT'') [] 100)) = 31"
  using compiled_programs_run [of "[OpSHA256, OpHALT]" 100 "[]"]
  by (simp add: compilable_def mnemonics_def mnemonic_of_def stops_def)

end
