(* ===== verification/Lightning.thy ===== *)
theory Lightning
  imports Unordered_Map
begin

text \<open>
  \<open>src/src/layer2/lightning.{h,cpp}\<close>: the graph of channels and the breadth-first search for a
  route. The search marks each node with the node it was reached from; the route is read off
  backwards from the target until the mark is the empty string.
\<close>

section \<open>Operations\<close>

record Route =
  hops :: "string list"
  totalFee :: "u64 option"

record LightningNetwork =
  graph :: "(string, string list) umap"
  channelMap :: "(string, string) umap"

definition LightningNetwork_new :: LightningNetwork where
  "LightningNetwork_new = \<lparr>graph = um_empty, channelMap = um_empty\<rparr>"

definition registerNode :: "string \<Rightarrow> LightningNetwork \<Rightarrow> LightningNetwork" where
  "registerNode addr n =
     (if um_find (graph n) addr = None then n\<lparr>graph := um_put addr [] (graph n)\<rparr> else n)"

definition push_neighbour :: "string \<Rightarrow> string \<Rightarrow> (string, string list) umap \<Rightarrow> (string, string list) umap" where
  "push_neighbour a b g = um_put a ((case um_find g a of Some l \<Rightarrow> l | None \<Rightarrow> []) @ [b]) g"

definition addChannel :: "string \<Rightarrow> string \<Rightarrow> string \<Rightarrow> LightningNetwork \<Rightarrow> LightningNetwork" where
  "addChannel cid nodeA nodeB n =
     n\<lparr>graph := push_neighbour nodeB nodeA (push_neighbour nodeA nodeB (graph n)),
       channelMap := um_put (nodeB @ nodeA) cid (um_put (nodeA @ nodeB) cid (channelMap n))\<rparr>"

text \<open>The neighbours of the current node that have no mark are marked and queued.\<close>

fun visit :: "string \<Rightarrow> string list \<Rightarrow> (string, string) umap \<times> string list
    \<Rightarrow> (string, string) umap \<times> string list" where
  "visit cur [] (parent, q) = (parent, q)"
| "visit cur (nb # nbs) (parent, q) =
     (if um_find parent nb = None then visit cur nbs (um_put nb cur parent, q @ [nb])
      else visit cur nbs (parent, q))"

definition nodes :: "(string, string list) umap \<Rightarrow> string set" where
  "nodes g = (\<Union>e \<in> set g. set (snd e))"

lemma finite_nodes [simp]: "finite (nodes g)"
  by (simp add: nodes_def)

lemma visit_new:
  "\<exists>new. visit cur nbs (parent, q) = (parent @ map (\<lambda>n. (n, cur)) new, q @ new)
       \<and> distinct new \<and> set new = set nbs - fst ` set parent"
proof (induction nbs arbitrary: parent q)
  case (Cons nb nbs)
  show ?case
  proof (cases "um_find parent nb = None")
    case True
    then have nb: "nb \<notin> fst ` set parent" by (simp add: um_find_None_iff)
    from Cons.IH [of "parent @ [(nb, cur)]" "q @ [nb]"] obtain new where
      "visit cur nbs (parent @ [(nb, cur)], q @ [nb]) =
         ((parent @ [(nb, cur)]) @ map (\<lambda>n. (n, cur)) new, (q @ [nb]) @ new)"
      and "distinct new" and s: "set new = set nbs - fst ` set (parent @ [(nb, cur)])" by blast
    with True nb show ?thesis
      by (intro exI [of _ "nb # new"]) (auto simp: um_put_new)
  next
    case False
    then have "nb \<in> fst ` set parent" by (simp add: um_find_None_iff)
    with Cons.IH [of parent q] False show ?thesis by auto
  qed
qed simp

function bfs :: "(string, string list) umap \<Rightarrow> string \<Rightarrow> (string, string) umap \<Rightarrow> string list
    \<Rightarrow> (string, string) umap" where
  "bfs g target parent [] = parent"
| "bfs g target parent (cur # q) =
     (if cur = target then parent
      else case um_find g cur of
             None \<Rightarrow> bfs g target parent q
           | Some nbs \<Rightarrow> (case visit cur nbs (parent, q) of (parent', q') \<Rightarrow> bfs g target parent' q'))"
  by pat_completeness auto

text \<open>Each round takes one node off the queue and queues only nodes that had no mark.\<close>

termination
proof (relation "measure (\<lambda>(g, target, parent, q). 2 * card (nodes g - fst ` set parent) + length q)")
  fix g :: "(string, string list) umap" and target parent cur q nbs p' q'
  assume nbs: "um_find g cur = Some nbs" and v: "(p', q') = visit cur nbs (parent, q)"
  from visit_new [of cur nbs parent q] v obtain new where
    p': "p' = parent @ map (\<lambda>n. (n, cur)) new" and q': "q' = q @ new" and d: "distinct new"
    and s: "set new = set nbs - fst ` set parent" by auto
  have sub: "set new \<subseteq> nodes g - fst ` set parent"
    using s um_find_in [OF nbs] unfolding nodes_def by force
  have "nodes g - fst ` set p' = (nodes g - fst ` set parent) - set new"
    by (auto simp: p' image_Un image_image)
  then have "card (nodes g - fst ` set p') = card (nodes g - fst ` set parent) - length new"
    using sub d by (simp add: card_Diff_subset distinct_card)
  moreover have "length new \<le> card (nodes g - fst ` set parent)"
    using card_mono [OF _ sub] d by (simp add: distinct_card)
  ultimately show "((g, target, p', q'), g, target, parent, cur # q)
      \<in> measure (\<lambda>(g, target, parent, q). 2 * card (nodes g - fst ` set parent) + length q)"
    by (simp add: q')
qed auto

text \<open>Reading the route backwards; \<open>parent[cur]\<close> of a node without a mark is the empty string.\<close>

partial_function (option) trace :: "(string, string) umap \<Rightarrow> string \<Rightarrow> string list \<Rightarrow> string list option" where
  "trace parent cur acc =
     (if cur = [] then Some acc
      else trace parent (case um_find parent cur of Some c \<Rightarrow> c | None \<Rightarrow> []) (cur # acc))"

definition findRoute :: "string \<Rightarrow> string \<Rightarrow> u64 \<Rightarrow> LightningNetwork \<Rightarrow> Route option" where
  "findRoute src dst amt n =
     (let parent = bfs (graph n) dst (um_put src [] um_empty) [src]
      in if um_find parent dst = None then Some \<lparr>hops = [], totalFee = None\<rparr>
         else case trace parent dst [] of
                None \<Rightarrow> None
              | Some hs \<Rightarrow>
                  Some \<lparr>hops = hs, totalFee = Some (if length hs > 2 then of_nat ((length hs - 2) * 10) else 0)\<rparr>)"

definition sendPayment :: "string \<Rightarrow> string \<Rightarrow> u64 \<Rightarrow> LightningNetwork \<Rightarrow> bool option" where
  "sendPayment src dst amt n = map_option (\<lambda>r. hops r \<noteq> []) (findRoute src dst amt n)"

section \<open>The search\<close>

definition edge :: "(string, string list) umap \<Rightarrow> string \<Rightarrow> string \<Rightarrow> bool" where
  "edge g u v \<longleftrightarrow> (\<exists>ns. um_find g u = Some ns \<and> v \<in> set ns)"

text \<open>
  Marks form a tree: the source comes first with the empty mark, and every other node was reached
  over an edge from a node marked before it. The queue holds marked nodes, and the neighbours of
  marked nodes that are not in the queue are marked.
\<close>

definition tree :: "(string, string list) umap \<Rightarrow> string \<Rightarrow> (string, string) umap \<Rightarrow> bool" where
  "tree g src p \<longleftrightarrow> um_ok p \<and> p \<noteq> [] \<and> p ! 0 = (src, [])
     \<and> (\<forall>i. 0 < i \<and> i < length p \<longrightarrow> edge g (snd (p ! i)) (fst (p ! i)) \<and> (\<exists>j < i. fst (p ! j) = snd (p ! i)))"

definition frontier :: "(string, string list) umap \<Rightarrow> (string, string) umap \<Rightarrow> string list \<Rightarrow> bool" where
  "frontier g p q \<longleftrightarrow> set q \<subseteq> fst ` set p
     \<and> (\<forall>u v. u \<in> fst ` set p - set q \<and> edge g u v \<longrightarrow> v \<in> fst ` set p)"

lemma tree_extend:
  assumes "tree g src p" and "distinct new" and "set new = set nbs - fst ` set p"
    and "um_find g cur = Some nbs" and "cur \<in> fst ` set p"
  shows "tree g src (p @ map (\<lambda>n. (n, cur)) new)"
proof -
  let ?p = "p @ map (\<lambda>n. (n, cur)) new"
  have "um_ok ?p" using assms(1-3) by (auto simp: tree_def um_ok_def comp_def)
  moreover obtain k where k: "k < length p" "fst (p ! k) = cur"
    using assms(5) by (auto simp: in_set_conv_nth)
  have "edge g (snd (?p ! i)) (fst (?p ! i)) \<and> (\<exists>j < i. fst (?p ! j) = snd (?p ! i))"
    if i: "0 < i" "i < length ?p" for i
  proof (cases "i < length p")
    case True
    then obtain j where "edge g (snd (p ! i)) (fst (p ! i))" "j < i" "fst (p ! j) = snd (p ! i)"
      using assms(1) i(1) unfolding tree_def by blast
    with True show ?thesis by (auto simp: nth_append intro!: exI [of _ j])
  next
    case False
    then obtain m where m: "i = length p + m" "m < length new" using i(2) by (metis add_diff_inverse_nat length_append length_map nat_add_left_cancel_less)
    have "new ! m \<in> set nbs" using assms(3) m(2) nth_mem by blast
    then have "edge g cur (new ! m)" using assms(4) by (auto simp: edge_def)
    with m k show ?thesis by (auto simp: nth_append intro!: exI [of _ k])
  qed
  ultimately show ?thesis
    using assms(1) unfolding tree_def by (auto simp: nth_append)
qed

lemma bfs_result:
  assumes "tree g src p" and "frontier g p q"
  shows "tree g src (bfs g target p q)
       \<and> (target \<in> fst ` set (bfs g target p q)
            \<or> (\<forall>u v. u \<in> fst ` set (bfs g target p q) \<and> edge g u v \<longrightarrow> v \<in> fst ` set (bfs g target p q)))"
  using assms
proof (induction g target p q rule: bfs.induct)
  case (1 g target parent)
  then show ?case by (auto simp: frontier_def)
next
  case (2 g target parent cur q)
  have cur: "cur \<in> fst ` set parent" using "2.prems"(2) by (simp add: frontier_def)
  show ?case
  proof (cases "cur = target")
    case True
    with "2.prems" cur show ?thesis by simp
  next
    case False
    show ?thesis
    proof (cases "um_find g cur")
      case None
      have "frontier g parent q"
        unfolding frontier_def
      proof (intro conjI allI impI)
        show "set q \<subseteq> fst ` set parent" using "2.prems"(2) by (simp add: frontier_def)
        fix u v assume uv: "u \<in> fst ` set parent - set q \<and> edge g u v"
        then have "u \<noteq> cur" using None by (auto simp: edge_def)
        with uv have "u \<in> fst ` set parent - set (cur # q) \<and> edge g u v" by simp
        with "2.prems"(2) show "v \<in> fst ` set parent" unfolding frontier_def by blast
      qed
      with "2.IH"(1) [OF False None "2.prems"(1)] False None show ?thesis by simp
    next
      case (Some nbs)
      obtain new where v: "visit cur nbs (parent, q) = (parent @ map (\<lambda>n. (n, cur)) new, q @ new)"
        and d: "distinct new" and s: "set new = set nbs - fst ` set parent"
        using visit_new [of cur nbs parent q] by blast
      let ?p = "parent @ map (\<lambda>n. (n, cur)) new"
      have t: "tree g src ?p" using tree_extend [OF "2.prems"(1) d s Some cur] .
      have dom: "fst ` set ?p = fst ` set parent \<union> set nbs"
        by (simp add: image_Un image_image s)
      have "frontier g ?p (q @ new)"
        unfolding frontier_def
      proof (intro conjI allI impI)
        show "set (q @ new) \<subseteq> fst ` set ?p"
          using "2.prems"(2) s unfolding dom frontier_def by auto
        fix u v assume uv: "u \<in> fst ` set ?p - set (q @ new) \<and> edge g u v"
        then have u: "u \<in> fst ` set parent" "u \<notin> set q" "edge g u v" using s unfolding dom by auto
        show "v \<in> fst ` set ?p"
        proof (cases "u = cur")
          case True
          with u(3) Some have "v \<in> set nbs" by (auto simp: edge_def)
          then show ?thesis unfolding dom by blast
        next
          case False
          with u have "u \<in> fst ` set parent - set (cur # q) \<and> edge g u v" by simp
          with "2.prems"(2) show ?thesis unfolding dom frontier_def by blast
        qed
      qed
      with "2.IH"(2) [OF False Some v [symmetric] t] v False Some show ?thesis by simp
    qed
  qed
qed

section \<open>Routes\<close>

lemma tree_parent:
  assumes "tree g src p" and "i < length p"
  shows "um_find p (fst (p ! i)) = Some (snd (p ! i))"
  using assms nth_mem [OF assms(2)] by (auto simp: tree_def intro!: um_in_find)

text \<open>Reading back from any marked node ends, with a path over edges from the source.\<close>

lemma trace_path:
  assumes "tree g src p" and "[] \<notin> fst ` set p" and "i < length p"
  shows "\<exists>path. trace p (fst (p ! i)) acc = Some (path @ acc) \<and> path \<noteq> [] \<and> hd path = src
           \<and> last path = fst (p ! i) \<and> successively (edge g) path"
  using assms(3)
proof (induction i arbitrary: acc rule: less_induct)
  case (less i)
  have ne: "fst (p ! i) \<noteq> []" using assms(2) nth_mem [OF less.prems] by force
  have step: "trace p (fst (p ! i)) acc = trace p (snd (p ! i)) (fst (p ! i) # acc)"
    using ne tree_parent [OF assms(1) less.prems] by (subst trace.simps) simp
  show ?case
  proof (cases "i = 0")
    case True
    then have "p ! i = (src, [])" using assms(1) by (simp add: tree_def)
    with step show ?thesis by (intro exI [of _ "[src]"]) (simp add: trace.simps [of p "[]"])
  next
    case False
    then obtain j where e: "edge g (snd (p ! i)) (fst (p ! i))" and j: "j < i" "fst (p ! j) = snd (p ! i)"
      using assms(1) less.prems unfolding tree_def by blast
    from less.IH [OF j(1), of "fst (p ! i) # acc"] j less.prems obtain path where
      path: "trace p (snd (p ! i)) (fst (p ! i) # acc) = Some (path @ fst (p ! i) # acc)"
        "path \<noteq> []" "hd path = src" "last path = snd (p ! i)" "successively (edge g) path" by auto
    with step e show ?thesis
      by (intro exI [of _ "path @ [fst (p ! i)]"]) (simp add: successively_append_iff)
  qed
qed

lemma tree_start: "tree g src (um_put src [] um_empty)"
  by (auto simp: tree_def um_empty_def um_ok_def)

lemma frontier_start: "frontier g (um_put src [] um_empty) [src]"
  by (simp add: frontier_def um_empty_def)

definition named :: "(string, string list) umap \<Rightarrow> bool" where
  "named g \<longleftrightarrow> [] \<notin> nodes g"

lemma tree_named:
  assumes "tree g src p" and "named g" and "src \<noteq> []"
  shows "[] \<notin> fst ` set p"
proof
  assume "[] \<in> fst ` set p"
  then obtain i where i: "i < length p" "fst (p ! i) = []" by (auto simp: in_set_conv_nth)
  show False
  proof (cases "i = 0")
    case True
    with assms(1,3) i show False by (simp add: tree_def)
  next
    case False
    then have "edge g (snd (p ! i)) (fst (p ! i))" using assms(1) i(1) by (simp add: tree_def)
    then have "fst (p ! i) \<in> nodes g" by (force simp: edge_def nodes_def dest: um_find_in)
    with assms(2) i show False by (simp add: named_def)
  qed
qed

text \<open>
  The search always returns. It finds a route exactly when the target can be reached over the
  channels, and the route then is a path from the source to the target.
\<close>

lemma findRoute_correct:
  assumes "named (graph n)" and "src \<noteq> []"
  shows "\<exists>r. findRoute src dst amt n = Some r
           \<and> (hops r \<noteq> [] \<longleftrightarrow> (edge (graph n))\<^sup>*\<^sup>* src dst)
           \<and> (hops r \<noteq> [] \<longrightarrow> hd (hops r) = src \<and> last (hops r) = dst
                \<and> successively (edge (graph n)) (hops r))"
proof -
  let ?g = "graph n"
  define p where "p = bfs ?g dst (um_put src [] um_empty) [src]"
  note res = bfs_result [OF tree_start frontier_start, of ?g src dst, folded p_def]
  have t: "tree ?g src p" and closed: "dst \<notin> fst ` set p \<Longrightarrow>
      u \<in> fst ` set p \<Longrightarrow> edge ?g u v \<Longrightarrow> v \<in> fst ` set p" for u v
    using res by blast+
  have src: "src \<in> fst ` set p" using t by (force simp: tree_def in_set_conv_nth)
  have route: "findRoute src dst amt n =
      (if um_find p dst = None then Some \<lparr>hops = [], totalFee = None\<rparr>
       else case trace p dst [] of
              None \<Rightarrow> None
            | Some hs \<Rightarrow>
                Some \<lparr>hops = hs, totalFee = Some (if length hs > 2 then of_nat ((length hs - 2) * 10) else 0)\<rparr>)"
    by (simp only: findRoute_def Let_def p_def)
  show ?thesis
  proof (cases "dst \<in> fst ` set p")
    case False
    have "v \<in> fst ` set p" if "(edge ?g)\<^sup>*\<^sup>* src v" for v
      using that by (induction rule: rtranclp_induct) (auto intro: src closed [OF False])
    with False have "\<not> (edge ?g)\<^sup>*\<^sup>* src dst" by blast
    moreover have "um_find p dst = None" using False by (simp add: um_find_None_iff)
    ultimately show ?thesis by (simp add: route)
  next
    case True
    then obtain i where i: "i < length p" "fst (p ! i) = dst" by (auto simp: in_set_conv_nth)
    from trace_path [OF t tree_named [OF t assms] i(1), of "[]"] i(2) obtain path where
      path: "trace p dst [] = Some path" "path \<noteq> []" "hd path = src" "last path = dst"
        "successively (edge ?g) path" by auto
    have "(edge ?g)\<^sup>*\<^sup>* (hd xs) (last xs)" if "successively (edge ?g) xs" "xs \<noteq> []" for xs
      using that
    proof (induction xs rule: induct_list012)
      case (3 x y zs)
      then show ?case by (auto intro: converse_rtranclp_into_rtranclp)
    qed simp_all
    from this [OF path(5,2)] have "(edge ?g)\<^sup>*\<^sup>* src dst" by (simp add: path)
    moreover have "um_find p dst \<noteq> None" using True by (simp add: um_find_None_iff)
    ultimately show ?thesis
      using path by (auto simp: route)
  qed
qed

text \<open>Channels are two-way: both directions are edges after \<open>addChannel\<close>.\<close>

lemma addChannel_edges:
  "edge (graph (addChannel cid a b n)) a b" "edge (graph (addChannel cid a b n)) b a"
  "edge (graph n) u v \<Longrightarrow> edge (graph (addChannel cid a b n)) u v"
  by (auto simp: edge_def addChannel_def push_neighbour_def split: option.splits)

section \<open>Properties\<close>

text \<open>C32: The route search always returns; it finds a route exactly when the target can be reached over
  the open channels, and the route is then a path of neighbours from the source to the target.\<close>

theorem route_found_iff_reachable:
  assumes "named (graph n)" and "src \<noteq> []"
  shows "\<exists>r. findRoute src dst amt n = Some r
           \<and> (hops r \<noteq> [] \<longleftrightarrow> (edge (graph n))\<^sup>*\<^sup>* src dst)
           \<and> (hops r \<noteq> [] \<longrightarrow> hd (hops r) = src \<and> last (hops r) = dst
                \<and> successively (edge (graph n)) (hops r))"
  by (rule findRoute_correct [OF assms])

theorem route_found_iff_reachable_witness:
  "\<exists>r. findRoute ''a'' ''c'' 5 (addChannel ''2'' ''b'' ''c'' (addChannel ''1'' ''a'' ''b'' LightningNetwork_new)) = Some r
     \<and> hops r \<noteq> [] \<and> last (hops r) = ''c''"
proof -
  let ?n = "addChannel ''2'' ''b'' ''c'' (addChannel ''1'' ''a'' ''b'' LightningNetwork_new)"
  have nd: "named (graph ?n)"
    by (simp add: named_def nodes_def addChannel_def push_neighbour_def LightningNetwork_new_def um_put_def
        um_find_def um_empty_def)
  have "edge (graph ?n) ''a'' ''b''" "edge (graph ?n) ''b'' ''c''" by (simp_all add: addChannel_edges)
  then have "(edge (graph ?n))\<^sup>*\<^sup>* ''a'' ''c''" by (meson r_into_rtranclp rtranclp.rtrancl_into_rtrancl)
  with route_found_iff_reachable [OF nd, of "''a''" "''c''" 5] show ?thesis by auto
qed

end
