(* ===== verification/Governance.thy ===== *)
theory Governance
  imports SHA256 Unordered_Map Double_Ratio
begin

text \<open>
  \<open>src/src/governance/proposal.{h,cpp}\<close>, \<open>dao.{h,cpp}\<close>, \<open>vote.h\<close>: proposals, stake-weighted votes,
  the tally (a double ratio, \<open>Double_Ratio\<close>) and the treasury. The clock is an argument. Console
  output is left out.
\<close>

section \<open>Operations\<close>

datatype ProposalStatus = ACTIVE | PASSED | REJECTED | EXPIRED

record Proposal =
  p_id :: string
  title :: string
  description :: string
  proposer :: string
  votesFor :: u64
  votesAgainst :: u64
  status :: ProposalStatus
  expiresAt :: int
  changeParam :: string
  changeValue :: string

record GovernanceSystem =
  proposals :: "(string, Proposal) umap"
  voted :: "(string, string) umap"

definition GovernanceSystem_new :: GovernanceSystem where
  "GovernanceSystem_new = \<lparr>proposals = um_empty, voted = um_empty\<rparr>"

definition MIN_STAKE_VOTE :: u64 where "MIN_STAKE_VOTE = 100 * 100000000"

definition generateProposalId :: "string \<Rightarrow> string \<Rightarrow> GovernanceSystem \<Rightarrow> string" where
  "generateProposalId who name g =
     take 12 (SHA256_hash (who @ name @ nat_str (length (proposals g))))"

text \<open>\<open>now + durationSeconds\<close> is signed: a sum outside 64 bits is undefined behaviour.\<close>

definition submitProposal ::
  "int \<Rightarrow> string \<Rightarrow> string \<Rightarrow> string \<Rightarrow> string \<Rightarrow> string \<Rightarrow> int \<Rightarrow> GovernanceSystem
     \<Rightarrow> (string \<times> GovernanceSystem) result" where
  "submitProposal now who name descr param value duration g =
     (if now + duration < - (2 ^ 63) \<or> 2 ^ 63 \<le> now + duration then Inl Undefined_behaviour
      else
        let pid = generateProposalId who name g;
            p = \<lparr>p_id = pid, title = name, description = descr, proposer = who, votesFor = 0,
                 votesAgainst = 0, status = ACTIVE, expiresAt = now + duration,
                 changeParam = param, changeValue = value\<rparr>
        in Inr (pid, g\<lparr>proposals := um_put pid p (proposals g)\<rparr>))"

definition tally_proposal :: "Proposal \<Rightarrow> Proposal" where
  "tally_proposal p =
     (let tot = votesFor p + votesAgainst p
      in if tot = 0 then p
         else if ratio_passes (unat (votesFor p)) (unat tot) then p\<lparr>status := PASSED\<rparr> else p)"

definition tally :: "string \<Rightarrow> GovernanceSystem \<Rightarrow> GovernanceSystem" where
  "tally pid g =
     (case um_find (proposals g) pid of
        None \<Rightarrow> g
      | Some p \<Rightarrow> g\<lparr>proposals := um_put pid (tally_proposal p) (proposals g)\<rparr>)"

definition cast_vote :: "u64 \<Rightarrow> bool \<Rightarrow> Proposal \<Rightarrow> Proposal" where
  "cast_vote voterStake inFavor p =
     (if inFavor then p\<lparr>votesFor := votesFor p + voterStake\<rparr>
      else p\<lparr>votesAgainst := votesAgainst p + voterStake\<rparr>)"

definition vote :: "string \<Rightarrow> string \<Rightarrow> u64 \<Rightarrow> bool \<Rightarrow> GovernanceSystem \<Rightarrow> bool \<times> GovernanceSystem" where
  "vote pid voter voterStake inFavor g =
     (case um_find (proposals g) pid of
        None \<Rightarrow> (False, g)
      | Some p \<Rightarrow>
          if status p \<noteq> ACTIVE then (False, g)
          else if voterStake < MIN_STAKE_VOTE then (False, g)
          else
            let voteKey = voter @ pid
            in if um_contains (voted g) voteKey then (False, g)
               else (True, tally pid
                      (g\<lparr>voted := um_put voteKey (if inFavor then ''yes'' else ''no'') (voted g),
                         proposals := um_put pid (cast_vote voterStake inFavor p) (proposals g)\<rparr>)))"

definition getProposal :: "string \<Rightarrow> GovernanceSystem \<Rightarrow> Proposal option" where
  "getProposal pid g = um_find (proposals g) pid"

definition getActiveProposals :: "GovernanceSystem \<Rightarrow> Proposal list" where
  "getActiveProposals g = filter (\<lambda>p. status p = ACTIVE) (map snd (proposals g))"

section \<open>The invariant\<close>

definition gov_ok :: "GovernanceSystem \<Rightarrow> bool" where
  "gov_ok g \<longleftrightarrow> um_ok (proposals g) \<and> um_ok (voted g)
     \<and> (\<forall>k p. um_find (proposals g) k = Some p \<longrightarrow> p_id p = k \<and> length k = 12
          \<and> (status p = ACTIVE \<or> status p = PASSED)
          \<and> (status p = PASSED \<longrightarrow> ratio_passes (unat (votesFor p)) (unat (votesFor p + votesAgainst p))))"

datatype gov_op =
    Submit int string string string string string int
  | Vote string string u64 bool

fun gov_apply :: "gov_op \<Rightarrow> GovernanceSystem \<Rightarrow> GovernanceSystem" where
  "gov_apply (Submit now who name descr param value dur) g =
     (case submitProposal now who name descr param value dur g of Inr r \<Rightarrow> snd r | Inl _ \<Rightarrow> g)"
| "gov_apply (Vote pid v st b) g = snd (vote pid v st b g)"

lemma tally_proposal_fields [simp]:
  "p_id (tally_proposal p) = p_id p" "votesFor (tally_proposal p) = votesFor p"
  "votesAgainst (tally_proposal p) = votesAgainst p"
  by (simp_all add: tally_proposal_def Let_def)

lemma cast_vote_fields [simp]: "p_id (cast_vote s b p) = p_id p" "status (cast_vote s b p) = status p"
  by (simp_all add: cast_vote_def)

lemma tally_voted [simp]: "voted (tally pid g) = voted g"
  by (simp add: tally_def split: option.split)

lemma vote_proposals:
  assumes "fst (vote pid v st b g)"
  shows "\<exists>p. um_find (proposals g) pid = Some p \<and> status p = ACTIVE \<and> MIN_STAKE_VOTE \<le> st
           \<and> \<not> um_contains (voted g) (v @ pid)
           \<and> um_find (proposals (snd (vote pid v st b g))) pid = Some (tally_proposal (cast_vote st b p))
           \<and> (\<forall>k. k \<noteq> pid \<longrightarrow> um_find (proposals (snd (vote pid v st b g))) k = um_find (proposals g) k)
           \<and> voted (snd (vote pid v st b g)) = um_put (v @ pid) (if b then ''yes'' else ''no'') (voted g)"
  using assms by (auto simp: vote_def tally_def Let_def split: option.splits if_splits)

lemma vote_refused: "\<not> fst (vote pid v st b g) \<Longrightarrow> snd (vote pid v st b g) = g"
  by (auto simp: vote_def Let_def split: option.splits if_splits)

lemma vote_maps_ok:
  "gov_ok g \<Longrightarrow> um_ok (proposals (snd (vote pid v st b g))) \<and> um_ok (voted (snd (vote pid v st b g)))"
  by (auto simp: gov_ok_def vote_def tally_def Let_def split: option.split)

lemma tally_passes:
  "status p = ACTIVE \<Longrightarrow> status (tally_proposal p) = ACTIVE
     \<or> (status (tally_proposal p) = PASSED \<and> ratio_passes (unat (votesFor p)) (unat (votesFor p + votesAgainst p)))"
  by (auto simp: tally_proposal_def Let_def)

lemma gov_ok_vote:
  assumes "gov_ok g"
  shows "gov_ok (snd (vote pid v st b g))"
proof (cases "fst (vote pid v st b g)")
  case False
  with assms show ?thesis by (simp add: vote_refused)
next
  case True
  from vote_proposals [OF this] obtain p where
    p: "um_find (proposals g) pid = Some p" "status p = ACTIVE"
    and new: "um_find (proposals (snd (vote pid v st b g))) pid = Some (tally_proposal (cast_vote st b p))"
    and old: "\<forall>k. k \<noteq> pid \<longrightarrow> um_find (proposals (snd (vote pid v st b g))) k = um_find (proposals g) k"
    by blast
  have "p_id q = k \<and> length k = 12 \<and> (status q = ACTIVE \<or> status q = PASSED)
          \<and> (status q = PASSED \<longrightarrow> ratio_passes (unat (votesFor q)) (unat (votesFor q + votesAgainst q)))"
    if "um_find (proposals (snd (vote pid v st b g))) k = Some q" for k q
  proof (cases "k = pid")
    case True
    with that new have q: "q = tally_proposal (cast_vote st b p)" by simp
    from p assms have "p_id p = pid" "length pid = 12" by (auto simp: gov_ok_def)
    with True q tally_passes [of "cast_vote st b p"] p(2) show ?thesis by auto
  next
    case False
    with that old assms show ?thesis by (simp add: gov_ok_def)
  qed
  then show ?thesis using vote_maps_ok [OF assms, of pid v st b] unfolding gov_ok_def by blast
qed

lemma length_generateProposalId [simp]: "length (generateProposalId who name g) = 12"
  by (simp add: generateProposalId_def sha.prefix_length)

lemma gov_ok_submit:
  assumes "gov_ok g" and "submitProposal now who name descr param value dur g = Inr r"
  shows "gov_ok (snd r)"
proof -
  define p where "p = \<lparr>p_id = generateProposalId who name g, title = name, description = descr,
    proposer = who, votesFor = 0, votesAgainst = 0, status = ACTIVE, expiresAt = now + dur,
    changeParam = param, changeValue = value\<rparr>"
  from assms(2) have r: "snd r = g\<lparr>proposals := um_put (p_id p) p (proposals g)\<rparr>"
    by (auto simp: submitProposal_def Let_def p_def split: if_splits)
  have p: "length (p_id p) = 12" "status p = ACTIVE" by (simp_all add: p_def)
  show ?thesis
    using assms(1) p unfolding r gov_ok_def by simp
qed

lemma gov_apply_ok: "gov_ok g \<Longrightarrow> gov_ok (gov_apply x g)"
  by (cases x) (auto simp: gov_ok_vote gov_ok_submit split: sum.split)

text \<open>Votes are never taken back: the set of vote keys only grows.\<close>

definition vote_keys :: "GovernanceSystem \<Rightarrow> string set" where
  "vote_keys g = fst ` set (voted g)"

lemma vote_keys_iff: "k \<in> vote_keys g \<longleftrightarrow> um_contains (voted g) k"
  using um_find_None_iff [of "voted g" k] by (auto simp: vote_keys_def um_contains_def)

lemma vote_keys_grow: "vote_keys g \<subseteq> vote_keys (gov_apply x g)"
proof (cases x)
  case (Submit now who name descr param v dur)
  then show ?thesis
    by (auto simp: submitProposal_def vote_keys_def Let_def split: sum.split)
next
  case (Vote pid v st b)
  show ?thesis
  proof (cases "fst (vote pid v st b g)")
    case True
    from vote_proposals [OF this] Vote show ?thesis by (auto simp: vote_keys_iff um_contains_def)
  next
    case False
    with Vote show ?thesis by (simp add: vote_refused)
  qed
qed

interpretation gov: monotone_run gov_apply gov_ok vote_keys
  by unfold_locales (auto intro: gov_apply_ok dest: subsetD [OF vote_keys_grow])

lemma gov_ok_new: "gov_ok GovernanceSystem_new"
  by (simp add: gov_ok_def GovernanceSystem_new_def)

text \<open>One vote per voter and proposal, whatever happens in between.\<close>

lemma no_second_vote:
  assumes "gov_ok g" and "fst (vote pid v st b g)"
  shows "\<not> fst (vote pid v st' b' (fold gov_apply ops (snd (vote pid v st b g))))"
proof -
  let ?g = "snd (vote pid v st b g)"
  have "v @ pid \<in> vote_keys ?g"
    using vote_proposals [OF assms(2)] by (auto simp: vote_keys_iff um_contains_def)
  then have "v @ pid \<in> vote_keys (fold gov_apply ops ?g)"
    using gov.run_grows [OF gov_ok_vote [OF assms(1)]] by blast
  then show ?thesis
    using vote_proposals [of pid v st' b' "fold gov_apply ops ?g"] by (auto simp: vote_keys_iff)
qed

text \<open>
  Keys of different votes are different: identifiers have 12 characters, so \<open>voter + id\<close> can be
  read in one way only, and no voter blocks another.
\<close>

lemma vote_key_inject:
  "length p = 12 \<Longrightarrow> length p' = 12 \<Longrightarrow> v @ p = v' @ p' \<longleftrightarrow> v = v' \<and> p = p'"
  by simp

lemma other_voter_allowed:
  assumes "gov_ok g" and "fst (vote pid v st b g)" and "v' \<noteq> v"
    and "um_contains (voted g) (v' @ pid) = False"
    and "um_find (proposals (snd (vote pid v st b g))) pid = Some p" and "status p = ACTIVE"
    and "MIN_STAKE_VOTE \<le> st'"
  shows "fst (vote pid v' st' b' (snd (vote pid v st b g)))"
proof -
  have "\<not> um_contains (voted (snd (vote pid v st b g))) (v' @ pid)"
    using vote_proposals [OF assms(2)] assms(3,4) by (auto simp: um_contains_def)
  with assms(5-7) show ?thesis by (auto simp: vote_def Let_def not_less)
qed

text \<open>An accepted vote adds exactly its stake to its side, and decides by the 67% rule.\<close>

lemma vote_counts:
  assumes "gov_ok g" and "um_find (proposals g) pid = Some p" and "fst (vote pid v st b g)"
    and "unat (votesFor p) + unat (votesAgainst p) + unat st \<le> 600000000000000"
  shows "\<exists>q. um_find (proposals (snd (vote pid v st b g))) pid = Some q
           \<and> unat (votesFor q) = unat (votesFor p) + (if b then unat st else 0)
           \<and> unat (votesAgainst q) = unat (votesAgainst p) + (if b then 0 else unat st)
           \<and> (status q = PASSED \<longleftrightarrow> 67 * (unat (votesFor q) + unat (votesAgainst q)) \<le> 100 * unat (votesFor q))"
proof -
  from vote_proposals [OF assms(3)] assms(2) have act: "status p = ACTIVE" and st: "MIN_STAKE_VOTE \<le> st"
    and q: "um_find (proposals (snd (vote pid v st b g))) pid = Some (tally_proposal (cast_vote st b p))"
    by auto
  let ?c = "cast_vote st b p"
  have f: "unat (votesFor ?c) = unat (votesFor p) + (if b then unat st else 0)"
    and a: "unat (votesAgainst ?c) = unat (votesAgainst p) + (if b then 0 else unat st)"
    using assms(4) by (auto simp: cast_vote_def intro!: unat_add_no_wrap)
  have tot: "unat (votesFor ?c + votesAgainst ?c) = unat (votesFor ?c) + unat (votesAgainst ?c)"
    using assms(4) f a by (intro unat_add_no_wrap) auto
  have "0 < unat st" using st by (simp add: MIN_STAKE_VOTE_def word_le_nat_alt)
  then have pos: "0 < unat (votesFor ?c + votesAgainst ?c)" using f a tot by auto
  then have nz: "votesFor ?c + votesAgainst ?c \<noteq> 0" by (auto simp: unat_eq_0)
  have "ratio_passes (unat (votesFor ?c)) (unat (votesFor ?c + votesAgainst ?c)) \<longleftrightarrow>
          67 * unat (votesFor ?c + votesAgainst ?c) \<le> 100 * unat (votesFor ?c)"
    using pos assms(4) f a tot by (intro ratio_passes_iff) auto
  then have "status (tally_proposal ?c) = PASSED \<longleftrightarrow>
      67 * (unat (votesFor ?c) + unat (votesAgainst ?c)) \<le> 100 * unat (votesFor ?c)"
    using nz act tot by (auto simp: tally_proposal_def Let_def)
  with q f a show ?thesis by (intro exI [of _ "tally_proposal ?c"]) (simp only: tally_proposal_fields simp_thms)
qed

text \<open>A single vote in favour passes a proposal at once, whatever the stake behind it.\<close>

lemma first_vote_passes:
  assumes "um_find (proposals g) pid = Some p" and "status p = ACTIVE" and "votesFor p = 0" and "votesAgainst p = 0"
    and "MIN_STAKE_VOTE \<le> st" and "unat st \<le> 600000000000000" and "\<not> um_contains (voted g) (v @ pid)"
  shows "fst (vote pid v st True g)"
    and "\<exists>q. um_find (proposals (snd (vote pid v st True g))) pid = Some q \<and> status q = PASSED"
proof -
  have pos: "0 < unat st" using assms(5) by (simp add: MIN_STAKE_VOTE_def word_le_nat_alt)
  then have "ratio_passes (unat st) (unat st)" "st \<noteq> 0" using ratio_passes_iff [of "unat st" "unat st"] assms(6) by auto
  then show "fst (vote pid v st True g)"
    and "\<exists>q. um_find (proposals (snd (vote pid v st True g))) pid = Some q \<and> status q = PASSED"
    using assms by (auto simp: vote_def tally_def tally_proposal_def cast_vote_def Let_def not_less)
qed

section \<open>The treasury\<close>

record DAO =
  treasury :: u64
  gov_system :: GovernanceSystem

definition DAO_new :: DAO where
  "DAO_new = \<lparr>treasury = 0, gov_system = GovernanceSystem_new\<rparr>"

definition addFunds :: "u64 \<Rightarrow> DAO \<Rightarrow> DAO" where
  "addFunds x d = d\<lparr>treasury := treasury d + x\<rparr>"

definition spendTreasury :: "u64 \<Rightarrow> string \<Rightarrow> string \<Rightarrow> DAO \<Rightarrow> bool \<times> DAO" where
  "spendTreasury x purpose recipient d =
     (if x > treasury d then (False, d) else (True, d\<lparr>treasury := treasury d - x\<rparr>))"

datatype dao_op = Fund u64 | Spend u64 string string

fun dao_apply :: "dao_op \<Rightarrow> DAO \<Rightarrow> DAO" where
  "dao_apply (Fund x) d = addFunds x d"
| "dao_apply (Spend x p r) d = snd (spendTreasury x p r d)"

text \<open>What a sequence of operations puts in, and what its successful spendings take out.\<close>

fun funded :: "dao_op list \<Rightarrow> nat" where
  "funded [] = 0"
| "funded (Fund x # ops) = unat x + funded ops"
| "funded (Spend x p r # ops) = funded ops"

fun spent :: "dao_op list \<Rightarrow> DAO \<Rightarrow> nat" where
  "spent [] d = 0"
| "spent (Fund x # ops) d = spent ops (addFunds x d)"
| "spent (Spend x p r # ops) d =
     (if fst (spendTreasury x p r d) then unat x else 0) + spent ops (snd (spendTreasury x p r d))"

lemma treasury_balance:
  assumes "unat (treasury d) + funded ops < 2 ^ 64"
  shows "unat (treasury (fold dao_apply ops d)) + spent ops d = unat (treasury d) + funded ops"
  using assms
proof (induction ops arbitrary: d)
  case (Cons x ops)
  show ?case
  proof (cases x)
    case (Fund a)
    have "unat (treasury d + a) = unat (treasury d) + unat a"
      using Cons.prems Fund by (intro unat_add_no_wrap) simp
    with Cons Fund show ?thesis by (simp add: addFunds_def)
  next
    case (Spend a p r)
    show ?thesis
    proof (cases "a > treasury d")
      case True
      with Cons Spend show ?thesis by (simp add: spendTreasury_def)
    next
      case False
      then have le: "unat a \<le> unat (treasury d)" by (simp add: word_less_nat_alt)
      then have sub: "unat (treasury d - a) = unat (treasury d) - unat a" by (rule unat_sub_no_wrap)
      then have "unat (treasury (d\<lparr>treasury := treasury d - a\<rparr>)) + funded ops < 2 ^ 64"
        using Cons.prems Spend le by simp
      from Cons.IH [OF this] Spend False le sub show ?thesis
        by (simp add: spendTreasury_def)
    qed
  qed
qed simp

section \<open>Properties\<close>

definition one_proposal :: GovernanceSystem where
  "one_proposal = GovernanceSystem_new\<lparr>proposals := um_put ''abcdefghijkl''
     \<lparr>p_id = ''abcdefghijkl'', title = ''t'', description = [], proposer = ''p'', votesFor = 0, votesAgainst = 0,
      status = ACTIVE, expiresAt = 10, changeParam = [], changeValue = []\<rparr> um_empty\<rparr>"

lemma one_proposal_ok: "gov_ok one_proposal"
  by (auto simp: gov_ok_def one_proposal_def GovernanceSystem_new_def split: if_splits)



text \<open>The first vote decides alone: a single vote in favour with the minimum stake passes a
  proposal at once, whenever it expires.\<close>

theorem first_vote_decides:
  assumes "um_find (proposals g) pid = Some p" and "status p = ACTIVE" and "votesFor p = 0" and "votesAgainst p = 0"
    and "MIN_STAKE_VOTE \<le> st" and "unat st \<le> 600000000000000" and "\<not> um_contains (voted g) (v @ pid)"
  shows "fst (vote pid v st True g)
       \<and> (\<exists>q. getProposal pid (snd (vote pid v st True g)) = Some q \<and> status q = PASSED)"
  using first_vote_passes [OF assms] by (simp add: getProposal_def)

theorem first_vote_decides_witness:
  "fst (vote ''abcdefghijkl'' ''v'' MIN_STAKE_VOTE True one_proposal)"
  using first_vote_decides [of one_proposal "''abcdefghijkl''" _ MIN_STAKE_VOTE "''v''"]
  by (simp add: one_proposal_def GovernanceSystem_new_def um_contains_def MIN_STAKE_VOTE_def)

text \<open>The treasury never pays out more than it has received: after any sequence of deposits and
  spendings whose deposits fit 64 bits, what is left and what was spent add up to what came in.\<close>

theorem treasury_conserved:
  assumes "funded ops < 2 ^ 64"
  shows "unat (treasury (fold dao_apply ops DAO_new)) + spent ops DAO_new = funded ops"
  using treasury_balance [of DAO_new ops] assms by (simp add: DAO_new_def)

theorem treasury_conserved_witness:
  "unat (treasury (fold dao_apply [Fund 50, Spend 60 ''x'' ''r'', Spend 20 ''y'' ''r''] DAO_new)) = 30"
  using treasury_conserved [of "[Fund 50, Spend 60 ''x'' ''r'', Spend 20 ''y'' ''r'']"]
  by (simp add: DAO_new_def addFunds_def spendTreasury_def)

end
