(* ===== verification/Channel.thy ===== *)
theory Channel
  imports SHA256 Unordered_Map
begin

text \<open>
  \<open>src/src/layer2/channel.{h,cpp}\<close> and \<open>sidechain.{h,cpp}\<close>: two-party payment channels, and the peg
  of the side chain. Console output is left out.
\<close>

section \<open>Operations\<close>

datatype ChannelState = OPEN | ACTIVE | CLOSING | CLOSED

record Channel =
  channelId :: string
  partyA :: string
  partyB :: string
  balanceA :: u64
  balanceB :: u64
  totalLocked :: u64
  sequenceNum :: u32
  ch_state :: ChannelState
  latestStateHash :: string

type_synonym PaymentChannel = "(string, Channel) umap"

definition generateChannelId :: "string \<Rightarrow> string \<Rightarrow> PaymentChannel \<Rightarrow> string" where
  "generateChannelId a b chs = take 16 (SHA256_hash (a @ b @ nat_str (length chs)))"

definition openChannel :: "string \<Rightarrow> string \<Rightarrow> u64 \<Rightarrow> u64 \<Rightarrow> PaymentChannel \<Rightarrow> string \<times> PaymentChannel" where
  "openChannel a b amountA amountB chs =
     (let cid = generateChannelId a b chs;
          chn = \<lparr>channelId = cid, partyA = a, partyB = b, balanceA = amountA, balanceB = amountB,
                totalLocked = amountA + amountB, sequenceNum = 0, ch_state = ACTIVE,
                latestStateHash = SHA256_hash (a @ b @ nat_str (unat amountA) @ nat_str (unat amountB))\<rparr>
      in (cid, um_put cid chn chs))"

text \<open>The transfer inside a channel: \<open>None\<close> for the branch without enough balance.\<close>

definition transfer :: "string \<Rightarrow> u64 \<Rightarrow> Channel \<Rightarrow> Channel option" where
  "transfer sender amt chn =
     (if sender = partyA chn \<and> balanceA chn \<ge> amt
      then Some (chn\<lparr>balanceA := balanceA chn - amt, balanceB := balanceB chn + amt\<rparr>)
      else if sender = partyB chn \<and> balanceB chn \<ge> amt
      then Some (chn\<lparr>balanceB := balanceB chn - amt, balanceA := balanceA chn + amt\<rparr>)
      else None)"

definition pay :: "string \<Rightarrow> string \<Rightarrow> u64 \<Rightarrow> PaymentChannel \<Rightarrow> bool \<times> PaymentChannel" where
  "pay cid sender amt chs =
     (case um_find chs cid of
        None \<Rightarrow> (False, chs)
      | Some chn \<Rightarrow>
          if ch_state chn \<noteq> ACTIVE then (False, chs)
          else case transfer sender amt chn of
                 None \<Rightarrow> (False, chs)
               | Some chn' \<Rightarrow>
                   (True, um_put cid
                      (chn'\<lparr>sequenceNum := sequenceNum chn' + 1,
                           latestStateHash := SHA256_hash (latestStateHash chn' @ nat_str (unat amt))\<rparr>) chs))"

definition closeChannel :: "string \<Rightarrow> PaymentChannel \<Rightarrow> bool \<times> PaymentChannel" where
  "closeChannel cid chs =
     (case um_find chs cid of
        None \<Rightarrow> (False, chs)
      | Some chn \<Rightarrow> (True, um_put cid (chn\<lparr>ch_state := CLOSED\<rparr>) chs))"

definition getChannel :: "string \<Rightarrow> PaymentChannel \<Rightarrow> Channel option" where
  "getChannel cid chs = um_find chs cid"

definition getChannels :: "string \<Rightarrow> PaymentChannel \<Rightarrow> string list" where
  "getChannels addr chs =
     map fst (filter (\<lambda>e. partyA (snd e) = addr \<or> partyB (snd e) = addr) chs)"

section \<open>Conservation\<close>

text \<open>The two balances of a channel add up to what was locked, without wrap-around.\<close>

definition balanced :: "Channel \<Rightarrow> bool" where
  "balanced chn \<longleftrightarrow> unat (balanceA chn) + unat (balanceB chn) = unat (totalLocked chn)"

lemma move_exact:
  assumes "amt \<le> a" and "unat a + unat b < 2 ^ 64"
  shows "unat (a - amt :: u64) + unat (b + amt) = unat a + unat b"
proof -
  have "unat amt \<le> unat a" using assms(1) by (simp add: word_le_nat_alt)
  then have "unat (a - amt) = unat a - unat amt" and "unat (b + amt) = unat b + unat amt"
    using assms(2) by (auto intro!: unat_sub_no_wrap unat_add_no_wrap)
  with \<open>unat amt \<le> unat a\<close> show ?thesis by simp
qed

lemma transfer_balanced:
  assumes "balanced chn" and "transfer sender amt chn = Some chn'"
  shows "balanced chn'" and "totalLocked chn' = totalLocked chn"
    and "partyA chn' = partyA chn" and "partyB chn' = partyB chn" and "ch_state chn' = ch_state chn"
proof -
  have lt: "unat (balanceA chn) + unat (balanceB chn) < 2 ^ 64" "unat (balanceB chn) + unat (balanceA chn) < 2 ^ 64"
    using assms(1) unat_u64_less [of "totalLocked chn"] by (simp_all add: balanced_def)
  show "balanced chn'" and "totalLocked chn' = totalLocked chn"
    and "partyA chn' = partyA chn" and "partyB chn' = partyB chn" and "ch_state chn' = ch_state chn"
    using assms move_exact [OF _ lt(1)] move_exact [OF _ lt(2)]
    by (auto simp: transfer_def balanced_def add.commute split: if_splits)
qed

definition channels_ok :: "PaymentChannel \<Rightarrow> bool" where
  "channels_ok chs \<longleftrightarrow> um_ok chs \<and> (\<forall>k chn. um_find chs k = Some chn \<longrightarrow> balanced chn \<and> channelId chn = k)"

datatype ch_op = Open string string u64 u64 | Pay string string u64 | Close string

text \<open>Opening with amounts whose sum does not fit is left out of the runs.\<close>

fun ch_apply :: "ch_op \<Rightarrow> PaymentChannel \<Rightarrow> PaymentChannel" where
  "ch_apply (Open a b x y) chs =
     (if unat x + unat y < 2 ^ 64 then snd (openChannel a b x y chs) else chs)"
| "ch_apply (Pay c s x) chs = snd (pay c s x chs)"
| "ch_apply (Close c) chs = snd (closeChannel c chs)"

lemma openChannel_ok [preserves]:
  assumes "channels_ok chs" and "unat x + unat y < 2 ^ 64"
  shows "channels_ok (snd (openChannel a b x y chs))"
  using assms unat_add_no_wrap [of x y]
  by (auto simp: channels_ok_def openChannel_def Let_def balanced_def)

lemma transfer_id: "transfer s x chn = Some chn' \<Longrightarrow> channelId chn' = channelId chn"
  by (auto simp: transfer_def split: if_splits)

lemma pay_ok [preserves]: "channels_ok chs \<Longrightarrow> channels_ok (snd (pay c s x chs))"
  using transfer_balanced(1) transfer_id
  by (fastforce simp: channels_ok_def pay_def balanced_def split: option.splits)

lemma closeChannel_ok [preserves]: "channels_ok chs \<Longrightarrow> channels_ok (snd (closeChannel c chs))"
  by (auto simp: channels_ok_def closeChannel_def balanced_def split: option.splits)

lemma ch_apply_ok: "channels_ok chs \<Longrightarrow> channels_ok (ch_apply x chs)"
  by (cases x) (auto intro: preserves)

lemma length_ch_apply: "length chs \<le> length (ch_apply x chs)"
  by (cases x) (auto simp: openChannel_def pay_def closeChannel_def length_um_put Let_def split: option.splits)

interpretation channels: monotone_run ch_apply channels_ok length
  by unfold_locales (auto intro: ch_apply_ok length_ch_apply)

lemma channels_ok_empty: "channels_ok um_empty"
  by (simp add: channels_ok_def)

text \<open>When a payment goes through, and what it does to the channel.\<close>

lemma pay_iff:
  "fst (pay c s x chs) \<longleftrightarrow>
     (\<exists>chn. um_find chs c = Some chn \<and> ch_state chn = ACTIVE
        \<and> (s = partyA chn \<and> x \<le> balanceA chn \<or> s = partyB chn \<and> x \<le> balanceB chn))"
  by (auto simp: pay_def transfer_def split: option.splits)

lemma pay_from_A:
  assumes "channels_ok chs" and "um_find chs c = Some chn" and "ch_state chn = ACTIVE" and "x \<le> balanceA chn"
  shows "\<exists>chn'. um_find (snd (pay c (partyA chn) x chs)) c = Some chn'
           \<and> unat (balanceA chn') = unat (balanceA chn) - unat x
           \<and> unat (balanceB chn') = unat (balanceB chn) + unat x
           \<and> sequenceNum chn' = sequenceNum chn + 1"
proof -
  have "balanced chn" using assms(1,2) by (simp add: channels_ok_def)
  then have lt: "unat (balanceA chn) + unat (balanceB chn) < 2 ^ 64"
    using unat_u64_less [of "totalLocked chn"] by (simp add: balanced_def)
  have le: "unat x \<le> unat (balanceA chn)" using assms(4) by (simp add: word_le_nat_alt)
  have "unat (balanceA chn - x) = unat (balanceA chn) - unat x"
    using le by (rule unat_sub_no_wrap)
  moreover have "unat (balanceB chn + x) = unat (balanceB chn) + unat x"
    using le lt by (intro unat_add_no_wrap) simp
  ultimately show ?thesis using assms(2-4) by (simp add: pay_def transfer_def)
qed

text \<open>A closed channel stays closed and takes no payment.\<close>

lemma closed_pay: "um_find chs c = Some chn \<Longrightarrow> ch_state chn = CLOSED \<Longrightarrow> pay c s x chs = (False, chs)"
  by (simp add: pay_def)

section \<open>The peg of the side chain\<close>

record Peg =
  mainChainTxHash :: string
  sidechainAddress :: string
  peg_amount :: u64
  claimed :: bool

definition lockFunds :: "string \<Rightarrow> string \<Rightarrow> u64 \<Rightarrow> Peg" where
  "lockFunds mainTxHash sidechainAddr amt =
     \<lparr>mainChainTxHash = mainTxHash, sidechainAddress = sidechainAddr, peg_amount = amt, claimed = False\<rparr>"

definition unlockFunds :: "string \<Rightarrow> bool" where
  "unlockFunds pegId = True"

section \<open>Properties\<close>



end
