(* ===== verification/Protocol.thy ===== *)
theory Protocol
  imports SHA256 Std_Sort
begin

text \<open>
  \<open>src/src/network/protocol.{h,cpp}\<close>: the messages of the wire protocol and their checksum;
  \<open>peer.{h,cpp}\<close>: the scores of peers; \<open>sync.{h,cpp}\<close>, \<open>tor.{h,cpp}\<close>, \<open>dns_seed.{h,cpp}\<close>: the
  stand-ins for synchronisation, Tor and DNS seeds. \<open>Message::deserialize\<close> is declared but never
  defined. The clock is an argument, \<open>std::sort\<close> is a parameter, \<open>sort_by\<close>, and a
  sum outside the range of \<open>int\<close> is undefined behaviour. Console output is left out.
\<close>

section \<open>Messages\<close>

datatype MessageType =
    VERSION | VERACK | PING | PONG | GETBLOCKS | BLOCK | TX | GETADDR | ADDR | INV | GETDATA | REJECT

fun type_code :: "MessageType \<Rightarrow> u8" where
  "type_code VERSION = 0x01"
| "type_code VERACK = 0x02"
| "type_code PING = 0x03"
| "type_code PONG = 0x04"
| "type_code GETBLOCKS = 0x05"
| "type_code BLOCK = 0x06"
| "type_code TX = 0x07"
| "type_code GETADDR = 0x08"
| "type_code ADDR = 0x09"
| "type_code INV = 0x0A"
| "type_code GETDATA = 0x0B"
| "type_code REJECT = 0x0C"

record Message =
  magic :: u32
  m_type :: MessageType
  m_length :: u32
  m_payload :: string
  checksum :: string

definition Message_serialize :: "Message \<Rightarrow> string" where
  "Message_serialize m =
     nat_str (unat (magic m)) @ nat_str (unat (type_code (m_type m))) @ nat_str (unat (m_length m)) @ m_payload m"

definition Message_isValid :: "Message \<Rightarrow> bool" where
  "Message_isValid m \<longleftrightarrow> take 8 (SHA256_hash (SHA256_hash (m_payload m))) = checksum m"

definition makeMsg :: "MessageType \<Rightarrow> string \<Rightarrow> Message" where
  "makeMsg t payload =
     \<lparr>magic = 0x52455843, m_type = t, m_length = of_nat (length payload), m_payload = payload,
      checksum = take 8 (SHA256_hash (SHA256_hash payload))\<rparr>"

definition makeVersion :: "u32 \<Rightarrow> Message" where
  "makeVersion blockHeight =
     makeMsg VERSION (''version=1,height='' @ nat_str (unat blockHeight) @ '',agent=RexCoin/0.1'')"

definition makePing :: Message where "makePing = makeMsg PING ''ping''"

definition makePong :: "Message \<Rightarrow> Message" where "makePong m = makeMsg PONG ''pong''"

definition makeBlock :: "string \<Rightarrow> Message" where "makeBlock d = makeMsg BLOCK d"

definition makeTx :: "string \<Rightarrow> Message" where "makeTx d = makeMsg TX d"

definition makeGetBlocks :: "u32 \<Rightarrow> Message" where
  "makeGetBlocks h = makeMsg GETBLOCKS (nat_str (unat h))"

section \<open>Peers\<close>

record PeerScore =
  ps_nodeId :: string
  score :: int
  ps_lastSeen :: u64
  bytesRecv :: u64
  bytesSent :: u64

definition PeerManager_addPeer :: "int \<Rightarrow> string \<Rightarrow> PeerScore list \<Rightarrow> PeerScore list" where
  "PeerManager_addPeer now ident ps =
     ps @ [\<lparr>ps_nodeId = ident, score = 100, ps_lastSeen = of_int now, bytesRecv = 0, bytesSent = 0\<rparr>]"

definition PeerManager_removePeer :: "string \<Rightarrow> PeerScore list \<Rightarrow> PeerScore list" where
  "PeerManager_removePeer ident ps = filter (\<lambda>p. \<not> ps_nodeId p = ident) ps"

definition int32_ok :: "int \<Rightarrow> bool" where
  "int32_ok i \<longleftrightarrow> - (2 ^ 31) \<le> i \<and> i < 2 ^ 31"

text \<open>The first entry with the identifier is changed.\<close>

fun updateScore :: "string \<Rightarrow> int \<Rightarrow> PeerScore list \<Rightarrow> PeerScore list result" where
  "updateScore ident delta [] = Inr []"
| "updateScore ident delta (p # ps) =
     (if ps_nodeId p = ident then
        if int32_ok (score p + delta) then Inr (p\<lparr>score := score p + delta\<rparr> # ps) else Inl Undefined_behaviour
      else bind_result (updateScore ident delta ps) (\<lambda>ps'. Inr (p # ps')))"

text \<open>
  \<open>resize(count)\<close> with a negative count asks for more elements than a vector can hold and
  throws; the comparison before it is signed.
\<close>

definition getBestPeers ::
  "((PeerScore \<Rightarrow> PeerScore \<Rightarrow> bool) \<Rightarrow> PeerScore list \<Rightarrow> PeerScore list) \<Rightarrow> int \<Rightarrow> PeerScore list
     \<Rightarrow> PeerScore list result" where
  "getBestPeers sort_by cnt ps =
     (let sorted = sort_by (\<lambda>a b. score b < score a) ps
      in if int (length sorted) > cnt then
           if cnt < 0 then Inl Length_error else Inr (take (nat cnt) sorted)
         else Inr sorted)"

definition PeerManager_count :: "PeerScore list \<Rightarrow> nat" where
  "PeerManager_count ps = length ps"

section \<open>Synchronisation, Tor and seeds\<close>

record ChainSync =
  syncing :: bool
  targetHeight :: u32

definition ChainSync_new :: ChainSync where
  "ChainSync_new = \<lparr>syncing = False, targetHeight = 0\<rparr>"

definition isSyncing :: "ChainSync \<Rightarrow> bool" where
  "isSyncing s = syncing s"

definition startSync :: "string \<Rightarrow> u32 \<Rightarrow> ChainSync \<Rightarrow> ChainSync" where
  "startSync peer ourHeight s = s\<lparr>syncing := True\<rparr>"

definition onBlockReceived :: "string \<Rightarrow> ChainSync \<Rightarrow> ChainSync" where
  "onBlockReceived blockData s = s"

record TorSupport =
  enabled :: bool
  onionAddr :: string

definition TorSupport_init :: "string \<Rightarrow> TorSupport \<Rightarrow> bool \<times> TorSupport" where
  "TorSupport_init proxy t = (False, t\<lparr>enabled := False, onionAddr := []\<rparr>)"

definition isEnabled :: "TorSupport \<Rightarrow> bool" where
  "isEnabled t = enabled t"

definition getOnionAddress :: "TorSupport \<Rightarrow> string" where
  "getOnionAddress t = onionAddr t"

definition TorSupport_stop :: "TorSupport \<Rightarrow> TorSupport" where
  "TorSupport_stop t = t\<lparr>enabled := False\<rparr>"

record SeedNode =
  host :: string
  port :: u16
  seed_description :: string

definition SEEDS :: "SeedNode list" where
  "SEEDS =
     [\<lparr>host = ''seed1.rexnetwork.io'', port = 8333, seed_description = ''RexCoin Primary Seed''\<rparr>,
      \<lparr>host = ''seed2.rexnetwork.io'', port = 8333, seed_description = ''RexCoin Secondary Seed''\<rparr>,
      \<lparr>host = ''seed3.rexnetwork.io'', port = 8333, seed_description = ''RexCoin Tertiary Seed''\<rparr>,
      \<lparr>host = ''testnet.rexnetwork.io'', port = 18333, seed_description = ''RexCoin Testnet Seed''\<rparr>]"

definition getSeeds :: "SeedNode list" where "getSeeds = SEEDS"

definition resolve :: "string \<Rightarrow> string list" where "resolve hostname = [''127.0.0.1'']"

definition isReachable :: "string \<Rightarrow> u16 \<Rightarrow> bool" where "isReachable ip p = False"

section \<open>Lemmas\<close>

lemma makeMsg_valid: "Message_isValid (makeMsg t payload)"
  by (simp add: Message_isValid_def makeMsg_def)

text \<open>The checksum covers the payload only; the same text can be a different message.\<close>

lemma checksum_payload_only:
  "Message_isValid (m\<lparr>m_type := t, m_length := l, magic := g\<rparr>) \<longleftrightarrow> Message_isValid m"
  by (simp add: Message_isValid_def)

lemma serialize_ambiguous:
  assumes "length d = 10"
  shows "Message_serialize (makeMsg VERSION (CHR ''0'' # d)) = Message_serialize (makeMsg GETDATA d)"
proof -
  have "nat_str 1 @ nat_str 11 = nat_str 11 @ ''1''" "nat_str 10 = ''1'' @ ''0''"
    by (simp_all add: nat_str_def num_str.simps digit_char_def) code_simp+
  with assms show ?thesis
    by (simp add: Message_serialize_def makeMsg_def)
qed

lemma updateScore_other:
  assumes "updateScore ident delta ps = Inr ps'"
  shows "length ps' = length ps \<and> filter (\<lambda>p. ps_nodeId p \<noteq> ident) ps' = filter (\<lambda>p. ps_nodeId p \<noteq> ident) ps
         \<and> map ps_nodeId ps' = map ps_nodeId ps"
  using assms by (induction ps arbitrary: ps') (auto split: if_splits)

lemma updateScore_first:
  assumes "ps_nodeId p = ident" and "ident \<notin> ps_nodeId ` set us" and "int32_ok (score p + delta)"
  shows "updateScore ident delta (us @ p # vs) = Inr (us @ p\<lparr>score := score p + delta\<rparr> # vs)"
  using assms by (induction us) auto

lemma getBestPeers_best:
  assumes "std_sort sort_by" and "0 \<le> cnt"
  shows "\<exists>best. getBestPeers sort_by cnt ps = Inr best \<and> length best = min (nat cnt) (length ps)
       \<and> set best \<subseteq> set ps
       \<and> (\<forall>a b. a \<in> set best \<and> b \<in> set ps \<and> b \<notin> set best \<longrightarrow> score b \<le> score a)"
proof -
  let ?p = "sort_by (\<lambda>a b. score b < score a) ps"
  have "getBestPeers sort_by cnt ps = Inr (take (nat cnt) ?p)"
    using assms(2) by (auto simp: getBestPeers_def Let_def take_all_iff nat_le_iff)
  with std_sort_set [OF assms(1), of score ps] std_sort_best [OF assms(1), of _ "nat cnt" score ps]
    set_take_subset [of "nat cnt" ?p]
  show ?thesis by (auto simp: min.commute)
qed

section \<open>Properties\<close>

text \<open>The messages the program builds carry a checksum that its check accepts, but the checksum
  covers the payload alone, and the serialised text is ambiguous: a \<open>VERSION\<close> message and a \<open>GETDATA\<close>
  message with different payloads have the same text.\<close>

theorem messages_ambiguous:
  assumes "length d = 10"
  shows "Message_isValid (makeMsg t payload)
       \<and> Message_isValid ((makeMsg t payload)\<lparr>m_type := t', m_length := l\<rparr>)
       \<and> Message_serialize (makeMsg VERSION (CHR ''0'' # d)) = Message_serialize (makeMsg GETDATA d)
       \<and> makeMsg VERSION (CHR ''0'' # d) \<noteq> makeMsg GETDATA d"
  using makeMsg_valid checksum_payload_only serialize_ambiguous [OF assms] by (simp add: Message_isValid_def makeMsg_def)

theorem messages_ambiguous_witness:
  "Message_serialize (makeMsg VERSION ''0abcdefghij'') = Message_serialize (makeMsg GETDATA ''abcdefghij'')"
  using messages_ambiguous [of "''abcdefghij''"] by simp

end
