(* ===== verification/Node.thy ===== *)
theory Node
  imports SHA256 Unordered_Map
begin

text \<open>
  \<open>src/src/network/node.{h,cpp}\<close>: the peer-to-peer node: message frames, reading and writing them
  on a socket, the table of peers and the handler of one connection. The POSIX calls are a
  parameter (\<open>posix\<close>) acting on a world of any type. A \<open>std::lock_guard\<close> on \<open>peersMutex\<close> taken by
  a thread that holds the mutex is undefined behaviour; \<open>locked\<close> says whether the running thread
  holds it. The identifier of a node is an argument of its constructor, since the call that
  computes it (\<open>makePeerId(ip, std::to_string(port))\<close>) does not fit the 16-bit parameter. Console
  output and the joining of threads are left out.
\<close>

section \<open>State and operating system\<close>

record PeerConn =
  pc_fd :: int
  pc_ip :: string
  pc_port :: u16
  pc_nodeId :: string
  pc_outbound :: bool
  pc_lastSeen :: int
  pc_active :: bool

record Node =
  listenIP :: string
  listenPort :: u16
  nodeId :: string
  listenFd :: int
  running :: bool
  peers :: "(string, PeerConn) umap"
  locked :: bool

text \<open>
  \<open>px_send fd data\<close> is the number \<open>send\<close> returns; \<open>px_recv fd n\<close> the bytes \<open>recv\<close> stores, \<open>None\<close>
  for a negative result; \<open>px_accept\<close> the new descriptor with the remote address and port;
  \<open>px_connect\<close> covers the connection, \<open>px_resolve\<close> the lookup of the host before it.
\<close>

record 'w posix =
  px_socket :: "'w \<Rightarrow> int \<times> 'w"
  px_bind :: "int \<Rightarrow> u16 \<Rightarrow> 'w \<Rightarrow> int \<times> 'w"
  px_listen :: "int \<Rightarrow> 'w \<Rightarrow> int \<times> 'w"
  px_accept :: "int \<Rightarrow> 'w \<Rightarrow> (int \<times> string \<times> u16) \<times> 'w"
  px_resolve :: "string \<Rightarrow> 'w \<Rightarrow> bool \<times> 'w"
  px_connect :: "int \<Rightarrow> string \<Rightarrow> u16 \<Rightarrow> 'w \<Rightarrow> int \<times> 'w"
  px_send :: "int \<Rightarrow> string \<Rightarrow> 'w \<Rightarrow> int \<times> 'w"
  px_recv :: "int \<Rightarrow> nat \<Rightarrow> 'w \<Rightarrow> string option \<times> 'w"
  px_close :: "int \<Rightarrow> 'w \<Rightarrow> 'w"
  px_now :: "'w \<Rightarrow> int"

definition Node_new :: "string \<Rightarrow> u16 \<Rightarrow> string \<Rightarrow> Node" where
  "Node_new ip port ident =
     \<lparr>listenIP = ip, listenPort = port, nodeId = ident, listenFd = -1, running = False,
      peers = um_empty, locked = False\<rparr>"

definition makePeerId :: "string \<Rightarrow> u16 \<Rightarrow> string" where
  "makePeerId ip port = take 16 (SHA256_hash (ip @ '':'' @ nat_str (unat port)))"

section \<open>Frames\<close>

definition put_length :: "u32 \<Rightarrow> string" where
  "put_length len =
     map char_of_byte [ucast len, ucast (drop_bit 8 len), ucast (drop_bit 16 len), ucast (drop_bit 24 len)]"

definition read_length :: "string \<Rightarrow> u32" where
  "read_length raw =
     ucast (byte_of (raw ! 0)) OR push_bit 8 (ucast (byte_of (raw ! 1))) OR
     push_bit 16 (ucast (byte_of (raw ! 2))) OR push_bit 24 (ucast (byte_of (raw ! 3)))"

definition frame :: "string \<Rightarrow> string \<Rightarrow> string" where
  "frame type payload =
     (let body = str_resize type 16 (CHR '' '') @ payload
      in put_length (of_nat (length body)) @ body)"

definition trim_back :: "string \<Rightarrow> string" where
  "trim_back s = rev (dropWhile (\<lambda>c. c = CHR '' '') (rev s))"

text \<open>\<open>4+len\<close> and \<open>len-16\<close> are 32-bit.\<close>

definition unframe :: "string \<Rightarrow> (string \<times> string) option" where
  "unframe raw =
     (if length raw < 20 then None
      else let len = read_length raw
           in if length raw < unat (4 + len) then None
              else Some (trim_back (take 16 (drop 4 raw)), take (unat (len - 16)) (drop 20 raw)))"

section \<open>Sockets\<close>

function send_loop :: "('w, 'z) posix_scheme \<Rightarrow> int \<Rightarrow> string \<Rightarrow> nat \<Rightarrow> 'w \<Rightarrow> bool \<times> 'w" where
  "send_loop px fd data sent w =
     (if sent < length data then
        let (n, w') = px_send px fd (drop sent data) w
        in if n \<le> 0 then (False, w') else send_loop px fd data (sent + nat n) w'
      else (True, w))"
  by pat_completeness auto
termination
  by (relation "measure (\<lambda>(px, fd, data, sent, w). length data - sent)") auto

declare send_loop.simps [simp del]

definition sendRaw :: "('w, 'z) posix_scheme \<Rightarrow> int \<Rightarrow> string \<Rightarrow> 'w \<Rightarrow> bool \<times> 'w" where
  "sendRaw px fd data w = send_loop px fd data 0 w"

definition MAX_MESSAGE :: u32 where "MAX_MESSAGE = 4 * 1024 * 1024"

definition recvRaw :: "('w, 'z) posix_scheme \<Rightarrow> int \<Rightarrow> 'w \<Rightarrow> string \<times> 'w" where
  "recvRaw px fd w =
     (case px_recv px fd 4 w of
        (None, w) \<Rightarrow> ([], w)
      | (Some hdr, w) \<Rightarrow>
          if length hdr \<noteq> 4 then ([], w)
          else let len = read_length hdr
               in if len > MAX_MESSAGE then ([], w)
                  else case px_recv px fd (unat len) w of
                         (None, w) \<Rightarrow> ([], w)
                       | (Some body, w) \<Rightarrow> if length body \<noteq> unat len then ([], w) else (hdr @ body, w))"

section \<open>The table of peers\<close>

definition guarded :: "Node \<Rightarrow> 'a result \<Rightarrow> 'a result" where
  "guarded n r = (if locked n then Inl Undefined_behaviour else r)"

definition addPeer :: "PeerConn \<Rightarrow> Node \<Rightarrow> Node result" where
  "addPeer p n = guarded n (Inr (n\<lparr>peers := um_put (pc_nodeId p) p (peers n)\<rparr>))"

definition removePeer :: "('w, 'z) posix_scheme \<Rightarrow> string \<Rightarrow> Node \<times> 'w \<Rightarrow> (Node \<times> 'w) result" where
  "removePeer px pid nw =
     (case nw of (n, w) \<Rightarrow>
        guarded n
          (case um_find (peers n) pid of
             None \<Rightarrow> Inr (n, w)
           | Some p \<Rightarrow>
               Inr (n\<lparr>peers := um_erase pid (peers n)\<rparr>,
                    if pc_fd p \<ge> 0 then px_close px (pc_fd p) w else w)))"

definition sendToPeer ::
  "('w, 'z) posix_scheme \<Rightarrow> string \<Rightarrow> string \<Rightarrow> string \<Rightarrow> Node \<times> 'w \<Rightarrow> (bool \<times> 'w) result" where
  "sendToPeer px pid type payload nw =
     (case nw of (n, w) \<Rightarrow>
        guarded n
          (case um_find (peers n) pid of
             None \<Rightarrow> Inr (False, w)
           | Some p \<Rightarrow> if \<not> pc_active p then Inr (False, w) else Inr (sendRaw px (pc_fd p) (frame type payload) w)))"

definition broadcast ::
  "('w, 'z) posix_scheme \<Rightarrow> string \<Rightarrow> string \<Rightarrow> Node \<times> 'w \<Rightarrow> (nat \<times> 'w) result" where
  "broadcast px type payload nw =
     (case nw of (n, w) \<Rightarrow>
        let msg = frame type payload
        in guarded n
             (Inr (foldl (\<lambda>(sent, w) e.
                      if pc_active (snd e) then
                        let (ok, w) = sendRaw px (pc_fd (snd e)) msg w in (if ok then sent + 1 else sent, w)
                      else (sent, w)) (0, w) (peers n))))"

definition peerCount :: "Node \<Rightarrow> nat result" where
  "peerCount n = guarded n (Inr (length (peers n)))"

definition getPeers :: "Node \<Rightarrow> PeerConn list result" where
  "getPeers n = guarded n (Inr (map snd (peers n)))"

section \<open>Starting and stopping\<close>

definition Node_start :: "('w, 'z) posix_scheme \<Rightarrow> Node \<times> 'w \<Rightarrow> bool \<times> Node \<times> 'w" where
  "Node_start px nw =
     (case nw of (n, w) \<Rightarrow>
      case px_socket px w of (fd, w) \<Rightarrow>
        let n = n\<lparr>listenFd := fd\<rparr>
        in if fd < 0 then (False, n, w)
           else case px_bind px fd (listenPort n) w of (r, w) \<Rightarrow>
             if r < 0 then (False, n, px_close px fd w)
             else case px_listen px fd w of (r, w) \<Rightarrow>
               if r < 0 then (False, n, px_close px fd w)
               else (True, n\<lparr>running := True\<rparr>, w))"

definition Node_stop :: "('w, 'z) posix_scheme \<Rightarrow> Node \<times> 'w \<Rightarrow> (Node \<times> 'w) result" where
  "Node_stop px nw =
     (case nw of (n, w) \<Rightarrow>
        if \<not> running n then Inr (n, w)
        else
          let n1 = n\<lparr>running := False\<rparr>;
              (n2, w2) = (if listenFd n1 \<ge> 0 then (n1\<lparr>listenFd := -1\<rparr>, px_close px (listenFd n1) w) else (n1, w))
          in guarded n2
               (Inr (n2\<lparr>peers := um_empty\<rparr>,
                     foldl (\<lambda>w e. if pc_fd (snd e) \<ge> 0 then px_close px (pc_fd (snd e)) w else w) w2 (peers n2))))"

definition Node_destroy :: "('w, 'z) posix_scheme \<Rightarrow> Node \<times> 'w \<Rightarrow> (Node \<times> 'w) result" where
  "Node_destroy px nw = Node_stop px nw"

definition handshake_text :: "Node \<Rightarrow> string" where
  "handshake_text n = ''version=1,agent=RexCoin/0.2,nodeId='' @ nodeId n"

definition connectToPeer ::
  "('w, 'z) posix_scheme \<Rightarrow> string \<Rightarrow> u16 \<Rightarrow> Node \<times> 'w \<Rightarrow> (bool \<times> Node \<times> 'w) result" where
  "connectToPeer px ip port nw =
     (case nw of (n, w) \<Rightarrow>
        let pid = makePeerId ip port
        in guarded n
             (if um_contains (peers n) pid then Inr (True, n, w)
              else case px_socket px w of (fd, w) \<Rightarrow>
                if fd < 0 then Inr (False, n, w)
                else case px_resolve px ip w of (found, w) \<Rightarrow>
                  if \<not> found then Inr (False, n, px_close px fd w)
                  else case px_connect px fd ip port w of (r, w) \<Rightarrow>
                    if r < 0 then Inr (False, n, px_close px fd w)
                    else
                      let p = \<lparr>pc_fd = fd, pc_ip = ip, pc_port = port, pc_nodeId = pid, pc_outbound = True,
                               pc_lastSeen = px_now px w, pc_active = True\<rparr>
                      in bind_result (addPeer p n) (\<lambda>n.
                         bind_result (sendToPeer px pid ''VERSION'' (handshake_text n) (n, w)) (\<lambda>(_, w).
                           Inr (True, n, w)))))"

text \<open>One round of the accept loop, without the thread it starts.\<close>

definition accept_round :: "('w, 'z) posix_scheme \<Rightarrow> Node \<times> 'w \<Rightarrow> (Node \<times> 'w) result" where
  "accept_round px nw =
     (case nw of (n, w) \<Rightarrow>
      case px_accept px (listenFd n) w of ((fd, ip, port), w) \<Rightarrow>
        if fd < 0 then Inr (n, w)
        else
          let p = \<lparr>pc_fd = fd, pc_ip = ip, pc_port = port, pc_nodeId = makePeerId ip port,
                   pc_outbound = False, pc_lastSeen = px_now px w, pc_active = True\<rparr>
          in bind_result (addPeer p n) (\<lambda>n.
             bind_result (sendToPeer px (pc_nodeId p) ''VERSION'' (handshake_text n) (n, w)) (\<lambda>(_, w).
               Inr (n, w))))"

section \<open>The handler of a connection\<close>

definition peer_list_text :: "Node \<Rightarrow> string" where
  "peer_list_text n =
     concat (map (\<lambda>e. pc_ip (snd e) @ '':'' @ nat_str (unat (pc_port (snd e))) @ '','') (peers n))"

text \<open>The built-in answers; \<open>GETADDR\<close> holds its own guard while it sends.\<close>

definition answer ::
  "('w, 'z) posix_scheme \<Rightarrow> string \<Rightarrow> string \<Rightarrow> string \<Rightarrow> Node \<times> 'w \<Rightarrow> 'w result" where
  "answer px pid type payload nw =
     (case nw of (n, w) \<Rightarrow>
        if type = ''PING'' then bind_result (sendToPeer px pid ''PONG'' payload (n, w)) (\<lambda>r. Inr (snd r))
        else if type = ''VERSION'' then bind_result (sendToPeer px pid ''VERACK'' [] (n, w)) (\<lambda>r. Inr (snd r))
        else if type = ''GETADDR'' then
          guarded n (bind_result (sendToPeer px pid ''ADDR'' (peer_list_text n) (n\<lparr>locked := True\<rparr>, w)) (\<lambda>r. Inr (snd r)))
        else Inr w)"

definition set_peer :: "string \<Rightarrow> (PeerConn \<Rightarrow> PeerConn) \<Rightarrow> Node \<Rightarrow> Node" where
  "set_peer pid f n =
     (case um_find (peers n) pid of None \<Rightarrow> n | Some p \<Rightarrow> n\<lparr>peers := um_put pid (f p) (peers n)\<rparr>)"

text \<open>
  \<open>handler\<close> is the registered message handler (one that does nothing when none is registered). The
  peer is the entry of the table the loop has a reference to.
\<close>

partial_function (option) handlePeer ::
  "('w, 'z) posix_scheme \<Rightarrow> (string \<Rightarrow> string \<Rightarrow> string \<Rightarrow> 'w \<Rightarrow> 'w) \<Rightarrow> string \<Rightarrow> Node \<Rightarrow> 'w
     \<Rightarrow> (Node \<times> 'w) result option" where
  "handlePeer px handler pid n w =
     (case um_find (peers n) pid of
        None \<Rightarrow> Some (Inr (n, w))
      | Some p \<Rightarrow>
          if \<not> (running n \<and> pc_active p) then Some (Inr (n, w))
          else case recvRaw px (pc_fd p) w of (raw, w) \<Rightarrow>
            if raw = [] then
              Some (removePeer px pid (set_peer pid (\<lambda>p. p\<lparr>pc_active := False\<rparr>) n, w))
            else case unframe raw of
              None \<Rightarrow> handlePeer px handler pid n w
            | Some (type, payload) \<Rightarrow>
                let n = set_peer pid (\<lambda>p. p\<lparr>pc_lastSeen := px_now px w\<rparr>) n
                in case answer px pid type payload (n, w) of
                     Inl e \<Rightarrow> Some (Inl e)
                   | Inr w \<Rightarrow> handlePeer px handler pid n (handler pid type payload w))"

text \<open>The thread \<open>acceptLoop\<close> and \<open>connectToPeer\<close> start: it takes the mutex and keeps it.\<close>

definition handler_thread ::
  "('w, 'z) posix_scheme \<Rightarrow> (string \<Rightarrow> string \<Rightarrow> string \<Rightarrow> 'w \<Rightarrow> 'w) \<Rightarrow> string \<Rightarrow> Node \<Rightarrow> 'w
     \<Rightarrow> (Node \<times> 'w) result option" where
  "handler_thread px handler pid n w =
     (if locked n then Some (Inl Undefined_behaviour)
      else if um_contains (peers n) pid then handlePeer px handler pid (n\<lparr>locked := True\<rparr>) w
      else Some (Inr (n, w)))"

section \<open>Frames are read back\<close>

lemma length_put_length [simp]: "length (put_length len) = 4"
  by (simp add: put_length_def)

lemma read_put_length [simp]: "read_length (put_length len @ rest) = len"
  unfolding read_length_def put_length_def
  apply (rule bit_word_eqI)
  subgoal for n by (cases "n < 16"; cases "n < 24") (auto simp: bit_simps nth_append)
  done

lemma trim_back_resize:
  assumes "length t \<le> 16" and "t = [] \<or> last t \<noteq> CHR '' ''"
  shows "trim_back (str_resize t 16 (CHR '' '')) = t"
proof -
  have "dropWhile (\<lambda>c. c = CHR '' '') (replicate k (CHR '' '') @ rev t) = rev t" for k
    using assms(2) by (induction k) (cases t rule: rev_cases; simp)+
  with assms(1) show ?thesis by (simp add: trim_back_def str_resize_def)
qed

lemma unat_of_nat_u32: "n < 2 ^ 32 \<Longrightarrow> unat (of_nat n :: u32) = n"
  by (simp add: unat_of_nat)

lemma length_frame: "length (frame type payload) = 20 + length payload"
  by (simp add: frame_def Let_def)

lemma unframe_frame:
  assumes "20 + length payload < 2 ^ 32"
  shows "unframe (frame type payload) = Some (trim_back (str_resize type 16 (CHR '' '')), payload)"
proof -
  let ?len = "of_nat (16 + length payload) :: u32"
  have len: "unat ?len = 16 + length payload" using assms by (intro unat_of_nat_u32) simp
  have "unat (4 + ?len) = 20 + length payload"
    using assms len by (subst unat_add_no_wrap) (simp_all del: of_nat_add)
  moreover have "unat (?len - 16) = length payload"
    using len by (subst unat_sub_no_wrap) (simp_all del: of_nat_add)
  ultimately show ?thesis
    using length_frame [of type payload]
    by (simp add: unframe_def frame_def Let_def del: of_nat_add)
qed

text \<open>A socket that delivers a stream of bytes, and one that takes what it says it takes.\<close>

definition receives :: "('w, 'z) posix_scheme \<Rightarrow> ('w \<Rightarrow> int \<Rightarrow> string) \<Rightarrow> bool" where
  "receives px incoming \<longleftrightarrow>
     (\<forall>fd n w. fst (px_recv px fd n w) = Some (take n (incoming w fd))
        \<and> incoming (snd (px_recv px fd n w)) fd = drop n (incoming w fd))"

definition delivers :: "('w, 'z) posix_scheme \<Rightarrow> ('w \<Rightarrow> int \<Rightarrow> string) \<Rightarrow> bool" where
  "delivers px outgoing \<longleftrightarrow>
     (\<forall>fd data w. fst (px_send px fd data w) \<le> int (length data)
        \<and> outgoing (snd (px_send px fd data w)) fd =
            outgoing w fd @ take (nat (fst (px_send px fd data w))) data)"

lemma recvRaw_stream:
  assumes "receives px incoming"
  shows "\<exists>w'. recvRaw px fd w =
           (let s = incoming w fd; len = read_length s
            in (if length s < 4 \<or> len > MAX_MESSAGE \<or> length s < 4 + unat len then []
                else take (4 + unat len) s, w'))
         \<and> (4 \<le> length (incoming w fd) \<and> \<not> read_length (incoming w fd) > MAX_MESSAGE \<longrightarrow>
              incoming w' fd = drop (4 + unat (read_length (incoming w fd))) (incoming w fd))"
proof -
  obtain w1 where r1: "px_recv px fd 4 w = (Some (take 4 (incoming w fd)), w1)"
    and i1: "incoming w1 fd = drop 4 (incoming w fd)"
    using assms unfolding receives_def by (metis prod.collapse)
  obtain w2 where r2: "px_recv px fd (unat (read_length (incoming w fd))) w1 =
      (Some (take (unat (read_length (incoming w fd))) (drop 4 (incoming w fd))), w2)"
    and i2: "incoming w2 fd = drop (unat (read_length (incoming w fd))) (drop 4 (incoming w fd))"
    using assms i1 unfolding receives_def by (metis prod.collapse)
  have hd: "read_length (take 4 s) = read_length s" for s
    by (simp add: read_length_def)
  show ?thesis
    using r1 r2 i2
    by (auto simp: recvRaw_def hd Let_def take_add add.commute intro!: exI [of _ w2] exI [of _ w1])
qed

lemma recvRaw_frame:
  assumes "receives px incoming" and "incoming w fd = frame type payload @ rest"
    and "16 + length payload \<le> 4194304"
  shows "\<exists>w'. recvRaw px fd w = (frame type payload, w') \<and> incoming w' fd = rest"
proof -
  have "unat (of_nat (16 + length payload) :: u32) = 16 + length payload"
    using assms(3) by (intro unat_of_nat_u32) simp
  moreover have "read_length (incoming w fd) = of_nat (16 + length payload)"
    by (simp add: assms(2) frame_def Let_def)
  ultimately have len: "unat (read_length (incoming w fd)) = 16 + length payload" by simp
  then have "\<not> read_length (incoming w fd) > MAX_MESSAGE"
    using assms(3) by (simp add: MAX_MESSAGE_def word_less_nat_alt)
  with recvRaw_stream [OF assms(1), of fd w] len show ?thesis
    by (auto simp: assms(2) length_frame Let_def)
qed

lemma recvRaw_oversize:
  assumes "receives px incoming" and "incoming w fd = frame type payload @ rest"
    and "4194304 < 16 + length payload" and "16 + length payload < 2 ^ 32"
  shows "fst (recvRaw px fd w) = []"
proof -
  have "unat (of_nat (16 + length payload) :: u32) = 16 + length payload"
    using assms(4) by (intro unat_of_nat_u32) simp
  moreover have "read_length (incoming w fd) = of_nat (16 + length payload)"
    by (simp add: assms(2) frame_def Let_def)
  ultimately have "read_length (incoming w fd) > MAX_MESSAGE"
    using assms(3) by (simp add: MAX_MESSAGE_def word_less_nat_alt)
  with recvRaw_stream [OF assms(1), of fd w] show ?thesis
    by (auto simp: Let_def)
qed

lemma send_loop_prefix:
  shows "delivers px outgoing \<Longrightarrow> sent \<le> length data \<Longrightarrow> \<exists>k. outgoing (snd (send_loop px fd data sent w)) fd =
           outgoing w fd @ take k (drop sent data)
         \<and> (fst (send_loop px fd data sent w) \<longrightarrow> k = length data - sent)"
proof (induction px fd data sent w rule: send_loop.induct)
  case (1 px fd data sent w)
  show ?case
  proof (cases "sent < length data")
    case True
    obtain n w1 where send: "px_send px fd (drop sent data) w = (n, w1)" by fastforce
    have le: "n \<le> int (length (drop sent data))"
      and out: "outgoing w1 fd = outgoing w fd @ take (nat n) (drop sent data)"
      using "1.prems"(1) [unfolded delivers_def, rule_format, of fd "drop sent data" w] send by simp_all
    show ?thesis
    proof (cases "n \<le> 0")
      case True
      with \<open>sent < length data\<close> send out show ?thesis
        by (auto simp: send_loop.simps [of px fd data sent w] intro!: exI [of _ 0])
    next
      case False
      then have le': "sent + nat n \<le> length data" using le True by simp
      from "1.IH" [OF True send [symmetric] refl False "1.prems"(1) le'] obtain k where
        k: "outgoing (snd (send_loop px fd data (sent + nat n) w1)) fd =
              outgoing w1 fd @ take k (drop (sent + nat n) data)"
          "fst (send_loop px fd data (sent + nat n) w1) \<longrightarrow> k = length data - (sent + nat n)" by blast
      have "send_loop px fd data sent w = send_loop px fd data (sent + nat n) w1"
        using True False send by (simp add: send_loop.simps [of px fd data sent w])
      moreover have "take (nat n + k) (drop sent data) = take (nat n) (drop sent data) @ take k (drop (sent + nat n) data)"
        by (simp add: take_add add.commute [of sent])
      ultimately show ?thesis using k out le' by (intro exI [of _ "nat n + k"]) auto
    qed
  next
    case False
    with "1.prems" show ?thesis
      by (intro exI [of _ 0]) (subst send_loop.simps, simp)+
  qed
qed

text \<open>A message sent with success arrives whole; otherwise a beginning of it does.\<close>

lemma sendRaw_prefix:
  assumes "delivers px outgoing"
  shows "\<exists>k. outgoing (snd (sendRaw px fd data w)) fd = outgoing w fd @ take k data
           \<and> (fst (sendRaw px fd data w) \<longrightarrow> take k data = data)"
  using send_loop_prefix [OF assms, of 0 data fd w] by (auto simp: sendRaw_def)

section \<open>The handler and the mutex\<close>

lemma set_peer_simps [simp]:
  "running (set_peer pid f n) = running n" "locked (set_peer pid f n) = locked n"
  "um_find (peers (set_peer pid f n)) k =
     (if k = pid then map_option f (um_find (peers n) pid) else um_find (peers n) k)"
  by (auto simp: set_peer_def split: option.split)

text \<open>
  Under the mutex every call that takes it again ends in undefined behaviour: the answers to
  \<open>PING\<close>, \<open>VERSION\<close> and \<open>GETADDR\<close>, and the removal of a peer that has gone.
\<close>

lemma answer_locked:
  assumes "locked n"
  shows "answer px pid type payload (n, w) =
           (if type \<in> {''PING'', ''VERSION'', ''GETADDR''} then Inl Undefined_behaviour else Inr w)"
  using assms by (simp add: answer_def sendToPeer_def guarded_def)

lemma handlePeer_locked:
  assumes "handlePeer px handler pid n w = Some r"
    and "locked n" and "running n" and "um_find (peers n) pid = Some p" and "pc_active p"
  shows "r = Inl Undefined_behaviour"
proof -
  let ?P = "\<lambda>px handler pid n w r. locked n \<longrightarrow> running n \<longrightarrow>
      (\<forall>p. um_find (peers n) pid = Some p \<longrightarrow> pc_active p \<longrightarrow> r = Inl Undefined_behaviour)"
  have "?P px handler pid n w r"
  proof (rule handlePeer.raw_induct [OF _ assms(1), of ?P])
    fix hp :: "('a, 'b) posix_scheme \<Rightarrow> (string \<Rightarrow> string \<Rightarrow> string \<Rightarrow> 'a \<Rightarrow> 'a) \<Rightarrow> string \<Rightarrow> Node \<Rightarrow> 'a
        \<Rightarrow> (Node \<times> 'a) result option"
      and px handler pid n w r
    assume IH: "\<And>px handler pid n w r. hp px handler pid n w = Some r \<Longrightarrow> ?P px handler pid n w r"
      and step: "(case um_find (peers n) pid of
        None \<Rightarrow> Some (Inr (n, w))
      | Some p \<Rightarrow>
          if \<not> (running n \<and> pc_active p) then Some (Inr (n, w))
          else case recvRaw px (pc_fd p) w of (raw, w) \<Rightarrow>
            if raw = [] then
              Some (removePeer px pid (set_peer pid (\<lambda>p. p\<lparr>pc_active := False\<rparr>) n, w))
            else case unframe raw of
              None \<Rightarrow> hp px handler pid n w
            | Some (type, payload) \<Rightarrow>
                let n = set_peer pid (\<lambda>p. p\<lparr>pc_lastSeen := px_now px w\<rparr>) n
                in case answer px pid type payload (n, w) of
                     Inl e \<Rightarrow> Some (Inl e)
                   | Inr w \<Rightarrow> hp px handler pid n (handler pid type payload w)) = Some r"
    show "?P px handler pid n w r"
    proof (intro impI allI)
      fix p assume l: "locked n" "running n" "um_find (peers n) pid = Some p" "pc_active p"
      obtain raw w1 where recv: "recvRaw px (pc_fd p) w = (raw, w1)" by fastforce
      show "r = Inl Undefined_behaviour"
      proof (cases "raw = []")
        case True
        with step l recv show ?thesis by (simp add: removePeer_def guarded_def)
      next
        case False
        show ?thesis
        proof (cases "unframe raw")
          case None
          with step l recv False have "hp px handler pid n w1 = Some r" by simp
          from IH [OF this] l show ?thesis by blast
        next
          case (Some m)
          obtain type payload where m: "m = (type, payload)" by fastforce
          let ?n = "set_peer pid (\<lambda>p. p\<lparr>pc_lastSeen := px_now px w1\<rparr>) n"
          show ?thesis
          proof (cases "type \<in> {''PING'', ''VERSION'', ''GETADDR''}")
            case True
            with step l recv False Some m show ?thesis by (simp add: answer_locked Let_def del: insert_iff)
          next
            case False
            with step l recv \<open>raw \<noteq> []\<close> Some m
            have "hp px handler pid ?n (handler pid type payload w1) = Some r"
              by (simp add: answer_locked Let_def del: insert_iff)
            from IH [OF this] l show ?thesis by simp
          qed
        qed
      qed
    qed
  qed
  with assms(2-5) show ?thesis by blast
qed

lemma handler_thread_undefined:
  assumes "handler_thread px handler pid n w = Some r"
    and "running n" and "um_find (peers n) pid = Some p" and "pc_active p"
  shows "r = Inl Undefined_behaviour"
proof (cases "locked n")
  case True
  with assms(1) show ?thesis by (simp add: handler_thread_def)
next
  case False
  with assms(1,3) have "handlePeer px handler pid (n\<lparr>locked := True\<rparr>) w = Some r"
    by (simp add: handler_thread_def um_contains_def)
  from handlePeer_locked [OF this] assms(2-4) show ?thesis by simp
qed

section \<open>The table of peers\<close>

definition node_ok :: "Node \<Rightarrow> bool" where
  "node_ok n \<longleftrightarrow> um_ok (peers n) \<and> (\<forall>k p. um_find (peers n) k = Some p \<longrightarrow> pc_nodeId p = k)"

datatype node_op = Connect string u16 | Accept | Drop string | Stop

text \<open>A call with undefined behaviour is not taken.\<close>

definition taken :: "('a \<Rightarrow> 's) \<Rightarrow> 's \<Rightarrow> 'a result \<Rightarrow> 's" where
  "taken f s r = (case r of Inl _ \<Rightarrow> s | Inr x \<Rightarrow> f x)"

fun node_apply :: "('w, 'z) posix_scheme \<Rightarrow> node_op \<Rightarrow> Node \<times> 'w \<Rightarrow> Node \<times> 'w" where
  "node_apply px (Connect ip port) nw = taken snd nw (connectToPeer px ip port nw)"
| "node_apply px Accept nw = taken id nw (accept_round px nw)"
| "node_apply px (Drop pid) nw = taken id nw (removePeer px pid nw)"
| "node_apply px Stop nw = taken id nw (Node_stop px nw)"

lemma taken_simps [simp]: "taken f s (Inl e) = s" "taken f s (Inr x) = f x"
  by (simp_all add: taken_def)

lemma addPeer_node_ok: "node_ok n \<Longrightarrow> addPeer p n = Inr n' \<Longrightarrow> node_ok n'"
  by (auto simp: addPeer_def guarded_def node_ok_def split: if_splits)

lemma connect_node_ok:
  assumes "node_ok n" and "connectToPeer px ip port (n, w) = Inr (b, n', w')"
  shows "node_ok n'"
  using assms addPeer_node_ok [OF assms(1)]
  by (auto simp: connectToPeer_def guarded_def Let_def split: if_splits prod.splits)

lemma accept_node_ok:
  assumes "node_ok n" and "accept_round px (n, w) = Inr (n', w')"
  shows "node_ok n'"
  using assms addPeer_node_ok [OF assms(1)]
  by (auto simp: accept_round_def Let_def split: if_splits prod.splits)

lemma remove_node_ok:
  assumes "node_ok n" and "removePeer px pid (n, w) = Inr (n', w')"
  shows "node_ok n'"
  using assms by (auto simp: removePeer_def guarded_def node_ok_def split: if_splits option.splits)

lemma stop_node_ok:
  assumes "node_ok n" and "Node_stop px (n, w) = Inr (n', w')"
  shows "node_ok n'"
  using assms by (auto simp: Node_stop_def guarded_def node_ok_def Let_def split: if_splits)

lemma node_apply_ok: "node_ok (fst nw) \<Longrightarrow> node_ok (fst (node_apply px x nw))"
proof (cases x; cases nw)
  fix n w ip port assume "node_ok (fst nw)" "x = Connect ip port" "nw = (n, w)"
  then show ?thesis using connect_node_ok [of n px ip port w]
    by (cases "connectToPeer px ip port (n, w)") auto
next
  fix n w assume "node_ok (fst nw)" "x = Accept" "nw = (n, w)"
  then show ?thesis using accept_node_ok [of n px w] by (cases "accept_round px (n, w)") auto
next
  fix n w pid assume "node_ok (fst nw)" "x = Drop pid" "nw = (n, w)"
  then show ?thesis using remove_node_ok [of n px pid w] by (cases "removePeer px pid (n, w)") auto
next
  fix n w assume "node_ok (fst nw)" "x = Stop" "nw = (n, w)"
  then show ?thesis using stop_node_ok [of n px w] by (cases "Node_stop px (n, w)") auto
qed

interpretation peer_table: preserved "node_apply px" "\<lambda>nw. node_ok (fst nw)"
  by unfold_locales (rule node_apply_ok)

lemma node_ok_new: "node_ok (Node_new ip port ident)"
  by (simp add: node_ok_def Node_new_def)

text \<open>A connection that succeeds is in the table, under the identifier of its address.\<close>

lemma connect_adds:
  assumes "connectToPeer px ip port (n, w) = Inr (True, n', w')"
  shows "um_contains (peers n') (makePeerId ip port)"
  using assms
  by (auto simp: connectToPeer_def addPeer_def guarded_def Let_def um_contains_def split: if_splits prod.splits)

section \<open>Properties\<close>

text \<open>A socket pair for the witnesses: the world is the bytes to come and the bytes sent.\<close>

definition pipe :: "(string \<times> string) posix" where
  "pipe = \<lparr>px_socket = (\<lambda>w. (3, w)), px_bind = (\<lambda>fd port w. (0, w)), px_listen = (\<lambda>fd w. (0, w)),
     px_accept = (\<lambda>fd w. ((4, ''10.0.0.1'', 8333), w)), px_resolve = (\<lambda>ip w. (True, w)),
     px_connect = (\<lambda>fd ip port w. (0, w)),
     px_send = (\<lambda>fd data w. (int (length data), (fst w, snd w @ data))),
     px_recv = (\<lambda>fd n w. (Some (take n (fst w)), (drop n (fst w), snd w))),
     px_close = (\<lambda>fd w. w), px_now = (\<lambda>w. 0)\<rparr>"

lemma pipe_ok: "receives pipe (\<lambda>w fd. fst w)" "delivers pipe (\<lambda>w fd. snd w)"
  by (simp_all add: receives_def delivers_def pipe_def)

text \<open>Messages keep their boundaries: from a stream that starts with a frame, the next read
  returns exactly that frame and leaves the rest, and the frame yields the type and payload it was
  made from, provided the type has at most 16 characters and no space at its end and the message
  fits 4 MB. A larger message, which the sender does not refuse, reads as the end of the connection.\<close>

theorem frames_keep_boundaries:
  assumes "receives px incoming" and "incoming w fd = frame type payload @ rest"
    and "length type \<le> 16" and "type = [] \<or> last type \<noteq> CHR '' ''" and "20 + length payload < 2 ^ 32"
  shows "(16 + length payload \<le> 4194304 \<longrightarrow>
            (\<exists>w'. recvRaw px fd w = (frame type payload, w') \<and> incoming w' fd = rest))
       \<and> (4194304 < 16 + length payload \<longrightarrow> fst (recvRaw px fd w) = [])
       \<and> unframe (frame type payload) = Some (type, payload)"
  using recvRaw_frame [OF assms(1,2)] recvRaw_oversize [OF assms(1,2)] unframe_frame [OF assms(5)]
    trim_back_resize [OF assms(3,4)] assms(5) by auto

theorem frames_keep_boundaries_witness:
  "\<exists>w'. recvRaw pipe 5 (frame ''PING'' ''x'' @ frame ''TX'' ''yz'', []) = (frame ''PING'' ''x'', w')
     \<and> fst w' = frame ''TX'' ''yz'' \<and> unframe (frame ''PING'' ''x'') = Some (''PING'', ''x'')"
  using frames_keep_boundaries [OF pipe_ok(1), where w = "(frame ''PING'' ''x'' @ frame ''TX'' ''yz'', [])"
      and fd = 5 and type = "''PING''" and payload = "''x''" and rest = "frame ''TX'' ''yz''"]
  by simp

text \<open>On a socket that takes a beginning of what it is given, sending reports success only when the
  whole message has gone out; on failure a beginning of it has.\<close>

theorem send_all_or_prefix:
  assumes "delivers px outgoing"
  shows "\<exists>k. outgoing (snd (sendRaw px fd data w)) fd = outgoing w fd @ take k data
           \<and> (fst (sendRaw px fd data w) \<longrightarrow> take k data = data)"
  by (rule sendRaw_prefix [OF assms])

theorem send_all_or_prefix_witness:
  "\<exists>k. snd (snd (sendRaw pipe 3 ''abc'' ([], ''x''))) = ''x'' @ take k ''abc''"
  using send_all_or_prefix [OF pipe_ok(2), where fd = 3 and data = "''abc''" and w = "([], ''x'')"] by auto

text \<open>The thread that serves a connection takes the mutex of the peer table and keeps it, and every
  way it can end takes that mutex again: started on a live connection it either never ends or runs
  into undefined behaviour, which the first \<open>PING\<close>, \<open>VERSION\<close> or \<open>GETADDR\<close> brings about.\<close>

theorem handler_relocks:
  assumes "running n" and "um_find (peers n) pid = Some p" and "pc_active p"
  shows "(handler_thread px handler pid n w = None \<or> handler_thread px handler pid n w = Some (Inl Undefined_behaviour))
       \<and> answer px pid ''PING'' payload (n\<lparr>locked := True\<rparr>, w) = Inl Undefined_behaviour"
  using handler_thread_undefined [OF _ assms, of px handler w] answer_locked [of "n\<lparr>locked := True\<rparr>" px pid "''PING''" payload w]
  by (cases "handler_thread px handler pid n w") auto

theorem handler_relocks_witness:
  "answer pipe ''p'' ''PING'' ''x'' ((Node_new ''h'' 1 ''i'')\<lparr>running := True, peers := um_put ''p''
      \<lparr>pc_fd = 3, pc_ip = ''h'', pc_port = 1, pc_nodeId = ''p'', pc_outbound = False, pc_lastSeen = 0, pc_active = True\<rparr> um_empty,
      locked := True\<rparr>, ([], [])) = Inl Undefined_behaviour"
  using handler_relocks [of "(Node_new ''h'' 1 ''i'')\<lparr>running := True, peers := um_put ''p''
      \<lparr>pc_fd = 3, pc_ip = ''h'', pc_port = 1, pc_nodeId = ''p'', pc_outbound = False, pc_lastSeen = 0, pc_active = True\<rparr> um_empty\<rparr>"
      "''p''" _ pipe _ "([], [])" "''x''"] by simp

end
