(* ===== verification/Node_Threads.thy ===== *)
theory Node_Threads
  imports Node
begin

text \<open>
  The threads of a node (\<open>src/src/network/node.cpp\<close>): callers of \<open>connectToPeer\<close>, \<open>broadcast\<close>,
  \<open>sendToPeer\<close>, \<open>removePeer\<close>, \<open>peerCount\<close>, \<open>getPeers\<close> and \<open>stop\<close>, the accept loop, and the thread
  every connection starts. A thread is a task at a point between two critical sections; a step of
  the system runs one thread to its next such point. A section under \<open>peersMutex\<close> is one step, which
  is taken only when no thread holds the mutex; the handler of a connection takes the mutex in one
  step and holds it over the rounds of its loop. The stages are those of the operations in \<open>Node\<close>,
  which they compose to.
\<close>

section \<open>Tasks and stages\<close>

datatype node_task =
    Connect_check string u16
  | Connect_dial string u16
  | Connect_add PeerConn
  | Connect_greet string
  | Accept_wait
  | Accept_add PeerConn
  | Accept_greet string
  | Broadcasting string string
  | Sending string string string
  | Removing string
  | Counting
  | Listing
  | Stop_begin
  | Stop_join
  | Stop_clear
  | Serve string
  | Serving string
  | Ended

text \<open>The stages that begin with a \<open>std::lock_guard\<close>.\<close>

fun takes_mutex :: "node_task \<Rightarrow> bool" where
  "takes_mutex (Connect_check ip port) = True"
| "takes_mutex (Connect_add p) = True"
| "takes_mutex (Connect_greet pid) = True"
| "takes_mutex (Accept_add p) = True"
| "takes_mutex (Accept_greet pid) = True"
| "takes_mutex (Broadcasting type payload) = True"
| "takes_mutex (Sending pid type payload) = True"
| "takes_mutex (Removing pid) = True"
| "takes_mutex Counting = True"
| "takes_mutex Listing = True"
| "takes_mutex Stop_clear = True"
| "takes_mutex (Serve pid) = True"
| "takes_mutex t = False"

fun accepting :: "node_task \<Rightarrow> bool" where
  "accepting Accept_wait = True"
| "accepting (Accept_add p) = True"
| "accepting (Accept_greet pid) = True"
| "accepting t = False"

text \<open>A section under the mutex: the next task, the threads it starts, the new state.\<close>

fun locked_stage ::
  "('w, 'z) posix_scheme \<Rightarrow> node_task \<Rightarrow> Node \<times> 'w \<Rightarrow> (node_task \<times> node_task list \<times> Node \<times> 'w) result" where
  "locked_stage px (Connect_check ip port) (n, w) =
     guarded n (Inr (if um_contains (peers n) (makePeerId ip port) then Ended else Connect_dial ip port, [], n, w))"
| "locked_stage px (Connect_add p) (n, w) =
     bind_result (addPeer p n) (\<lambda>n. Inr (Connect_greet (pc_nodeId p), [], n, w))"
| "locked_stage px (Connect_greet pid) (n, w) =
     bind_result (sendToPeer px pid ''VERSION'' (handshake_text n) (n, w)) (\<lambda>(_, w). Inr (Ended, [Serve pid], n, w))"
| "locked_stage px (Accept_add p) (n, w) =
     bind_result (addPeer p n) (\<lambda>n. Inr (Accept_greet (pc_nodeId p), [], n, w))"
| "locked_stage px (Accept_greet pid) (n, w) =
     bind_result (sendToPeer px pid ''VERSION'' (handshake_text n) (n, w)) (\<lambda>(_, w). Inr (Accept_wait, [Serve pid], n, w))"
| "locked_stage px (Broadcasting type payload) (n, w) =
     bind_result (broadcast px type payload (n, w)) (\<lambda>(_, w). Inr (Ended, [], n, w))"
| "locked_stage px (Sending pid type payload) (n, w) =
     bind_result (sendToPeer px pid type payload (n, w)) (\<lambda>(_, w). Inr (Ended, [], n, w))"
| "locked_stage px (Removing pid) (n, w) =
     bind_result (removePeer px pid (n, w)) (\<lambda>(n, w). Inr (Ended, [], n, w))"
| "locked_stage px Counting (n, w) = bind_result (peerCount n) (\<lambda>_. Inr (Ended, [], n, w))"
| "locked_stage px Listing (n, w) = bind_result (getPeers n) (\<lambda>_. Inr (Ended, [], n, w))"
| "locked_stage px Stop_clear (n, w) =
     guarded n
       (Inr (Ended, [], n\<lparr>peers := um_empty\<rparr>,
             foldl (\<lambda>w e. if pc_fd (snd e) \<ge> 0 then px_close px (pc_fd (snd e)) w else w) w (peers n)))"
| "locked_stage px (Serve pid) (n, w) =
     guarded n (Inr (if um_contains (peers n) pid then Serving pid else Ended, [], n, w))"
| "locked_stage px t (n, w) = Inr (t, [], n, w)"

text \<open>
  What runs outside the mutex: dialling, waiting in \<open>accept\<close>, and the beginning of \<open>stop\<close>, which
  then joins the thread of the accept loop.
\<close>

fun free_stage ::
  "('w, 'z) posix_scheme \<Rightarrow> node_task list \<Rightarrow> node_task \<Rightarrow> Node \<times> 'w \<Rightarrow> (node_task \<times> Node \<times> 'w) option" where
  "free_stage px ts (Connect_dial ip port) (n, w) =
     (case px_socket px w of (fd, w) \<Rightarrow>
        if fd < 0 then Some (Ended, n, w)
        else case px_resolve px ip w of (found, w) \<Rightarrow>
          if \<not> found then Some (Ended, n, px_close px fd w)
          else case px_connect px fd ip port w of (r, w) \<Rightarrow>
            if r < 0 then Some (Ended, n, px_close px fd w)
            else Some (Connect_add
              \<lparr>pc_fd = fd, pc_ip = ip, pc_port = port, pc_nodeId = makePeerId ip port, pc_outbound = True,
               pc_lastSeen = px_now px w, pc_active = True\<rparr>, n, w))"
| "free_stage px ts Accept_wait (n, w) =
     (if \<not> running n then Some (Ended, n, w)
      else case px_accept px (listenFd n) w of ((fd, ip, port), w) \<Rightarrow>
        if fd < 0 then Some (Accept_wait, n, w)
        else Some (Accept_add
          \<lparr>pc_fd = fd, pc_ip = ip, pc_port = port, pc_nodeId = makePeerId ip port, pc_outbound = False,
           pc_lastSeen = px_now px w, pc_active = True\<rparr>, n, w))"
| "free_stage px ts Stop_begin (n, w) =
     (if \<not> running n then Some (Ended, n, w)
      else
        let n = n\<lparr>running := False\<rparr>
        in Some (if listenFd n \<ge> 0 then (Stop_join, n\<lparr>listenFd := -1\<rparr>, px_close px (listenFd n) w)
                 else (Stop_join, n, w)))"
| "free_stage px ts Stop_join (n, w) = (if \<exists>t\<in>set ts. accepting t then None else Some (Stop_clear, n, w))"
| "free_stage px ts t nw = None"

text \<open>One round of the loop of \<open>handlePeer\<close>, and whether there is another.\<close>

definition handler_round ::
  "('w, 'z) posix_scheme \<Rightarrow> (string \<Rightarrow> string \<Rightarrow> string \<Rightarrow> 'w \<Rightarrow> 'w) \<Rightarrow> string \<Rightarrow> Node \<times> 'w
     \<Rightarrow> (bool \<times> Node \<times> 'w) result" where
  "handler_round px handler pid nw =
     (case nw of (n, w) \<Rightarrow>
      case um_find (peers n) pid of
        None \<Rightarrow> Inr (False, n, w)
      | Some p \<Rightarrow>
          if \<not> (running n \<and> pc_active p) then Inr (False, n, w)
          else case recvRaw px (pc_fd p) w of (raw, w) \<Rightarrow>
            if raw = [] then
              bind_result (removePeer px pid (set_peer pid (\<lambda>p. p\<lparr>pc_active := False\<rparr>) n, w)) (\<lambda>nw. Inr (False, nw))
            else case unframe raw of
              None \<Rightarrow> Inr (True, n, w)
            | Some (type, payload) \<Rightarrow>
                let n = set_peer pid (\<lambda>p. p\<lparr>pc_lastSeen := px_now px w\<rparr>) n
                in bind_result (answer px pid type payload (n, w)) (\<lambda>w. Inr (True, n, handler pid type payload w)))"

lemma handlePeer_rounds:
  "handlePeer px handler pid n w =
     (case handler_round px handler pid (n, w) of
        Inl e \<Rightarrow> Some (Inl e)
      | Inr (again, n, w) \<Rightarrow> if again then handlePeer px handler pid n w else Some (Inr (n, w)))"
proof (cases "um_find (peers n) pid")
  case (Some p)
  obtain raw w1 where recv: "recvRaw px (pc_fd p) w = (raw, w1)" by fastforce
  consider "\<not> (running n \<and> pc_active p)" | "running n" "pc_active p" "raw = []"
    | "running n" "pc_active p" "raw \<noteq> []" "unframe raw = None"
    | type payload where "running n" "pc_active p" "raw \<noteq> []" "unframe raw = Some (type, payload)"
    by (cases "unframe raw") auto
  then show ?thesis
  proof cases
    case 2
    with Some recv show ?thesis
      by (cases "removePeer px pid (set_peer pid (\<lambda>p. p\<lparr>pc_active := False\<rparr>) n, w1)")
        (auto simp: handler_round_def handlePeer.simps [of px handler pid n])
  next
    case (4 type payload)
    with Some recv show ?thesis
      by (cases "answer px pid type payload (set_peer pid (\<lambda>p. p\<lparr>pc_lastSeen := px_now px w1\<rparr>) n, w1)")
        (simp_all add: handler_round_def handlePeer.simps [of px handler pid n w] Let_def)
  qed (simp_all add: Some recv handler_round_def handlePeer.simps [of px handler pid n w])
qed (simp add: handler_round_def handlePeer.simps [of px handler pid n w])

section \<open>The system\<close>

text \<open>
  \<open>holder\<close> is the thread that holds the mutex. A thread sees in \<open>locked\<close> whether it is that one.
\<close>

record 'w node_system =
  net_node :: Node
  net_world :: 'w
  holder :: "nat option"
  tasks :: "node_task list"

definition seen_by :: "nat \<Rightarrow> 'w node_system \<Rightarrow> Node \<times> 'w" where
  "seen_by i \<sigma> = ((net_node \<sigma>)\<lparr>locked := holder \<sigma> = Some i\<rparr>, net_world \<sigma>)"

definition advance ::
  "nat \<Rightarrow> node_task \<Rightarrow> node_task list \<Rightarrow> Node \<times> 'w \<Rightarrow> 'w node_system \<Rightarrow> 'w node_system" where
  "advance i t spawned nw \<sigma> =
     \<sigma>\<lparr>net_node := fst nw, net_world := snd nw, tasks := (tasks \<sigma>)[i := t] @ spawned\<rparr>"

text \<open>A step of thread \<open>i\<close>; \<open>None\<close> is undefined behaviour.\<close>

inductive node_step ::
  "('w, 'z) posix_scheme \<Rightarrow> (string \<Rightarrow> string \<Rightarrow> string \<Rightarrow> 'w \<Rightarrow> 'w)
     \<Rightarrow> 'w node_system \<Rightarrow> 'w node_system option \<Rightarrow> bool"
  for px handler where
  outside: "\<lbrakk>i < length (tasks \<sigma>); \<not> takes_mutex (tasks \<sigma> ! i);
      free_stage px (tasks \<sigma>) (tasks \<sigma> ! i) (seen_by i \<sigma>) = Some (t, nw)\<rbrakk>
    \<Longrightarrow> node_step px handler \<sigma> (Some (advance i t [] nw \<sigma>))"
| in_section: "\<lbrakk>i < length (tasks \<sigma>); takes_mutex (tasks \<sigma> ! i); holder \<sigma> = None;
      locked_stage px (tasks \<sigma> ! i) (seen_by i \<sigma>) = Inr (t, spawned, nw)\<rbrakk>
    \<Longrightarrow> node_step px handler \<sigma>
          (Some ((advance i t spawned nw \<sigma>)\<lparr>holder := if \<exists>pid. t = Serving pid then Some i else None\<rparr>))"
| section_undefined: "\<lbrakk>i < length (tasks \<sigma>); takes_mutex (tasks \<sigma> ! i); holder \<sigma> = None;
      locked_stage px (tasks \<sigma> ! i) (seen_by i \<sigma>) = Inl e\<rbrakk>
    \<Longrightarrow> node_step px handler \<sigma> None"
| serve: "\<lbrakk>i < length (tasks \<sigma>); tasks \<sigma> ! i = Serving pid;
      handler_round px handler pid (seen_by i \<sigma>) = Inr (True, nw)\<rbrakk>
    \<Longrightarrow> node_step px handler \<sigma> (Some (advance i (Serving pid) [] nw \<sigma>))"
| serve_end: "\<lbrakk>i < length (tasks \<sigma>); tasks \<sigma> ! i = Serving pid;
      handler_round px handler pid (seen_by i \<sigma>) = Inr (False, nw)\<rbrakk>
    \<Longrightarrow> node_step px handler \<sigma> (Some ((advance i Ended [] nw \<sigma>)\<lparr>holder := None\<rparr>))"
| serve_undefined: "\<lbrakk>i < length (tasks \<sigma>); tasks \<sigma> ! i = Serving pid;
      handler_round px handler pid (seen_by i \<sigma>) = Inl e\<rbrakk>
    \<Longrightarrow> node_step px handler \<sigma> None"

inductive_cases node_stepE: "node_step px handler \<sigma> (Some \<sigma>')"

lemma node_step_cases [consumes 1]:
  assumes "node_step px handler \<sigma> (Some \<sigma>')"
  obtains (outside) i t nw where "\<sigma>' = advance i t [] nw \<sigma>" "i < length (tasks \<sigma>)"
      "\<not> takes_mutex (tasks \<sigma> ! i)"
      "free_stage px (tasks \<sigma>) (tasks \<sigma> ! i) (seen_by i \<sigma>) = Some (t, nw)"
    | (in_section) i t spawned nw
      where "\<sigma>' = (advance i t spawned nw \<sigma>)\<lparr>holder := if \<exists>pid. t = Serving pid then Some i else None\<rparr>"
      "i < length (tasks \<sigma>)" "takes_mutex (tasks \<sigma> ! i)" "holder \<sigma> = None"
      "locked_stage px (tasks \<sigma> ! i) (seen_by i \<sigma>) = Inr (t, spawned, nw)"
    | (serve) i pid nw where "\<sigma>' = advance i (Serving pid) [] nw \<sigma>" "i < length (tasks \<sigma>)"
      "tasks \<sigma> ! i = Serving pid" "handler_round px handler pid (seen_by i \<sigma>) = Inr (True, nw)"
    | (serve_end) i pid nw where "\<sigma>' = (advance i Ended [] nw \<sigma>)\<lparr>holder := None\<rparr>" "i < length (tasks \<sigma>)"
      "tasks \<sigma> ! i = Serving pid" "handler_round px handler pid (seen_by i \<sigma>) = Inr (False, nw)"
  using assms by (rule node_stepE) blast+

inductive node_run ::
  "('w, 'z) posix_scheme \<Rightarrow> (string \<Rightarrow> string \<Rightarrow> string \<Rightarrow> 'w \<Rightarrow> 'w)
     \<Rightarrow> 'w node_system \<Rightarrow> 'w node_system \<Rightarrow> bool"
  for px handler where
  stay: "node_run px handler \<sigma> \<sigma>"
| run_step: "node_run px handler \<sigma> \<sigma>' \<Longrightarrow> node_step px handler \<sigma>' (Some \<sigma>'') \<Longrightarrow> node_run px handler \<sigma> \<sigma>''"

section \<open>The stages compose to the operations\<close>

text \<open>One task run alone, for at most \<open>k\<close> stages.\<close>

fun alone ::
  "('w, 'z) posix_scheme \<Rightarrow> nat \<Rightarrow> node_task \<times> node_task list \<times> Node \<times> 'w
     \<Rightarrow> (node_task \<times> node_task list \<times> Node \<times> 'w) result" where
  "alone px 0 s = Inr s"
| "alone px (Suc k) (t, started, nw) =
     (if takes_mutex t then
        bind_result (locked_stage px t nw) (\<lambda>(t, spawned, nw). alone px k (t, started @ spawned, nw))
      else case free_stage px [t] t nw of
        None \<Rightarrow> Inr (t, started, nw)
      | Some (t, nw) \<Rightarrow> alone px k (t, started, nw))"

lemma alone_Ended [simp]: "alone px k (Ended, started, nw) = Inr (Ended, started, nw)"
  by (cases k; cases nw) simp_all

lemma connect_stages:
  assumes "\<not> locked n"
  shows "alone px 4 (Connect_check ip port, [], n, w) =
           bind_result (connectToPeer px ip port (n, w)) (\<lambda>(ok, n', w').
             Inr (Ended, if ok \<and> \<not> um_contains (peers n) (makePeerId ip port) then [Serve (makePeerId ip port)] else [],
                  n', w'))"
  using assms
  by (simp add: eval_nat_numeral connectToPeer_def guarded_def addPeer_def sendToPeer_def Let_def
      handshake_text_def split: prod.splits)

lemma accept_stages:
  assumes "\<not> locked n" and "running n" and "px_accept px (listenFd n) w = ((fd, ip, port), w1)" and "0 \<le> fd"
  shows "alone px 3 (Accept_wait, [], n, w) =
           bind_result (accept_round px (n, w)) (\<lambda>(n', w'). Inr (Accept_wait, [Serve (makePeerId ip port)], n', w'))"
  using assms
  by (simp add: eval_nat_numeral accept_round_def guarded_def addPeer_def sendToPeer_def Let_def
      handshake_text_def split: prod.splits)

lemma stop_stages:
  assumes "\<not> locked n"
  shows "alone px 3 (Stop_begin, [], n, w) = bind_result (Node_stop px (n, w)) (\<lambda>nw. Inr (Ended, [], nw))"
  using assms by (simp add: eval_nat_numeral Node_stop_def guarded_def Let_def)

section \<open>What a stage changes\<close>

lemma free_stage_keeps:
  assumes "free_stage px ts t (n, w) = Some (t', n', w')"
  shows "peers n' = peers n" and "running n' \<Longrightarrow> running n" and "\<nexists>pid. t' = Serving pid"
    and "\<nexists>pid. t = Serving pid"
  using assms
  by (cases t; auto simp: Let_def split: if_splits prod.splits)+

lemma locked_stage_keeps:
  assumes "locked_stage px t (n, w) = Inr (t', spawned, n', w')" and "takes_mutex t"
  shows "running n' = running n" and "\<forall>s\<in>set spawned. \<exists>pid. s = Serve pid"
    and "t' = Serving pid \<Longrightarrow> t = Serve pid"
  using assms
  by (cases t; auto simp: guarded_def addPeer_def removePeer_def split: if_splits option.splits prod.splits)+

text \<open>With the mutex held, a round on a live peer can only go on to the next.\<close>

lemma map_fst_um_put: "um_find m k \<noteq> None \<Longrightarrow> map fst (um_put k v m) = map fst m"
  by (induction m) auto

lemma set_peer_keys: "map fst (peers (set_peer pid f n)) = map fst (peers n)"
  by (simp add: set_peer_def map_fst_um_put split: option.split)

lemma handler_round_locked:
  assumes "handler_round px handler pid (n, w) = Inr (again, n', w')"
    and "locked n" and "running n" and "um_find (peers n) pid = Some p" and "pc_active p"
  shows "again" and "running n'" and "map fst (peers n') = map fst (peers n)"
    and "\<exists>p'. um_find (peers n') pid = Some p' \<and> pc_active p'"
  using assms set_peer_keys [of pid _ n]
  by (auto simp: handler_round_def removePeer_def guarded_def Let_def split: if_splits prod.splits option.splits)

lemma handler_round_running:
  assumes "handler_round px handler pid (n, w) = Inr (again, n', w')"
  shows "running n' = running n"
  using assms
  by (auto simp: handler_round_def removePeer_def guarded_def Let_def split: if_splits prod.splits option.splits)

section \<open>Mutual exclusion\<close>

text \<open>The threads that serve a connection are those that hold the mutex.\<close>

definition exclusive :: "'w node_system \<Rightarrow> bool" where
  "exclusive \<sigma> \<longleftrightarrow>
     (\<forall>i. holder \<sigma> = Some i \<longleftrightarrow> i < length (tasks \<sigma>) \<and> (\<exists>pid. tasks \<sigma> ! i = Serving pid))"

text \<open>It holds when the threads start: nobody serves and nobody has the mutex.\<close>

lemma exclusive_initial:
  "exclusive \<lparr>net_node = n, net_world = w, holder = None, tasks = ts\<rparr> \<longleftrightarrow> (\<forall>pid. Serving pid \<notin> set ts)"
  by (auto simp: exclusive_def in_set_conv_nth)

lemma advance_simps [simp]:
  "net_node (advance i t spawned nw \<sigma>) = fst nw" "net_world (advance i t spawned nw \<sigma>) = snd nw"
  "holder (advance i t spawned nw \<sigma>) = holder \<sigma>"
  "length (tasks (advance i t spawned nw \<sigma>)) = length (tasks \<sigma>) + length spawned"
  by (simp_all add: advance_def)

lemma nth_advance:
  "i < length (tasks \<sigma>) \<Longrightarrow>
     tasks (advance i t spawned nw \<sigma>) ! j =
       (if j = i then t else if j < length (tasks \<sigma>) then tasks \<sigma> ! j else spawned ! (j - length (tasks \<sigma>)))"
  by (simp add: advance_def nth_append)

lemma exclusive_step:
  assumes "node_step px handler \<sigma> (Some \<sigma>')" and "exclusive \<sigma>"
  shows "exclusive \<sigma>'"
  using assms(1)
proof (cases rule: node_step_cases)
  case (outside i t nw)
  obtain n w n' w' where nw: "seen_by i \<sigma> = (n, w)" "nw = (n', w')" by fastforce
  from free_stage_keeps [OF outside(4) [unfolded nw]] outside assms(2) show ?thesis
    by (auto simp: exclusive_def nth_advance)
next
  case (in_section i t spawned nw)
  obtain n w n' w' where nw: "seen_by i \<sigma> = (n, w)" "nw = (n', w')" by fastforce
  have "\<nexists>pid. spawned ! k = Serving pid" if "k < length spawned" for k
    using locked_stage_keeps(2) [OF in_section(5) [unfolded nw] in_section(3)] nth_mem [OF that] by auto
  moreover have "\<nexists>pid. tasks \<sigma> ! j = Serving pid" if "j < length (tasks \<sigma>)" for j
    using assms(2) in_section(4) that by (simp add: exclusive_def)
  ultimately show ?thesis
    using in_section(1,2) by (auto simp: exclusive_def nth_advance not_less)
next
  case (serve i pid nw)
  with assms(2) show ?thesis by (auto simp: exclusive_def nth_advance)
next
  case (serve_end i pid nw)
  then have "holder \<sigma> = Some i" using assms(2) by (auto simp: exclusive_def)
  then have "\<nexists>q. tasks \<sigma> ! k = Serving q" if "k < length (tasks \<sigma>)" "k \<noteq> i" for k
    using assms(2) that by (metis exclusive_def option.inject)
  with serve_end(1,2) show ?thesis by (simp add: exclusive_def nth_advance)
qed

lemma exclusive_run: "node_run px handler \<sigma> \<sigma>' \<Longrightarrow> exclusive \<sigma> \<Longrightarrow> exclusive \<sigma>'"
  by (induction rule: node_run.induct) (auto intro: exclusive_step)

section \<open>The mutex is not given back\<close>

lemma seen_by_simps [simp]:
  "peers (fst (seen_by i \<sigma>)) = peers (net_node \<sigma>)" "running (fst (seen_by i \<sigma>)) = running (net_node \<sigma>)"
  "locked (fst (seen_by i \<sigma>)) \<longleftrightarrow> holder \<sigma> = Some i"
  by (simp_all add: seen_by_def)

lemma running_step:
  assumes "node_step px handler \<sigma> (Some \<sigma>')" and "running (net_node \<sigma>')"
  shows "running (net_node \<sigma>)"
  using assms(1)
proof (cases rule: node_step_cases)
  case (outside i t nw)
  with assms(2) free_stage_keeps(2) [of px "tasks \<sigma>" "tasks \<sigma> ! i" "fst (seen_by i \<sigma>)" "snd (seen_by i \<sigma>)" t "fst nw" "snd nw"]
  show ?thesis by simp
next
  case (in_section i t spawned nw)
  with assms(2) locked_stage_keeps(1) [of px "tasks \<sigma> ! i" "fst (seen_by i \<sigma>)" "snd (seen_by i \<sigma>)" t spawned "fst nw" "snd nw"]
  show ?thesis by simp
next
  case (serve i pid nw)
  with assms(2) handler_round_running [of px handler pid "fst (seen_by i \<sigma>)" "snd (seen_by i \<sigma>)" True "fst nw" "snd nw"]
  show ?thesis by simp
next
  case (serve_end i pid nw)
  with assms(2) handler_round_running [of px handler pid "fst (seen_by i \<sigma>)" "snd (seen_by i \<sigma>)" False "fst nw" "snd nw"]
  show ?thesis by simp
qed

text \<open>
  Thread \<open>i\<close> serves \<open>pid\<close>, the table has the keys it had, and every thread that was about to take
  the mutex still is.
\<close>

definition held :: "nat \<Rightarrow> string \<Rightarrow> 'w node_system \<Rightarrow> 'w node_system \<Rightarrow> bool" where
  "held i pid \<sigma>0 \<sigma> \<longleftrightarrow>
     holder \<sigma> = Some i \<and> i < length (tasks \<sigma>) \<and> tasks \<sigma> ! i = Serving pid
   \<and> (\<exists>p. um_find (peers (net_node \<sigma>)) pid = Some p \<and> pc_active p)
   \<and> map fst (peers (net_node \<sigma>)) = map fst (peers (net_node \<sigma>0))
   \<and> length (tasks \<sigma>) = length (tasks \<sigma>0)
   \<and> (\<forall>j<length (tasks \<sigma>0). takes_mutex (tasks \<sigma>0 ! j) \<longrightarrow> tasks \<sigma> ! j = tasks \<sigma>0 ! j)"

lemma held_step:
  assumes "node_step px handler \<sigma> (Some \<sigma>')" and "exclusive \<sigma>" and "held i pid \<sigma>0 \<sigma>" and "running (net_node \<sigma>)"
  shows "held i pid \<sigma>0 \<sigma>'"
proof -
  have i: "k = i" if "k < length (tasks \<sigma>)" "tasks \<sigma> ! k = Serving q" for k q
    using assms(2,3) that unfolding exclusive_def held_def by fastforce
  have round: "b \<and> map fst (peers (fst nw)) = map fst (peers (net_node \<sigma>0))
      \<and> (\<exists>p'. um_find (peers (fst nw)) pid = Some p' \<and> pc_active p')"
    if "handler_round px handler pid (seen_by i \<sigma>) = Inr (b, nw)" for b nw
    using that assms(3,4) handler_round_locked [of px handler pid "fst (seen_by i \<sigma>)" "snd (seen_by i \<sigma>)" b "fst nw" "snd nw"]
    by (auto simp: held_def)
  show ?thesis
    using assms(1)
  proof (cases rule: node_step_cases)
    case (outside k t nw)
    with free_stage_keeps [of px "tasks \<sigma>" "tasks \<sigma> ! k" "fst (seen_by k \<sigma>)" "snd (seen_by k \<sigma>)" t "fst nw" "snd nw"]
    have "peers (fst nw) = peers (net_node \<sigma>)" and "k \<noteq> i" using assms(3) by (auto simp: held_def)
    with outside assms(3) show ?thesis by (auto simp: held_def nth_advance)
  next
    case (in_section k t spawned nw)
    with assms(3) show ?thesis by (simp add: held_def)
  next
    case (serve k q nw)
    with i [of k q] assms(3) have "k = i" "q = pid" by (auto simp: held_def)
    with serve round [of True nw] assms(3) show ?thesis by (auto simp: held_def nth_advance)
  next
    case (serve_end k q nw)
    with i [of k q] assms(3) have "k = i" "q = pid" by (auto simp: held_def)
    with serve_end round [of False nw] show ?thesis by simp
  qed
qed

lemma held_run:
  "node_run px handler \<sigma>0 \<sigma> \<Longrightarrow> exclusive \<sigma>0 \<Longrightarrow> held i pid \<sigma>0 \<sigma>0 \<Longrightarrow> running (net_node \<sigma>) \<Longrightarrow> held i pid \<sigma>0 \<sigma>"
proof (induction rule: node_run.induct)
  case (run_step \<sigma> \<sigma>' \<sigma>'')
  then show ?case using running_step held_step exclusive_run by blast
qed

section \<open>Properties\<close>

text \<open>C35: The handler of a connection has the peer table to itself for good. Once one of the threads serves
  a live peer, then in every interleaving without undefined behaviour and for as long as the node
  runs it is the one that holds the mutex and never gives it back: the table keeps its keys, and
  every thread about to take the mutex (a second \<open>connectToPeer\<close>, a broadcast, \<open>peerCount\<close>,
  \<open>getPeers\<close>, the accept loop with a new peer) waits there. No two threads ever serve at the same
  time, and an answer of the handler to a \<open>PING\<close> is undefined behaviour.\<close>

theorem handler_keeps_mutex:
  assumes "node_run px handler \<sigma> \<sigma>'" and "exclusive \<sigma>"
    and "holder \<sigma> = Some i" and "tasks \<sigma> ! i = Serving pid"
    and "um_find (peers (net_node \<sigma>)) pid = Some p" and "pc_active p" and "running (net_node \<sigma>')"
  shows "exclusive \<sigma>' \<and> holder \<sigma>' = Some i \<and> tasks \<sigma>' ! i = Serving pid
       \<and> map fst (peers (net_node \<sigma>')) = map fst (peers (net_node \<sigma>))
       \<and> (\<forall>j<length (tasks \<sigma>). takes_mutex (tasks \<sigma> ! j) \<longrightarrow> tasks \<sigma>' ! j = tasks \<sigma> ! j)
       \<and> answer px pid ''PING'' payload (seen_by i \<sigma>') = Inl Undefined_behaviour"
proof -
  have "held i pid \<sigma> \<sigma>"
    using assms(2-6) by (auto simp: held_def exclusive_def)
  from held_run [OF assms(1,2) this assms(7)] have held: "held i pid \<sigma> \<sigma>'" .
  then have "locked (fst (seen_by i \<sigma>'))" by (simp add: held_def)
  from answer_locked [OF this, of px pid "''PING''" payload "snd (seen_by i \<sigma>')"]
  show ?thesis using held exclusive_run [OF assms(1,2)] by (simp add: held_def)
qed

text \<open>A node with one live peer, whose handler has the mutex, and a thread that asks for \<open>peerCount\<close>.\<close>

definition busy_node :: "(string \<times> string) node_system" where
  "busy_node =
     \<lparr>net_node = (Node_new ''h'' 1 ''i'')\<lparr>running := True, peers := um_put ''p''
        \<lparr>pc_fd = 3, pc_ip = ''h'', pc_port = 1, pc_nodeId = ''p'', pc_outbound = False, pc_lastSeen = 0,
         pc_active = True\<rparr> um_empty\<rparr>,
      net_world = (frame ''TX'' ''yz'', []), holder = Some 0, tasks = [Serving ''p'', Counting]\<rparr>"

lemma busy_node_step:
  "\<exists>nw. node_step pipe (\<lambda>_ _ _ w. w) busy_node (Some (advance 0 (Serving ''p'') [] nw busy_node))
      \<and> running (fst nw) \<and> fst (snd nw) = []"
proof -
  obtain w' where "recvRaw pipe 3 (frame ''TX'' ''yz'', []) = (frame ''TX'' ''yz'', w')" and rest: "fst w' = []"
    using recvRaw_frame [OF pipe_ok(1), where w = "(frame ''TX'' ''yz'', [])" and fd = 3 and type = "''TX''"
        and payload = "''yz''" and rest = "[]"] by auto
  moreover have "unframe (frame ''TX'' ''yz'') = Some (''TX'', ''yz'')"
    using unframe_frame [of "''yz''" "''TX''"] trim_back_resize [of "''TX''"] by simp
  moreover have "frame ''TX'' ''yz'' \<noteq> []"
    using length_frame [of "''TX''" "''yz''"] by auto
  ultimately obtain n where "handler_round pipe (\<lambda>_ _ _ w. w) ''p'' (seen_by 0 busy_node) = Inr (True, n, w')"
    and "running n"
    by (simp add: handler_round_def seen_by_def busy_node_def answer_def Node_new_def set_peer_def um_empty_def Let_def)
  moreover from this have "node_step pipe (\<lambda>_ _ _ w. w) busy_node
      (Some (advance 0 (Serving ''p'') [] (n, w') busy_node))"
    by (intro node_step.serve) (simp_all add: busy_node_def)
  ultimately show ?thesis using rest by (intro exI [of _ "(n, w')"]) simp
qed

theorem handler_keeps_mutex_witness:
  "\<exists>\<sigma>'. node_run pipe (\<lambda>_ _ _ w. w) busy_node \<sigma>' \<and> fst (net_world \<sigma>') = []
      \<and> holder \<sigma>' = Some 0 \<and> tasks \<sigma>' ! 1 = Counting"
proof -
  obtain nw where step: "node_step pipe (\<lambda>_ _ _ w. w) busy_node (Some (advance 0 (Serving ''p'') [] nw busy_node))"
    and on: "running (fst nw)" "fst (snd nw) = []"
    using busy_node_step by blast
  let ?\<sigma> = "advance 0 (Serving ''p'') [] nw busy_node"
  have run: "node_run pipe (\<lambda>_ _ _ w. w) busy_node ?\<sigma>"
    using step by (rule node_run.run_step [OF node_run.stay])
  have ex: "exclusive busy_node"
    by (auto simp: exclusive_def busy_node_def less_Suc_eq)
  have "holder ?\<sigma> = Some 0 \<and> tasks ?\<sigma> ! 1 = Counting"
    using handler_keeps_mutex [OF run ex, of 0 "''p''"] on
    by (simp add: busy_node_def um_empty_def)
  with run on show ?thesis by (intro exI [of _ ?\<sigma>]) simp
qed

end
