(* ===== verification/Delivery.thy ===== *)
theory Delivery
  imports Node
begin

text \<open>
  Two nodes on one connection: what \<open>Node::sendToPeer\<close> of one writes and what \<open>Node::handlePeer\<close> of
  the other hands to its message handler. The network between them is reliable and ordered: the
  bytes to be received are those that were sent. \<open>send_all\<close> is a sequence of sends that stops at the
  first failure.
\<close>

section \<open>The sender\<close>

type_synonym message = "string \<times> string"

definition frames :: "message list \<Rightarrow> string" where
  "frames ms = concat (map (\<lambda>(type, payload). frame type payload) ms)"

lemma frames_simps [simp]: "frames [] = []" "frames ((type, payload) # ms) = frame type payload @ frames ms"
  by (simp_all add: frames_def)

fun send_all ::
  "('w, 'z) posix_scheme \<Rightarrow> string \<Rightarrow> message list \<Rightarrow> Node \<times> 'w \<Rightarrow> (bool \<times> 'w) result" where
  "send_all px pid [] (n, w) = Inr (True, w)"
| "send_all px pid ((type, payload) # ms) (n, w) =
     bind_result (sendToPeer px pid type payload (n, w)) (\<lambda>(sent, w).
       if sent then send_all px pid ms (n, w) else Inr (False, w))"

text \<open>All sends succeed: the stream is the frames in order.\<close>

lemma send_all_stream:
  assumes "delivers px outgoing" and "um_find (peers n) pid = Some p"
    and "send_all px pid ms (n, w) = Inr (True, w')"
  shows "outgoing w' (pc_fd p) = outgoing w (pc_fd p) @ frames ms"
  using assms(3)
proof (induction ms arbitrary: w)
  case (Cons m ms)
  obtain type payload where m: "m = (type, payload)" by fastforce
  with Cons.prems obtain w1 where s: "sendToPeer px pid type payload (n, w) = Inr (True, w1)"
    and rest: "send_all px pid ms (n, w1) = Inr (True, w')" by (auto split: if_splits)
  then have "sendRaw px (pc_fd p) (frame type payload) w = (True, w1)"
    using assms(2) by (auto simp: sendToPeer_def guarded_def split: if_splits)
  with sendRaw_prefix [OF assms(1), of "pc_fd p" "frame type payload" w]
  have "outgoing w1 (pc_fd p) = outgoing w (pc_fd p) @ frame type payload" by auto
  with Cons.IH [OF rest] m show ?case by simp
qed simp

section \<open>The receiver\<close>

text \<open>
  A message that arrives as it was sent: the type fits its field and does not end in a space, and
  the frame is within the 4 MB the receiver allows. The types the handler answers itself take the
  mutex again; \<open>plain\<close> messages are the others.
\<close>

definition deliverable :: "message \<Rightarrow> bool" where
  "deliverable m \<longleftrightarrow> length (fst m) \<le> 16 \<and> (fst m = [] \<or> last (fst m) \<noteq> CHR '' '')
     \<and> 16 + length (snd m) \<le> 4194304"

definition plain :: "message \<Rightarrow> bool" where
  "plain m \<longleftrightarrow> fst m \<noteq> ''PING'' \<and> fst m \<noteq> ''VERSION'' \<and> fst m \<noteq> ''GETADDR''"

text \<open>A handler that records what it is given, and touches neither the stream nor the record else.\<close>

definition recording :: "('w, 'z) posix_scheme \<Rightarrow> (string \<Rightarrow> string \<Rightarrow> string \<Rightarrow> 'w \<Rightarrow> 'w)
    \<Rightarrow> ('w \<Rightarrow> int \<Rightarrow> string) \<Rightarrow> ('w \<Rightarrow> message list) \<Rightarrow> bool" where
  "recording px handler incoming seen \<longleftrightarrow>
     (\<forall>pid type payload w. incoming (handler pid type payload w) = incoming w
        \<and> seen (handler pid type payload w) = seen w @ [(type, payload)])
   \<and> (\<forall>fd k w. seen (snd (px_recv px fd k w)) = seen w)"

lemma recvRaw_seen:
  assumes "recording px handler incoming seen"
  shows "seen (snd (recvRaw px fd w)) = seen w"
proof -
  have "seen (snd (px_recv px fd k w)) = seen w" for k w using assms by (simp add: recording_def)
  then have keep: "px_recv px fd k w = (r, w') \<Longrightarrow> seen w' = seen w" for k w r w' by (metis snd_conv)
  show ?thesis by (auto simp: recvRaw_def Let_def split: prod.split option.split) (metis keep)+
qed

text \<open>The entry of the peer as the loop changes it: only the time it was last seen.\<close>

definition same_link :: "string \<Rightarrow> PeerConn \<Rightarrow> Node \<Rightarrow> Node \<Rightarrow> bool" where
  "same_link pid p n n' \<longleftrightarrow> running n' = running n \<and> locked n' = locked n
     \<and> (\<exists>t. um_find (peers n') pid = Some (p\<lparr>pc_lastSeen := t\<rparr>))"

lemma handlePeer_message:
  assumes "receives px incoming" and "recording px handler incoming seen"
    and "um_find (peers n) pid = Some p" and "pc_active p" and "running n"
    and "incoming w (pc_fd p) = frame type payload @ rest"
    and "deliverable (type, payload)"
  shows "\<exists>w1 n1. incoming w1 (pc_fd p) = rest \<and> seen w1 = seen w \<and> same_link pid p n n1
     \<and> handlePeer px handler pid n w =
         (case answer px pid type payload (n1, w1) of
            Inl e \<Rightarrow> Some (Inl e)
          | Inr w2 \<Rightarrow> handlePeer px handler pid n1 (handler pid type payload w2))"
proof -
  obtain w1 where recv: "recvRaw px (pc_fd p) w = (frame type payload, w1)" and rest: "incoming w1 (pc_fd p) = rest"
    using recvRaw_frame [OF assms(1,6)] assms(7) by (auto simp: deliverable_def)
  have "20 + length payload < 2 ^ 32" using assms(7) by (simp add: deliverable_def)
  then have un: "unframe (frame type payload) = Some (type, payload)"
    using assms(7) unframe_frame [of payload type] trim_back_resize [of type] by (simp add: deliverable_def)
  have ne: "frame type payload \<noteq> []" using length_frame [of type payload] by auto
  let ?n = "set_peer pid (\<lambda>p. p\<lparr>pc_lastSeen := px_now px w1\<rparr>) n"
  have "seen w1 = seen w" using recvRaw_seen [OF assms(2), of "pc_fd p" w] recv by simp
  moreover have "same_link pid p n ?n" using assms(3) by (auto simp: same_link_def)
  moreover have "handlePeer px handler pid n w =
      (case answer px pid type payload (?n, w1) of
         Inl e \<Rightarrow> Some (Inl e)
       | Inr w2 \<Rightarrow> handlePeer px handler pid ?n (handler pid type payload w2))"
    using assms(3-5) recv un ne by (subst handlePeer.simps) (simp add: Let_def)
  ultimately show ?thesis using rest by blast
qed

lemma answer_plain: "plain (type, payload) \<Longrightarrow> answer px pid type payload (n, w) = Inr w"
  by (simp add: answer_def plain_def)

lemma same_link_trans:
  "same_link pid p n n' \<Longrightarrow> same_link pid (p\<lparr>pc_lastSeen := t\<rparr>) n' n'' \<Longrightarrow> same_link pid p n n''"
  by (auto simp: same_link_def)

text \<open>A stream of plain messages is handed over in order, and the loop goes on after it.\<close>

lemma handlePeer_messages:
  assumes "receives px incoming" and "recording px handler incoming seen"
  shows "\<lbrakk>um_find (peers n) pid = Some p; pc_active p; running n;
      incoming w (pc_fd p) = frames ms @ rest; \<forall>m \<in> set ms. deliverable m \<and> plain m\<rbrakk> \<Longrightarrow>
    \<exists>n' w'. handlePeer px handler pid n w = handlePeer px handler pid n' w' \<and> same_link pid p n n'
      \<and> seen w' = seen w @ ms \<and> incoming w' (pc_fd p) = rest"
proof (induction ms arbitrary: n p w)
  case Nil
  then have "same_link pid p n n" by (auto simp: same_link_def intro!: exI [of _ "pc_lastSeen p"])
  with Nil show ?case by auto
next
  case (Cons m ms)
  obtain type payload where m: "m = (type, payload)" by fastforce
  have d: "deliverable (type, payload)" "plain (type, payload)" using Cons.prems(5) m by simp_all
  have "incoming w (pc_fd p) = frame type payload @ frames ms @ rest" using Cons.prems(4) m by simp
  from handlePeer_message [OF assms Cons.prems(1-3) this d(1)] obtain w1 n1 where
    step: "incoming w1 (pc_fd p) = frames ms @ rest" "seen w1 = seen w" "same_link pid p n n1"
      "handlePeer px handler pid n w = handlePeer px handler pid n1 (handler pid type payload w1)"
    unfolding answer_plain [OF d(2)] by auto
  obtain t where p1: "um_find (peers n1) pid = Some (p\<lparr>pc_lastSeen := t\<rparr>)" "running n1"
    using step(3) Cons.prems(3) by (auto simp: same_link_def)
  have "incoming (handler pid type payload w1) (pc_fd (p\<lparr>pc_lastSeen := t\<rparr>)) = frames ms @ rest"
    and seen: "seen (handler pid type payload w1) = seen w @ [m]"
    using assms(2) step(1,2) m by (simp_all add: recording_def)
  from Cons.IH [OF p1(1) _ p1(2) this(1)] Cons.prems(2,5) obtain n' w' where
    "handlePeer px handler pid n1 (handler pid type payload w1) = handlePeer px handler pid n' w'"
    "same_link pid (p\<lparr>pc_lastSeen := t\<rparr>) n1 n'" "seen w' = seen (handler pid type payload w1) @ ms"
    "incoming w' (pc_fd (p\<lparr>pc_lastSeen := t\<rparr>)) = rest" by auto
  with step(3,4) seen show ?case by (auto intro: same_link_trans)
qed

text \<open>The loop ends where nothing more arrives, or a message beyond 4 MB does.\<close>

definition stream_ends :: "message list \<Rightarrow> bool" where
  "stream_ends ms \<longleftrightarrow>
     (case ms of [] \<Rightarrow> True | m # _ \<Rightarrow> 4194304 < 16 + length (snd m) \<and> 16 + length (snd m) < 2 ^ 32)"

lemma recvRaw_end:
  assumes "receives px incoming" and "incoming w fd = frames ms" and "stream_ends ms"
  shows "fst (recvRaw px fd w) = []"
proof (cases ms)
  case Nil
  with recvRaw_stream [OF assms(1), of fd w] assms(2) show ?thesis by (auto simp: Let_def)
next
  case (Cons m ms')
  obtain type payload where "m = (type, payload)" by fastforce
  with Cons assms show ?thesis
    by (intro recvRaw_oversize [OF assms(1), of w fd type payload "frames ms'"]) (simp_all add: stream_ends_def)
qed

lemma handlePeer_end:
  assumes "receives px incoming" and "recording px handler incoming seen"
    and "um_find (peers n) pid = Some p" and "pc_active p" and "running n"
    and "incoming w (pc_fd p) = frames ms" and "stream_ends ms"
  shows "\<exists>w'. seen w' = seen w \<and> handlePeer px handler pid n w =
           Some (removePeer px pid (set_peer pid (\<lambda>p. p\<lparr>pc_active := False\<rparr>) n, w'))"
proof -
  obtain w' where recv: "recvRaw px (pc_fd p) w = ([], w')"
    using recvRaw_end [OF assms(1,6,7)] by (metis prod.collapse)
  then have "handlePeer px handler pid n w = Some (removePeer px pid (set_peer pid (\<lambda>p. p\<lparr>pc_active := False\<rparr>) n, w'))"
    using assms(3-5) by (subst handlePeer.simps) simp
  moreover have "seen w' = seen w" using recvRaw_seen [OF assms(2), of "pc_fd p" w] recv by simp
  ultimately show ?thesis by blast
qed

section \<open>Properties\<close>


text \<open>The receiving end of the witness: the bytes to come and the messages recorded.\<close>

definition log_pipe :: "(string \<times> message list) posix" where
  "log_pipe = \<lparr>px_socket = (\<lambda>w. (3, w)), px_bind = (\<lambda>fd port w. (0, w)), px_listen = (\<lambda>fd w. (0, w)),
     px_accept = (\<lambda>fd w. ((4, ''10.0.0.1'', 8333), w)), px_resolve = (\<lambda>ip w. (True, w)),
     px_connect = (\<lambda>fd ip port w. (0, w)), px_send = (\<lambda>fd data w. (int (length data), w)),
     px_recv = (\<lambda>fd n w. (Some (take n (fst w)), (drop n (fst w), snd w))),
     px_close = (\<lambda>fd w. w), px_now = (\<lambda>w. 0)\<rparr>"

definition log_message :: "string \<Rightarrow> string \<Rightarrow> string \<Rightarrow> string \<times> message list \<Rightarrow> string \<times> message list" where
  "log_message pid type payload w = (fst w, snd w @ [(type, payload)])"

definition demo_node :: Node where
  "demo_node = (Node_new ''h'' 1 ''i'')\<lparr>running := True, peers := um_put ''p''
     \<lparr>pc_fd = 3, pc_ip = ''h'', pc_port = 1, pc_nodeId = ''p'', pc_outbound = False, pc_lastSeen = 0, pc_active = True\<rparr> um_empty\<rparr>"

lemma log_pipe_ok: "receives log_pipe (\<lambda>w fd. fst w)" "recording log_pipe log_message (\<lambda>w fd. fst w) snd"
  by (simp_all add: receives_def recording_def log_pipe_def log_message_def)


end
