(* ===== verification/Payment.thy ===== *)
theory Payment
  imports Demo_Chain Mempool
begin

text \<open>
  A payment on its way through the program: from the pool (\<open>Mempool::add\<close>) into the transactions
  picked for a block (\<open>getTopTxs\<close>), with a coinbase in front as \<open>main\<close> does, into the chain
  (\<open>addBlock\<close>), whose unspent outputs it changes, and out of the pool (\<open>removeConfirmed\<close>).
\<close>

section \<open>The outputs of a transaction\<close>

lemma output_point_at:
  assumes "length (outputs tx) \<le> 2 ^ 32" and "k < length (outputs tx)"
  shows "map_of (rev (output_points tx)) (txHash tx, of_nat k) = Some (output_utxo (txHash tx) (k, outputs tx ! k))"
proof -
  have val: "unat (of_nat i :: u32) = i" if "i < 2 ^ 32" for i using that by (simp add: unat_of_nat)
  then have inj: "(of_nat i :: u32) = of_nat j \<longleftrightarrow> i = j" if "i < 2 ^ 32" "j < 2 ^ 32" for i j
    using that by metis
  have points: "output_points tx = map (\<lambda>k. ((txHash tx, of_nat k), output_utxo (txHash tx) (k, outputs tx ! k))) [0..<length (outputs tx)]"
    by (rule nth_equalityI)
      (simp_all add: output_points_def output_utxos_def UTXO_outpoint_def output_utxo_def nth_enumerate_eq)
  have "distinct (map fst (output_points tx))"
    using assms(1) by (auto simp: points comp_def distinct_map inj_on_def inj)
  moreover have "((txHash tx, of_nat k), output_utxo (txHash tx) (k, outputs tx ! k)) \<in> set (output_points tx)"
    using assms(2) by (auto simp: points)
  ultimately show ?thesis
    by (subst map_of_eq_Some_iff) (simp_all add: rev_map [symmetric])
qed

lemma output_points_txHash: "(p, u) \<in> set (output_points tx) \<Longrightarrow> fst p = txHash tx"
  by (auto simp: output_points_def output_utxos_def UTXO_outpoint_def output_utxo_def)

text \<open>In a block whose identifiers are distinct, the outputs under an identifier are those of its
  transaction.\<close>

lemma map_of_rev_concat:
  assumes "x \<in> set xs" and "\<And>y. y \<in> set xs \<Longrightarrow> y \<noteq> x \<Longrightarrow> p \<notin> fst ` set (f y)" and "distinct xs"
  shows "map_of (rev (concat (map f xs))) p = map_of (rev (f x)) p"
  using assms
proof (induction xs)
  case (Cons y xs)
  have none: "map_of (rev (concat (map f xs))) p = None" if "x \<notin> set xs"
    using Cons.prems that by (auto simp: map_of_eq_None_iff)
  show ?case
  proof (cases "y = x")
    case True
    with Cons.prems(3) none show ?thesis by (simp add: map_add_def)
  next
    case False
    then have "map_of (rev (f y)) p = None" using Cons.prems(2) [of y] by (simp add: map_of_eq_None_iff)
    with Cons False show ?thesis by (simp add: map_add_def split: option.split)
  qed
qed simp

lemma block_outputs_at:
  assumes "tx \<in> set txs" and "distinct (map txHash txs)"
  shows "map_of (rev (all_outputs txs)) (txHash tx, i) = map_of (rev (output_points tx)) (txHash tx, i)"
  unfolding all_outputs_def
proof (rule map_of_rev_concat [OF assms(1)])
  show "distinct txs" using assms(2) by (simp add: distinct_map)
  fix y assume "y \<in> set txs" "y \<noteq> tx"
  then have "txHash y \<noteq> txHash tx" using assms by (auto simp: distinct_map inj_on_def)
  then show "(txHash tx, i) \<notin> fst ` set (output_points y)" using output_points_txHash [of _ _ y] by force
qed

section \<open>The pool after the block\<close>

lemma dom_um: "dom (um_find m) = set (map fst m)"
proof -
  have "um_find m = map_of m" by (rule ext) (simp add: um_find_def)
  then show ?thesis by (simp add: dom_map_of_conv_image_fst)
qed

lemma card_um: "um_ok m \<Longrightarrow> length m = card (dom (um_find m))"
  unfolding um_ok_def dom_um by (simp only: distinct_card length_map)

lemma length_confirmed:
  assumes "um_ok txs" and "h \<in> set hs"
  shows "length (removeConfirmed hs (um_put h tx txs)) \<le> length txs"
proof -
  have ok: "um_ok (um_put h tx txs)" using assms(1) by simp
  have "dom (um_find (removeConfirmed hs (um_put h tx txs))) \<subseteq> dom (um_find txs)"
    using assms(2) by (auto simp: removeConfirmed_def um.lookup_erase_all [OF ok] restrict_map_def split: if_splits)
  then have "card (dom (um_find (removeConfirmed hs (um_put h tx txs)))) \<le> card (dom (um_find txs))"
    by (intro card_mono) (simp_all add: dom_um)
  moreover have "um_ok (removeConfirmed hs (um_put h tx txs))"
    unfolding removeConfirmed_def by (rule um.ok_erase_all [OF ok])
  ultimately show ?thesis using card_um assms(1) by metis
qed

lemma confirmed_accepted_again:
  assumes "pool_ok pool" and "fst (Mempool_add tx pool)" and "txHash tx \<in> set hs"
  shows "Mempool_get (txHash tx) (removeConfirmed hs (snd (Mempool_add tx pool))) = None"
    and "fst (Mempool_add tx (removeConfirmed hs (snd (Mempool_add tx pool))))"
proof -
  have acc: "length pool < MAX_SIZE" "Transaction_isValid tx" "um_ok pool"
    using assms(1,2) by (simp_all add: Mempool_add_accepts pool_ok_def)
  have pool1: "snd (Mempool_add tx pool) = um_put (txHash tx) tx pool"
    using assms(2) by (auto simp: Mempool_add_def split: if_splits)
  show get: "Mempool_get (txHash tx) (removeConfirmed hs (snd (Mempool_add tx pool))) = None"
    using removeConfirmed_get [OF pool_ok_add [OF assms(1)]] assms(3) by simp
  have "length (removeConfirmed hs (snd (Mempool_add tx pool))) < MAX_SIZE"
    using length_confirmed [OF acc(3) assms(3), of tx] acc(1) by (simp add: pool1)
  with get acc(2) show "fst (Mempool_add tx (removeConfirmed hs (snd (Mempool_add tx pool))))"
    by (simp add: Mempool_add_accepts Mempool_get_def)
qed

section \<open>The unspent outputs after the block\<close>

lemma settled_inputs:
  assumes "UTXOSet_ok s" and "no_inner_spend txs" and "tx \<in> set txs" and "p \<in> set (input_points tx)"
    and "fst p \<notin> txHash ` set txs"
  shows "unspent (fold apply_tx txs s) p = None"
proof -
  have "p \<notin> fst ` set (all_outputs txs)"
    using assms(5) output_points_txHash by (force simp: all_outputs_def)
  then have "map_of (rev (all_outputs txs)) p = None" by (simp add: map_of_eq_None_iff)
  moreover have "p \<in> set (all_inputs txs)" using assms(3,4) by (auto simp: all_inputs_def)
  ultimately show ?thesis by (simp add: unspent_txs [OF assms(1,2)] map_add_def restrict_map_def)
qed

lemma settled_outputs:
  assumes "UTXOSet_ok s" and "no_inner_spend txs" and "tx \<in> set txs" and "distinct (map txHash txs)"
    and "length (outputs tx) \<le> 2 ^ 32" and "k < length (outputs tx)"
  shows "unspent (fold apply_tx txs s) (txHash tx, of_nat k) = Some (output_utxo (txHash tx) (k, outputs tx ! k))"
  unfolding unspent_txs [OF assms(1,2)] map_add_def
  using block_outputs_at [OF assms(3,4), of "of_nat k"] output_point_at [OF assms(5,6)] by simp

section \<open>Properties\<close>

text \<open>C12: A payment settles, and can be replayed. A transaction the pool takes and picks for a block with
  distinct identifiers, in which nothing spends what the block creates, is confirmed when the block
  is added: its inputs are no longer available, each of its outputs is, with the amount and the
  address it names, and the pool has dropped it. But the pool takes the same transaction again at
  once, and a block that holds it again makes all its outputs available again, on any chain and
  whether they were spent in between or not: nothing records which transactions a chain has seen.\<close>

theorem payment_settles:
  assumes "chain_inv bc" and "pool_ok pool" and "fst (Mempool_add tx pool)"
    and "block = cb # getTopTxs sort_by n (snd (Mempool_add tx pool))" and "tx \<in> set block"
    and "distinct (map txHash block)" and "no_inner_spend block"
    and "txHash ` set block \<inter> prevTxHash ` set (inputs tx) = {}" and "length (outputs tx) \<le> 2 ^ 32"
    and "addBlock now_adj now block bc = Some bc'"
    and "pool' = removeConfirmed (map txHash block) (snd (Mempool_add tx pool))"
  shows "(\<forall>inp \<in> set (inputs tx). \<not> isUnspent (prevTxHash inp) (outputIndex inp) (utxoSet bc'))
       \<and> (\<forall>k < length (outputs tx). unspent (utxoSet bc') (txHash tx, of_nat k) =
            Some \<lparr>utxo_txHash = txHash tx, utxo_outputIndex = of_nat k, utxo_address = out_address (outputs tx ! k),
                  utxo_amount = amount (outputs tx ! k), utxo_spent = False\<rparr>)
       \<and> Mempool_get (txHash tx) pool' = None \<and> fst (Mempool_add tx pool')
       \<and> (chain_inv bc1 \<and> addBlock now_adj' now' [tx] bc1 = Some bc2 \<longrightarrow>
            (\<forall>k < length (outputs tx). isUnspent (txHash tx) (of_nat k) (utxoSet bc2)))"
proof (intro conjI ballI allI impI)
  have s: "UTXOSet_ok (utxoSet bc)" using assms(1) by (simp add: chain_inv_def)
  fix inp assume inp: "inp \<in> set (inputs tx)"
  then have "(prevTxHash inp, outputIndex inp) \<in> set (input_points tx)" by (auto simp: input_points_def)
  with settled_inputs [OF s assms(7,5) this] inp assms(8)
  show "\<not> isUnspent (prevTxHash inp) (outputIndex inp) (utxoSet bc')"
    by (auto simp: isUnspent_iff addBlock_utxoSet [OF assms(10)])
next
  fix k assume k: "k < length (outputs tx)"
  have s: "UTXOSet_ok (utxoSet bc)" using assms(1) by (simp add: chain_inv_def)
  from settled_outputs [OF s assms(7,5,6,9) k]
  show "unspent (utxoSet bc') (txHash tx, of_nat k) =
      Some \<lparr>utxo_txHash = txHash tx, utxo_outputIndex = of_nat k, utxo_address = out_address (outputs tx ! k),
            utxo_amount = amount (outputs tx ! k), utxo_spent = False\<rparr>"
    by (simp add: addBlock_utxoSet [OF assms(10)] output_utxo_def)
next
  have "txHash tx \<in> set (map txHash block)" using assms(5) by simp
  from confirmed_accepted_again [OF assms(2,3) this]
  show "Mempool_get (txHash tx) pool' = None" and "fst (Mempool_add tx pool')" by (simp_all add: assms(11))
next
  fix k assume again: "chain_inv bc1 \<and> addBlock now_adj' now' [tx] bc1 = Some bc2" and k: "k < length (outputs tx)"
  then have "UTXOSet_ok (utxoSet bc1)" and "utxoSet bc2 = fold apply_tx [tx] (utxoSet bc1)"
    using addBlock_utxoSet [of now_adj' now' "[tx]" bc1 bc2] by (simp_all add: chain_inv_def)
  with settled_outputs [of "utxoSet bc1" "[tx]" tx k] assms(9) k
  show "isUnspent (txHash tx) (of_nat k) (utxoSet bc2)" by (simp add: isUnspent_iff)
qed

text \<open>A payment of 7 from an output of another chain; that it does not exist is not noticed.\<close>

definition demo_payment :: Transaction where
  "demo_payment = \<lparr>txHash = ''payment'',
     inputs = [\<lparr>prevTxHash = ''x'', outputIndex = 0, scriptSig = [], signature = no_signature\<rparr>],
     outputs = [\<lparr>amount = 7, out_address = ''bob'', scriptPubKey = []\<rparr>], timestamp = 0, isCoinbase = False\<rparr>"

theorem payment_settles_witness:
  "\<exists>bc'. addBlock 20 30 (createCoinbase 10 ''alice'' 50 1 # getTopTxs insertion_sort 10 (snd (Mempool_add demo_payment um_empty)))
       demo_start = Some bc'
     \<and> unspent (utxoSet bc') (''payment'', 0) = Some \<lparr>utxo_txHash = ''payment'', utxo_outputIndex = 0,
         utxo_address = ''bob'', utxo_amount = 7, utxo_spent = False\<rparr>"
proof -
  let ?cb = "createCoinbase 10 ''alice'' 50 1" and ?pool = "snd (Mempool_add demo_payment um_empty)"
  have acc: "fst (Mempool_add demo_payment um_empty)"
    by (simp add: Mempool_add_accepts demo_payment_def Transaction_isValid_def MAX_SIZE_def um_empty_def)
  then have "?pool = [(''payment'', demo_payment)]"
    by (auto simp: Mempool_add_def um_empty_def demo_payment_def split: if_splits)
  then have picked: "getTopTxs insertion_sort 10 ?pool = [demo_payment]"
    using getTopTxs_best(1,3) [OF insertion_sort_std pool_ok_add [OF pool_ok_empty], of 10 demo_payment]
    by (cases "getTopTxs insertion_sort 10 ?pool") auto
  let ?block = "?cb # getTopTxs insertion_sort 10 ?pool"
  obtain bc' where add: "addBlock 20 30 ?block demo_start = Some bc'"
    using addBlock_0 [OF demo_start_height demo_difficulty] by blast
  have "length (txHash ?cb) = 64" by simp
  then have ids: "txHash ?cb \<noteq> ''payment''" "txHash ?cb \<noteq> ''x''" by (auto simp del: createCoinbase_txHash)
  have block: "?block = [?cb, demo_payment]" by (simp only: picked)
  have hashes: "map txHash ?block = [txHash ?cb, ''payment'']"
    unfolding block by (simp add: demo_payment_def del: createCoinbase_txHash)
  have d: "distinct (map txHash ?block)" unfolding hashes using ids(1) by simp
  have "((''x'', 0), u) \<notin> set (output_points ?cb)" for u
  proof
    assume "((''x'', 0), u) \<in> set (output_points ?cb)"
    from output_points_txHash [OF this] have "''x'' = txHash ?cb" by (simp only: fst_conv)
    from notE [OF ids(2) sym [OF this]] show False .
  qed
  then have inner: "no_inner_spend ?block"
    unfolding block using ids(2) by (auto simp: input_points_def demo_payment_def simp del: createCoinbase_txHash)
  have "txHash ` set ?block = {txHash ?cb, ''payment''}"
    using arg_cong [OF hashes, of set] by (simp only: set_map list.set)
  then have ext: "txHash ` set ?block \<inter> prevTxHash ` set (inputs demo_payment) = {}"
    using ids(2) by (simp add: demo_payment_def del: createCoinbase_txHash)
  have mem: "demo_payment \<in> set ?block" unfolding block by simp
  have short: "length (outputs demo_payment) \<le> 2 ^ 32" by (simp add: demo_payment_def)
  have "\<forall>k < length (outputs demo_payment). unspent (utxoSet bc') (txHash demo_payment, of_nat k) =
      Some \<lparr>utxo_txHash = txHash demo_payment, utxo_outputIndex = of_nat k,
            utxo_address = out_address (outputs demo_payment ! k), utxo_amount = amount (outputs demo_payment ! k), utxo_spent = False\<rparr>"
    using payment_settles [OF demo_start_inv pool_ok_empty acc refl mem d inner ext short add refl] by blast
  then have "unspent (utxoSet bc') (''payment'', 0) = Some \<lparr>utxo_txHash = ''payment'', utxo_outputIndex = 0,
         utxo_address = ''bob'', utxo_amount = 7, utxo_spent = False\<rparr>"
    by (simp add: demo_payment_def)
  with add show ?thesis by blast
qed

end
