(* ===== verification/Api.thy ===== *)
theory Api
  imports Cxx_Strings Unordered_Map
begin

text \<open>
  \<open>src/src/api/rpc.{h,cpp}\<close>, \<open>rest.{h,cpp}\<close>, \<open>websocket.{h,cpp}\<close>: the JSON-RPC request parser and
  dispatch, the REST routes and the subscriptions. The positions the parser computes are \<open>size_t\<close>
  and wrap around when \<open>find\<close> returns \<open>npos\<close>. Handlers are functions of the request; a callback of
  a subscription acts on a world of any type. No socket is opened by this code. Console output is
  left out.
\<close>

section \<open>JSON-RPC\<close>

record RpcRequest =
  rq_method :: string
  rq_params :: string
  rq_id :: int

record RpcResponse =
  rs_result :: string
  rs_error :: string
  rs_id :: int
  rs_success :: bool

type_synonym rpc_handler = "RpcRequest \<Rightarrow> RpcResponse"

record RpcServer =
  rpc_port :: u16
  rpc_running :: bool
  methods :: "(string, rpc_handler) umap"

definition RpcServer_new :: "u16 \<Rightarrow> RpcServer" where
  "RpcServer_new p = \<lparr>rpc_port = p, rpc_running = False, methods = um_empty\<rparr>"

definition registerMethod :: "string \<Rightarrow> rpc_handler \<Rightarrow> RpcServer \<Rightarrow> RpcServer" where
  "registerMethod method handler s = s\<lparr>methods := um_put method handler (methods s)\<rparr>"

definition parse_method :: "string \<Rightarrow> string result" where
  "parse_method raw =
     (let mPos = str_find raw ''\"method\"''
      in if mPos = npos then Inr []
         else let start = sz_add (str_find_from raw ''\"'' (sz_add mPos 9)) 1;
                  stop = str_find_from raw ''\"'' start
              in str_substr raw start (sz_sub stop start))"

definition parse_params :: "string \<Rightarrow> string result" where
  "parse_params raw =
     (let pPos = str_find raw ''\"params\"''
      in if pPos = npos then Inr []
         else let start = str_find_from raw ''['' pPos;
                  stop = sz_add (str_find_from raw '']'' start) 1
              in str_substr raw start (sz_sub stop start))"

definition parseRequest :: "string \<Rightarrow> RpcRequest result" where
  "parseRequest raw =
     bind_result (parse_method raw) (\<lambda>m.
     bind_result (parse_params raw) (\<lambda>p. Inr \<lparr>rq_method = m, rq_params = p, rq_id = 1\<rparr>))"

definition formatResponse :: "RpcResponse \<Rightarrow> string" where
  "formatResponse resp =
     ''{\"id\":'' @ int_str (rs_id resp) @
     (if rs_success resp then '',\"result\":'' @ rs_result resp @ '',\"error\":null}''
      else '',\"result\":null,\"error\":\"'' @ rs_error resp @ ''\"}'')"

definition rpc_handle :: "string \<Rightarrow> RpcServer \<Rightarrow> RpcResponse result" where
  "rpc_handle rawRequest s =
     bind_result (parseRequest rawRequest) (\<lambda>req.
       case um_find (methods s) (rq_method req) of
         None \<Rightarrow> Inr \<lparr>rs_result = [], rs_error = ''Method not found: '' @ rq_method req, rs_id = rq_id req,
                     rs_success = False\<rparr>
       | Some h \<Rightarrow> Inr (h req))"

definition constant_reply :: "string \<Rightarrow> rpc_handler" where
  "constant_reply text r = \<lparr>rs_result = text, rs_error = [], rs_id = rq_id r, rs_success = True\<rparr>"

definition registerDefaultMethods :: "RpcServer \<Rightarrow> RpcServer" where
  "registerDefaultMethods s =
     registerMethod ''getmininginfo'' (constant_reply ''{\"difficulty\":4,\"reward\":50}'')
     (registerMethod ''sendtoaddress'' (constant_reply ''\"txhash_placeholder\"'')
     (registerMethod ''getbalance'' (constant_reply ''0.0'')
     (registerMethod ''getnetworkinfo''
        (constant_reply ''{\"name\":\"Rex Network\",\"version\":\"0.1.0\",\"coin\":\"RXC\"}'')
     (registerMethod ''getblockcount'' (constant_reply ''0'') s))))"

definition RpcServer_start :: "RpcServer \<Rightarrow> bool \<times> RpcServer" where
  "RpcServer_start s = (True, registerDefaultMethods (s\<lparr>rpc_running := True\<rparr>))"

definition RpcServer_stop :: "RpcServer \<Rightarrow> RpcServer" where
  "RpcServer_stop s = s\<lparr>rpc_running := False\<rparr>"

section \<open>REST\<close>

record HttpRequest =
  http_method :: string
  http_path :: string
  http_body :: string

record HttpResponse =
  http_code :: int
  http_text :: string

type_synonym rest_handler = "HttpRequest \<Rightarrow> HttpResponse"

record RestServer =
  rest_port :: u16
  rest_running :: bool
  routes :: "(string, rest_handler) umap"

definition RestServer_new :: "u16 \<Rightarrow> RestServer" where
  "RestServer_new p = \<lparr>rest_port = p, rest_running = False, routes = um_empty\<rparr>"

definition registerRoute :: "string \<Rightarrow> string \<Rightarrow> rest_handler \<Rightarrow> RestServer \<Rightarrow> RestServer" where
  "registerRoute m p h s = s\<lparr>routes := um_put (m @ '' '' @ p) h (routes s)\<rparr>"

definition rest_handle :: "HttpRequest \<Rightarrow> RestServer \<Rightarrow> HttpResponse" where
  "rest_handle req s =
     (case um_find (routes s) (http_method req @ '' '' @ http_path req) of
        None \<Rightarrow> \<lparr>http_code = 404, http_text = ''{\"error\":\"Not found\"}''\<rparr>
      | Some h \<Rightarrow> h req)"

definition ok_text :: "string \<Rightarrow> rest_handler" where
  "ok_text t r = \<lparr>http_code = 200, http_text = t\<rparr>"

definition registerDefaultRoutes :: "RestServer \<Rightarrow> RestServer" where
  "registerDefaultRoutes s =
     registerRoute ''GET'' ''/tx/{hash}'' (ok_text ''{\"tx\":{}}'')
     (registerRoute ''GET'' ''/stats'' (ok_text ''{\"coin\":\"RXC\",\"supply\":21000000}'')
     (registerRoute ''GET'' ''/mempool'' (ok_text ''{\"count\":0,\"txs\":[]}'')
     (registerRoute ''GET'' ''/blocks'' (ok_text ''{\"blocks\":[]}'') s)))"

definition RestServer_start :: "RestServer \<Rightarrow> bool \<times> RestServer" where
  "RestServer_start s = (True, registerDefaultRoutes (s\<lparr>rest_running := True\<rparr>))"

definition RestServer_stop :: "RestServer \<Rightarrow> RestServer" where
  "RestServer_stop s = s\<lparr>rest_running := False\<rparr>"

section \<open>Subscriptions\<close>

datatype WsEvent = NEW_BLOCK | NEW_TX | MEMPOOL_UPDATE | PRICE_UPDATE

record 'w WebSocketServer =
  ws_port :: u16
  ws_running :: bool
  ws_clientCount :: nat
  subscribers :: "(WsEvent \<times> (string \<Rightarrow> 'w \<Rightarrow> 'w)) list"

definition WebSocketServer_new :: "u16 \<Rightarrow> 'w WebSocketServer" where
  "WebSocketServer_new p = \<lparr>ws_port = p, ws_running = False, ws_clientCount = 0, subscribers = []\<rparr>"

definition clientCount :: "'w WebSocketServer \<Rightarrow> nat" where
  "clientCount s = ws_clientCount s"

definition ws_start :: "'w WebSocketServer \<Rightarrow> bool \<times> 'w WebSocketServer" where
  "ws_start s = (True, s\<lparr>ws_running := True\<rparr>)"

definition ws_stop :: "'w WebSocketServer \<Rightarrow> 'w WebSocketServer" where
  "ws_stop s = s\<lparr>ws_running := False\<rparr>"

definition subscribe :: "WsEvent \<Rightarrow> (string \<Rightarrow> 'w \<Rightarrow> 'w) \<Rightarrow> 'w WebSocketServer \<Rightarrow> 'w WebSocketServer" where
  "subscribe event cb s = s\<lparr>subscribers := subscribers s @ [(event, cb)]\<rparr>"

definition ws_broadcast :: "WsEvent \<Rightarrow> string \<Rightarrow> 'w WebSocketServer \<Rightarrow> 'w \<Rightarrow> 'w" where
  "ws_broadcast event data s w = fold (\<lambda>(e, cb) w. if e = event then cb data w else w) (subscribers s) w"

section \<open>Parsing\<close>

text \<open>A request as a client writes it: the method, the parameters, and anything after them.\<close>

definition request_text :: "string \<Rightarrow> string \<Rightarrow> string \<Rightarrow> string" where
  "request_text m args rest = ''{\"method\":\"'' @ m @ ''\",\"params\":['' @ args @ '']'' @ rest"

lemma parse_method_text:
  assumes "CHR 0x22 \<notin> set m" and "length m + length args < 2 ^ 32"
  shows "parse_method (request_text m args rest) = Inr m"
proof -
  have f: "find_idx ''\"'' (m @ ''\",\"params\":['' @ args @ '']'' @ rest) = Some (length m)"
    using find_idx_char [OF assms(1), of "'',\"params\":['' @ args @ '']'' @ rest"] by simp
  have 1: "str_find (request_text m args rest) ''\"method\"'' = 1"
    by (simp add: str_find_def str_find_from_def request_text_def starts_with_def)
  have 2: "str_find_from (request_text m args rest) ''\"'' 10 = 10"
    by (simp add: str_find_from_def request_text_def starts_with_def)
  have 3: "str_find_from (request_text m args rest) ''\"'' 11 = 11 + length m"
    using f by (simp add: str_find_from_def request_text_def)
  show ?thesis
    using assms(2) by (simp add: parse_method_def 1 2 3 sz_add_small sz_sub_small npos_def str_substr_def)
      (simp add: request_text_def)
qed

lemma quoted_prefix:
  "q \<notin> set k \<Longrightarrow> q \<notin> set m \<Longrightarrow> starts_with (k @ [q]) (m @ q # s) \<longleftrightarrow> m = k"
proof (induction k arbitrary: m)
  case Nil
  then show ?case by (cases m) (auto simp: starts_with_def)
next
  case (Cons a k)
  then show ?case by (cases m) (auto simp: starts_with_def)
qed

lemma find_params_text:
  assumes "CHR 0x22 \<notin> set m" and "m \<noteq> ''params''"
  shows "find_idx ''\"params\"'' (request_text m args rest) = Some (13 + length m)"
proof -
  have quoted: "\<not> starts_with ''\"params\"'' (CHR 0x22 # m @ CHR 0x22 # rest)" for rest
    using quoted_prefix [of "CHR 0x22" "''params''" m rest] assms by (simp add: starts_with_def)
  have skip: "find_idx ''\"params\"'' (m @ ''\",\"params\":['' @ args @ '']'' @ rest)
      = map_option ((+) (length m)) (find_idx ''\"params\"'' (''\",\"params\":['' @ args @ '']'' @ rest))"
    by (rule find_idx_skip [OF assms(1)])
  show ?thesis
    using quoted skip by (simp add: request_text_def starts_with_def)
qed

lemma parse_params_text:
  assumes "CHR 0x22 \<notin> set m" and "m \<noteq> ''params''" and "CHR '']'' \<notin> set args"
    and "length m + length args < 2 ^ 32"
  shows "parse_params (request_text m args rest) = Inr (''['' @ args @ '']'')"
proof -
  let ?t = "request_text m args rest"
  have 1: "str_find ?t ''\"params\"'' = 13 + length m"
    using find_params_text [OF assms(1,2), of args rest] by (simp add: str_find_def str_find_from_def)
  have drop_at: "drop n (us @ vs) = vs" if "length us = n" for us vs :: string and n
    using that by auto
  have d1: "drop (13 + length m) ?t = ''\"params\":['' @ args @ '']'' @ rest"
    using drop_at [of "''{\"method\":\"'' @ m @ ''\",''" "13 + length m" "''\"params\":['' @ args @ '']'' @ rest"]
    unfolding request_text_def by simp
  have d2: "drop (22 + length m) ?t = ''['' @ args @ '']'' @ rest"
    using drop_at [of "''{\"method\":\"'' @ m @ ''\",\"params\":''" "22 + length m" "''['' @ args @ '']'' @ rest"]
    unfolding request_text_def by simp
  have len: "length ?t = 24 + length m + length args + length rest" by (simp add: request_text_def)
  have 2: "str_find_from ?t ''['' (13 + length m) = 22 + length m"
    using len unfolding str_find_from_def d1 by (simp add: starts_with_def)
  have 3: "str_find_from ?t '']'' (22 + length m) = 23 + length m + length args"
    using len find_idx_char [OF assms(3), of rest] unfolding str_find_from_def d2
    by (simp add: starts_with_def)
  have 4: "str_substr ?t (22 + length m) (2 + length args) = Inr (''['' @ args @ '']'')"
    using len unfolding str_substr_def d2 by simp
  show ?thesis
    unfolding parse_params_def Let_def 1 2 3 using assms(4) 4
    by (simp add: sz_add_small sz_sub_small npos_def)
qed

lemma parse_params_unbracketed:
  assumes "str_find raw ''\"params\"'' \<noteq> npos" and "CHR ''['' \<notin> set raw" and "length raw < npos"
  shows "parse_params raw = Inl Out_of_range"
proof -
  have "str_find_from raw ''['' pos = npos" for pos
  proof -
    have "CHR ''['' \<notin> set (drop pos raw)" using assms(2) in_set_dropD by fastforce
    from find_idx_char_None [OF this] show ?thesis by (simp add: str_find_from_def)
  qed
  with assms(1,3) show ?thesis by (simp add: parse_params_def str_substr_def)
qed

section \<open>Dispatch\<close>

definition method_not_found :: "RpcRequest \<Rightarrow> RpcResponse" where
  "method_not_found r =
     \<lparr>rs_result = [], rs_error = ''Method not found: '' @ rq_method r, rs_id = rq_id r, rs_success = False\<rparr>"

definition dispatch :: "RpcServer \<Rightarrow> rpc_handler" where
  "dispatch s r = (case um_find (methods s) (rq_method r) of None \<Rightarrow> method_not_found r | Some h \<Rightarrow> h r)"

lemma rpc_handle_dispatch: "rpc_handle raw s = bind_result (parseRequest raw) (\<lambda>r. Inr (dispatch s r))"
  by (cases "parseRequest raw")
    (auto simp: rpc_handle_def dispatch_def method_not_found_def split: option.split)

lemma registerMethod_find:
  "um_find (methods (registerMethod m h s)) n = (if n = m then Some h else um_find (methods s) n)"
  by (simp add: registerMethod_def)

definition builtin :: "string \<Rightarrow> string option" where
  "builtin m =
     map_of [(''getblockcount'', ''0''),
             (''getnetworkinfo'', ''{\"name\":\"Rex Network\",\"version\":\"0.1.0\",\"coin\":\"RXC\"}''),
             (''getbalance'', ''0.0''), (''sendtoaddress'', ''\"txhash_placeholder\"''),
             (''getmininginfo'', ''{\"difficulty\":4,\"reward\":50}'')] m"

lemma RpcServer_start_find:
  "um_find (methods (snd (RpcServer_start s))) m =
     (case builtin m of Some t \<Rightarrow> Some (constant_reply t) | None \<Rightarrow> um_find (methods s) m)"
  by (simp add: RpcServer_start_def registerDefaultMethods_def registerMethod_find builtin_def)

lemma registerRoute_find:
  "um_find (routes (registerRoute m p h s)) k = (if k = m @ '' '' @ p then Some h else um_find (routes s) k)"
  by (simp add: registerRoute_def)

text \<open>The braces of the route \<open>/tx/{hash}\<close> are compared literally: a transaction hash is not found.\<close>

lemma tx_route_literal:
  assumes "CHR ''{'' \<notin> set hash"
  shows "rest_handle \<lparr>http_method = ''GET'', http_path = ''/tx/'' @ hash, http_body = body\<rparr>
           (snd (RestServer_start (RestServer_new p))) =
         \<lparr>http_code = 404, http_text = ''{\"error\":\"Not found\"}''\<rparr>"
  using assms
  by (cases hash) (auto simp: rest_handle_def RestServer_start_def registerDefaultRoutes_def
      registerRoute_find RestServer_new_def)

lemma ws_broadcast_subscribe:
  "ws_broadcast event data (subscribe e cb s) w =
     (let w' = ws_broadcast event data s w in if e = event then cb data w' else w')"
  by (simp add: ws_broadcast_def subscribe_def)

lemma ws_broadcast_other:
  assumes "event \<notin> fst ` set (subscribers s)"
  shows "ws_broadcast event data s w = w"
proof -
  have "event \<notin> fst ` set xs \<Longrightarrow> fold (\<lambda>(e, cb) w. if e = event then cb data w else w) xs w = w" for xs
    by (induction xs arbitrary: w) auto
  with assms show ?thesis by (simp add: ws_broadcast_def)
qed

lemma parse_method_error: "parse_method raw = Inl e \<Longrightarrow> e = Out_of_range"
  by (simp add: parse_method_def str_substr_def Let_def split: if_splits)

lemma rpc_handle_unbracketed:
  assumes "str_find raw ''\"params\"'' \<noteq> npos" and "CHR ''['' \<notin> set raw" and "length raw < npos"
  shows "rpc_handle raw s = Inl Out_of_range"
  using parse_params_unbracketed [OF assms] parse_method_error [of raw]
  by (cases "parse_method raw") (auto simp: rpc_handle_def parseRequest_def)

lemma parseRequest_text:
  assumes "CHR 0x22 \<notin> set m" and "m \<noteq> ''params''" and "CHR '']'' \<notin> set args"
    and "length m + length args < 2 ^ 32"
  shows "parseRequest (request_text m args rest) =
    Inr \<lparr>rq_method = m, rq_params = ''['' @ args @ '']'', rq_id = 1\<rparr>"
  unfolding parseRequest_def parse_method_text [OF assms(1,4)] parse_params_text [OF assms] by simp

lemma rpc_handle_text:
  assumes "CHR 0x22 \<notin> set m" and "m \<noteq> ''params''" and "CHR '']'' \<notin> set args"
    and "length m + length args < 2 ^ 32"
  shows "rpc_handle (request_text m args rest) (snd (RpcServer_start s)) =
     Inr (case builtin m of
            Some t \<Rightarrow> \<lparr>rs_result = t, rs_error = [], rs_id = 1, rs_success = True\<rparr>
          | None \<Rightarrow> dispatch s \<lparr>rq_method = m, rq_params = ''['' @ args @ '']'', rq_id = 1\<rparr>)"
  unfolding rpc_handle_dispatch parseRequest_text [OF assms]
  by (simp add: dispatch_def RpcServer_start_find constant_reply_def split: option.split)

section \<open>Properties\<close>



end
