(* ===== verification/Privacy.thy ===== *)
theory Privacy
  imports ECDSA
begin

text \<open>
  \<open>src/src/privacy/zkproof.{h,cpp}\<close>, \<open>stealth.{h,cpp}\<close> and \<open>mixer.{h,cpp}\<close>: the hash-based stand-in
  for zero-knowledge proofs, the one-time addresses and the mixing rounds. The values drawn from
  \<open>std::random_device\<close> are arguments; OpenSSL is the record of theory ECDSA. The console lines are
  left out.
\<close>

section \<open>Shielded transactions\<close>

record ZKProof =
  pi_a :: string
  pi_b :: string
  pi_c :: string
  publicInput :: string

record ShieldedTx =
  sh_nullifier :: string
  sh_commitment :: string
  sh_proof :: ZKProof
  sh_fee :: u64

text \<open>\<open>draw i\<close> is the \<open>i\<close>-th value of the distribution over \<open>0 .. 255\<close>; it is printed without padding.\<close>

definition randomBytes :: "(nat \<Rightarrow> nat) \<Rightarrow> nat \<Rightarrow> string" where
  "randomBytes draw n = concat (map (\<lambda>i. num_str 16 (draw i)) [0..<n])"

definition ZK_generateProof :: "string \<Rightarrow> string \<Rightarrow> ZKProof" where
  "ZK_generateProof secret pub =
     (let a = SHA256_hash (secret @ pub @ ''A'');
          b = SHA256_hash (secret @ pub @ ''B'')
      in \<lparr>pi_a = a, pi_b = b, pi_c = SHA256_hash (a @ b), publicInput = pub\<rparr>)"

definition ZK_verify :: "ZKProof \<Rightarrow> bool" where
  "ZK_verify p \<longleftrightarrow> SHA256_hash (pi_a p @ pi_b p) = pi_c p"

definition generateNullifier :: "string \<Rightarrow> string \<Rightarrow> string" where
  "generateNullifier secret txHash = SHA256_hash (SHA256_hash (secret @ txHash))"

definition generateCommitment :: "u64 \<Rightarrow> string \<Rightarrow> string" where
  "generateCommitment amount randomness = SHA256_hash (nat_str (unat amount) @ randomness)"

definition createShieldedTx :: "(nat \<Rightarrow> nat) \<Rightarrow> string \<Rightarrow> string \<Rightarrow> u64 \<Rightarrow> u64 \<Rightarrow> ShieldedTx" where
  "createShieldedTx draw senderPrivKey recipientAddr amount fee =
     (let rand = randomBytes draw 16;
          commitment = generateCommitment amount rand
      in \<lparr>sh_nullifier = generateNullifier senderPrivKey commitment, sh_commitment = commitment,
          sh_proof = ZK_generateProof senderPrivKey (commitment @ recipientAddr), sh_fee = fee\<rparr>)"

definition verifyShieldedTx :: "ShieldedTx \<Rightarrow> bool" where
  "verifyShieldedTx tx = ZK_verify (sh_proof tx)"

section \<open>One-time addresses\<close>

record StealthAddress =
  spendPubKey :: string
  viewPubKey :: string

record OneTimeAddress =
  ota_address :: string
  txPubKey :: string

definition generateStealthAddress :: "('e, 'z) openssl_scheme \<Rightarrow> string \<Rightarrow> string \<Rightarrow> StealthAddress result" where
  "generateStealthAddress ssl spendPrivKey viewPrivKey =
     bind_result (ECDSA_derivePublicKey ssl spendPrivKey) (\<lambda>s.
     bind_result (ECDSA_derivePublicKey ssl viewPrivKey) (\<lambda>v.
       Inr \<lparr>spendPubKey = s, viewPubKey = v\<rparr>))"

definition createOneTimeAddress :: "('e, 'z) openssl_scheme \<Rightarrow> 'e \<Rightarrow> StealthAddress \<Rightarrow> OneTimeAddress" where
  "createOneTimeAddress ssl e recipient =
     (let ephemeral = ECDSA_generateKeyPair ssl e;
          shared = SHA256_hash (privateKey ephemeral @ viewPubKey recipient);
          oneTime = SHA256_hash (shared @ spendPubKey recipient)
      in \<lparr>ota_address = ''RXC'' @ take 33 oneTime, txPubKey = publicKey ephemeral\<rparr>)"

definition scanTransaction :: "('e, 'z) openssl_scheme \<Rightarrow> string \<Rightarrow> string \<Rightarrow> string \<Rightarrow> bool result" where
  "scanTransaction ssl viewPrivKey txPub outputAddress =
     (let shared = SHA256_hash (viewPrivKey @ txPub)
      in bind_result (ECDSA_derivePublicKey ssl viewPrivKey) (\<lambda>spendPub.
           let expected = ''RXC'' @ take 33 (SHA256_hash (shared @ spendPub))
           in Inr (expected = outputAddress)))"

definition deriveSpendKey :: "string \<Rightarrow> string \<Rightarrow> string \<Rightarrow> string" where
  "deriveSpendKey spendPrivKey viewPrivKey txPub =
     (let shared = SHA256_hash (viewPrivKey @ txPub)
      in SHA256_hash (spendPrivKey @ shared))"

section \<open>Mixing rounds\<close>

record MixRequest =
  inputAddress :: string
  outputAddress :: string
  mix_amount :: u64
  mix_secret :: string

record MixRound =
  participants :: "MixRequest list"
  roundId :: string
  completed :: bool

record TxMixer =
  currentRound :: MixRound
  completedRounds :: "MixRound list"

text \<open>The flag of the first round has no initialiser: \<open>c\<close> is what it holds.\<close>

definition TxMixer_new :: "bool \<Rightarrow> TxMixer" where
  "TxMixer_new c = \<lparr>currentRound = \<lparr>participants = [], roundId = [], completed = c\<rparr>, completedRounds = []\<rparr>"

definition MIN_PARTICIPANTS :: nat where
  "MIN_PARTICIPANTS = 3"

definition generateRoundId :: "TxMixer \<Rightarrow> string" where
  "generateRoundId m = take 16 (SHA256_hash (''MixRound_'' @ nat_str (length (completedRounds m))))"

definition joinMix :: "MixRequest \<Rightarrow> TxMixer \<Rightarrow> bool \<times> TxMixer" where
  "joinMix request m =
     (let r = currentRound m;
          r = (if roundId r = [] then r\<lparr>roundId := generateRoundId m\<rparr> else r)
      in (True, m\<lparr>currentRound := r\<lparr>participants := participants r @ [request]\<rparr>\<rparr>))"

text \<open>
  \<open>for (i = outputs.size() - 1; i > 0; i--)\<close> swaps position \<open>i\<close> with the code of the first digit of
  the hash of the address there, modulo \<open>i + 1\<close>. The digits are ASCII, so \<open>char\<close> is not negative.
\<close>

definition shuffle_step :: "nat \<Rightarrow> string list \<Rightarrow> string list" where
  "shuffle_step i outputs =
     (let j = of_char (hd (SHA256_hash (outputs ! i))) mod (i + 1)
      in outputs[i := outputs ! j, j := outputs ! i])"

definition mix_shuffle :: "string list \<Rightarrow> string list" where
  "mix_shuffle outputs = fold shuffle_step (rev [1..<length outputs]) outputs"

text \<open>The shuffled addresses are a local vector of \<open>executeMix\<close> (second component here).\<close>

definition executeMix_outputs :: "string \<Rightarrow> TxMixer \<Rightarrow> (bool \<times> TxMixer) \<times> string list" where
  "executeMix_outputs rid m =
     (let r = currentRound m
      in if roundId r \<noteq> rid then ((False, m), [])
         else if length (participants r) < MIN_PARTICIPANTS then ((False, m), [])
         else let outputs = mix_shuffle (map outputAddress (participants r))
              in ((True, \<lparr>currentRound = \<lparr>participants = [], roundId = [], completed = False\<rparr>,
                    completedRounds = completedRounds m @ [r\<lparr>completed := True\<rparr>]\<rparr>), outputs))"

definition executeMix :: "string \<Rightarrow> TxMixer \<Rightarrow> bool \<times> TxMixer" where
  "executeMix rid m = fst (executeMix_outputs rid m)"

definition getCurrentRound :: "TxMixer \<Rightarrow> MixRound" where
  "getCurrentRound m = currentRound m"

definition isReady :: "TxMixer \<Rightarrow> bool" where
  "isReady m \<longleftrightarrow> MIN_PARTICIPANTS \<le> length (participants (currentRound m))"

section \<open>Shielded amounts\<close>

lemma ZK_complete: "verifyShieldedTx (createShieldedTx draw k r a f)"
  by (simp add: verifyShieldedTx_def ZK_verify_def createShieldedTx_def ZK_generateProof_def Let_def)

text \<open>Knowing a secret is not needed: any two first components have an accepted third one.\<close>

lemma ZK_forgery: "ZK_verify \<lparr>pi_a = a, pi_b = b, pi_c = SHA256_hash (a @ b), publicInput = pub\<rparr>"
  by (simp add: ZK_verify_def)

lemma num_str_small: "n < b \<Longrightarrow> num_str b n = [digit_char n]"
  by (simp add: num_str.simps)

lemma num_str_snoc:
  assumes "2 \<le> b" and "0 < a" and "d < b"
  shows "num_str b (b * a + d) = num_str b a @ [digit_char d]"
proof -
  have "b \<le> b * a" using assms(2) by simp
  then have "\<not> (b < 2 \<or> b * a + d < b)" using assms(1) by linarith
  moreover have "(b * a + d) div b = a" "(b * a + d) mod b = d" using assms by simp_all
  ultimately show ?thesis using num_str.simps [of b "b * a + d"] by simp
qed

lemma randomBytes_Suc: "randomBytes draw (Suc n) = num_str 16 (draw 0) @ randomBytes (\<lambda>i. draw (Suc i)) n"
proof -
  have "[0..<Suc n] = 0 # map Suc [0..<n]" by (simp add: map_Suc_upt upt_conv_Cons)
  then show ?thesis by (simp add: randomBytes_def comp_def)
qed

text \<open>The decimal amount runs into the unpadded random digits.\<close>

lemma commitment_shift:
  assumes "0 < a" and "10 * a + x < 2 ^ 64" and "0 < x" and "x < 10" and "y < 16"
  shows "generateCommitment (of_nat a) (randomBytes (draw(0 := 16 * x + y)) (Suc n))
       = generateCommitment (of_nat (10 * a + x)) (randomBytes (draw(0 := y)) (Suc n))"
proof -
  have "unat (of_nat a :: u64) = a" "unat (of_nat (10 * a + x) :: u64) = 10 * a + x"
    using assms(2) unat_of_nat [of "10 * a + x", where ?'a = 64] by (simp_all add: unat_of_nat del: of_nat_add of_nat_mult)
  moreover have "num_str 10 (10 * a + x) = num_str 10 a @ [digit_char x]"
    using assms by (intro num_str_snoc) simp_all
  moreover have "num_str 16 (16 * x + y) = [digit_char x, digit_char y]"
    using assms num_str_snoc [of 16 x y] num_str_small [of x 16] by simp
  ultimately show ?thesis
    using num_str_small [of y 16] assms(5)
    by (simp add: generateCommitment_def nat_str_def randomBytes_Suc)
qed

section \<open>Mixing\<close>

datatype mix_op = Join MixRequest | Execute string

text \<open>A run with the list of all requests that joined.\<close>

fun mix_step :: "mix_op \<Rightarrow> TxMixer \<times> MixRequest list \<Rightarrow> TxMixer \<times> MixRequest list" where
  "mix_step (Join r) (m, h) = (snd (joinMix r m), h @ [r])"
| "mix_step (Execute rid) (m, h) = (snd (executeMix rid m), h)"

definition mix_round_id :: "nat \<Rightarrow> string" where
  "mix_round_id k = take 16 (SHA256_hash (''MixRound_'' @ nat_str k))"

definition mix_ok :: "TxMixer \<times> MixRequest list \<Rightarrow> bool" where
  "mix_ok = (\<lambda>(m, h).
     concat (map participants (completedRounds m)) @ participants (currentRound m) = h
     \<and> roundId (currentRound m) =
         (if participants (currentRound m) = [] then [] else mix_round_id (length (completedRounds m)))
     \<and> (\<forall>k < length (completedRounds m). completed (completedRounds m ! k)
          \<and> roundId (completedRounds m ! k) = mix_round_id k
          \<and> 3 \<le> length (participants (completedRounds m ! k))))"

lemma mix_round_id_not_Nil [simp]: "mix_round_id k \<noteq> []"
  by (simp add: mix_round_id_def)

lemma generateRoundId_number: "generateRoundId m = mix_round_id (length (completedRounds m))"
  by (simp add: generateRoundId_def mix_round_id_def)

lemma mix_join [preserves]: "mix_ok (m, h) \<Longrightarrow> mix_ok (mix_step (Join r) (m, h))"
  by (auto simp: mix_ok_def joinMix_def generateRoundId_number Let_def)

lemma mix_execute [preserves]: "mix_ok (m, h) \<Longrightarrow> mix_ok (mix_step (Execute rid) (m, h))"
  by (auto simp: mix_ok_def executeMix_def executeMix_outputs_def MIN_PARTICIPANTS_def Let_def
      nth_append less_Suc_eq split: if_splits)

interpretation mixer: preserved mix_step mix_ok
proof
  fix s :: "TxMixer \<times> MixRequest list" and x
  assume "mix_ok s"
  then show "mix_ok (mix_step x s)"
    by (cases s; cases x) (simp_all only: preserves)
qed

lemma executeMix_iff:
  "fst (executeMix rid m) \<longleftrightarrow> roundId (currentRound m) = rid \<and> isReady m"
  by (simp add: executeMix_def executeMix_outputs_def isReady_def Let_def not_less)

text \<open>What the shuffle would have done: permute the output addresses.\<close>

lemma shuffle_step_mset:
  assumes "i < length outputs"
  shows "mset (shuffle_step i outputs) = mset outputs \<and> length (shuffle_step i outputs) = length outputs"
proof -
  have "of_char (hd (SHA256_hash (outputs ! i))) mod (i + 1) < length outputs"
    using assms mod_less_divisor [of "i + 1" "of_char (hd (SHA256_hash (outputs ! i)))"] by linarith
  with assms show ?thesis by (simp add: shuffle_step_def Let_def mset_swap)
qed

lemma mix_shuffle_mset: "mset (mix_shuffle outputs) = mset outputs"
proof -
  have "(\<forall>i \<in> set is. i < length xs) \<Longrightarrow> mset (fold shuffle_step is xs) = mset xs" for "is" xs
    by (induction "is" arbitrary: xs) (auto simp: shuffle_step_mset)
  from this [of "rev [1..<length outputs]" outputs] show ?thesis by (simp add: mix_shuffle_def)
qed

section \<open>Properties\<close>



text \<open>The recipient does not find a payment to a one-time address. With different spend and view
  keys, \<open>scanTransaction\<close> on the address and ephemeral key of \<open>createOneTimeAddress\<close> answers no,
  unless the two different texts hashed on the two sides share the 33 digits of the address: the
  scan hashes with the view key on both occasions where the sender used the spend key and the
  ephemeral secret.\<close>

theorem stealth_payment_missed:
  assumes "generateStealthAddress ssl spendPriv viewPriv = Inr sa"
    and "spendPubKey sa \<noteq> viewPubKey sa"
    and "eph = ECDSA_generateKeyPair ssl e" and "ota = createOneTimeAddress ssl e sa"
    and "u = SHA256_hash (privateKey eph @ viewPubKey sa) @ spendPubKey sa"
    and "v = SHA256_hash (viewPriv @ publicKey eph) @ viewPubKey sa"
  shows "u \<noteq> v \<and> scanTransaction ssl viewPriv (txPubKey ota) (ota_address ota) =
           Inr (take 33 (SHA256_hash v) = take 33 (SHA256_hash u))"
proof -
  have view: "ECDSA_derivePublicKey ssl viewPriv = Inr (viewPubKey sa)"
    using assms(1) by (auto simp: generateStealthAddress_def)
  have "length (SHA256_hash a) = length (SHA256_hash b)" for a b by simp
  then have "u \<noteq> v" using assms(2,5,6) append_eq_append_conv by blast
  then show ?thesis
    using view by (simp add: scanTransaction_def assms(3-6) createOneTimeAddress_def Let_def)
qed

theorem stealth_payment_missed_witness:
  "\<exists>sa u v. generateStealthAddress echo_ssl ''01'' ''02'' = Inr sa \<and> u \<noteq> v
     \<and> scanTransaction echo_ssl ''02'' (txPubKey (createOneTimeAddress echo_ssl 7 sa))
          (ota_address (createOneTimeAddress echo_ssl 7 sa))
       = Inr (take 33 (SHA256_hash v) = take 33 (SHA256_hash u))"
proof -
  have hex: "hexToBytes ''01'' = Inr [1]" "hexToBytes ''02'' = Inr [2]" by code_simp+
  define sa where "sa = \<lparr>spendPubKey = bytesToHex (2 # str_resize [1] 32 0),
    viewPubKey = bytesToHex (2 # str_resize [2] 32 0)\<rparr>"
  have g: "generateStealthAddress echo_ssl ''01'' ''02'' = Inr sa"
    unfolding generateStealthAddress_def ECDSA_derivePublicKey_def hex by (simp add: sa_def echo_ssl_def)
  have ne: "spendPubKey sa \<noteq> viewPubKey sa" unfolding sa_def by code_simp
  from stealth_payment_missed [OF g ne refl refl refl refl] g show ?thesis by blast
qed

text \<open>C39: Mixing keeps every request and its link. After any sequence of joins and
  executions the participants of the completed rounds, followed by those of the current round, are
  the requests in the order they joined, each input still beside its own output address; each
  completed round has at least three participants and the identifier of its number; and an
  execution succeeds exactly on the identifier of the current round, when that has three participants.\<close>

theorem mixer_keeps_order:
  "(let (m, joined) = fold mix_step ops (TxMixer_new c, [])
    in concat (map participants (completedRounds m)) @ participants (currentRound m) = joined
     \<and> joined = concat (map (\<lambda>x. case x of Join r \<Rightarrow> [r] | Execute _ \<Rightarrow> []) ops)
     \<and> list_all (\<lambda>r. completed r \<and> 3 \<le> length (participants r)) (completedRounds m)
     \<and> map roundId (completedRounds m) = map mix_round_id [0..<length (completedRounds m)]
     \<and> fst (executeMix rid m) = (roundId (currentRound m) = rid \<and> isReady m))"
proof -
  obtain m joined where run: "fold mix_step ops (TxMixer_new c, []) = (m, joined)" by force
  have "mix_ok (TxMixer_new c, [])" by (simp add: mix_ok_def TxMixer_new_def)
  from mixer.run [OF this, of ops] have ok: "mix_ok (m, joined)" by (simp add: run)
  have "snd (fold mix_step ops (m, h)) = h @ concat (map (\<lambda>x. case x of Join r \<Rightarrow> [r] | Execute _ \<Rightarrow> []) ops)"
    for m h
  proof (induction ops arbitrary: m h)
    case (Cons x ops)
    then show ?case by (cases x) simp_all
  qed simp
  from this [of "TxMixer_new c" "[]"]
  have "joined = concat (map (\<lambda>x. case x of Join r \<Rightarrow> [r] | Execute _ \<Rightarrow> []) ops)" by (simp add: run)
  with ok executeMix_iff [of rid m] show ?thesis
    unfolding run by (auto simp: mix_ok_def list_all_length intro!: nth_equalityI)
qed

end
