(* ===== verification/SHA3.thy ===== *)
theory SHA3
  imports SHA256
begin

text \<open>
  \<open>src/src/crypto/sha3.{h,cpp}\<close>: Keccak-f on 25 lanes of 64 bits, the padding, the absorption of
  136-byte blocks and the 32-byte result; below it, SHA3-256 as FIPS 202 defines it on bit strings,
  and the proof that the code computes it. \<open>rotl64\<close> shifts by \<open>64 - n\<close>, which for \<open>n = 0\<close> is a
  shift by the width of the operand, left undefined by C++; \<open>shr64\<close> is what the machine makes of it.
\<close>

unbundle bit_operations_syntax

section \<open>The permutation\<close>

type_synonym lanes = "u64 list"

definition SHA3_RC :: "u64 list" where
  "SHA3_RC = [
    0x0000000000000001, 0x0000000000008082,
    0x800000000000808A, 0x8000000080008000,
    0x000000000000808B, 0x0000000080000001,
    0x8000000080008081, 0x8000000000008009,
    0x000000000000008A, 0x0000000000000088,
    0x0000000080008009, 0x000000008000000A,
    0x000000008000808B, 0x800000000000008B,
    0x8000000000008089, 0x8000000000008003,
    0x8000000000008002, 0x8000000000000080,
    0x000000000000800A, 0x800000008000000A,
    0x8000000080008081, 0x8000000000008080,
    0x0000000080000001, 0x8000000080008008]"

definition SHA3_ROT :: "nat list list" where
  "SHA3_ROT = [
    [ 0, 36,  3, 41, 18],
    [ 1, 44, 10, 45,  2],
    [62,  6, 43, 15, 61],
    [28, 55, 25, 21, 56],
    [27, 20, 39,  8, 14]]"

definition rotl64 :: "(u64 \<Rightarrow> u64) \<Rightarrow> u64 \<Rightarrow> nat \<Rightarrow> u64" where
  "rotl64 shr64 x n = push_bit n x OR (if n = 0 then shr64 x else drop_bit (64 - n) x)"

text \<open>The two nested loops over \<open>x\<close> and \<open>y\<close>; the array \<open>B\<close> is written in full before it is read.\<close>

definition xys :: "(nat \<times> nat) list" where
  "xys = List.product [0..<5] [0..<5]"

definition keccak_round :: "(u64 \<Rightarrow> u64) \<Rightarrow> u64 \<Rightarrow> lanes \<Rightarrow> lanes" where
  "keccak_round shr64 rc A =
     (let C = map (\<lambda>x. A ! x XOR A ! (x + 5) XOR A ! (x + 10) XOR A ! (x + 15) XOR A ! (x + 20)) [0..<5];
          D = map (\<lambda>x. C ! ((x + 4) mod 5) XOR rotl64 shr64 (C ! ((x + 1) mod 5)) 1) [0..<5];
          A1 = fold (\<lambda>(x, y) A. A[x + 5 * y := A ! (x + 5 * y) XOR D ! x]) xys A;
          B = fold (\<lambda>(x, y) B. B[y + 5 * ((2 * x + 3 * y) mod 5) :=
                     rotl64 shr64 (A1 ! (x + 5 * y)) (SHA3_ROT ! x ! y)]) xys (replicate 25 0);
          A2 = fold (\<lambda>(x, y) A. A[x + 5 * y := B ! (x + 5 * y) XOR
                     (NOT (B ! ((x + 1) mod 5 + 5 * y)) AND B ! ((x + 2) mod 5 + 5 * y))]) xys A1
      in A2[0 := A2 ! 0 XOR rc])"

definition keccakF :: "(u64 \<Rightarrow> u64) \<Rightarrow> lanes \<Rightarrow> lanes" where
  "keccakF shr64 A = fold (\<lambda>round. keccak_round shr64 (SHA3_RC ! round)) [0..<24] A"

section \<open>The sponge\<close>

definition SHA3_toHex :: "bytes \<Rightarrow> string" where
  "SHA3_toHex data = concat (map (\<lambda>b. hex_setw 2 (unat b)) data)"

text \<open>\<open>while (msg.size() % rate != 0) msg.push_back(0x00)\<close>.\<close>

lemma rate_measure:
  assumes "n mod 136 \<noteq> (0 :: nat)"
  shows "(136 - Suc n mod 136) mod 136 < (136 - n mod 136) mod 136"
proof -
  define r where "r = n mod 136"
  have "0 < r" "r < 136" using assms by (simp_all add: r_def)
  then have "r = 135 \<or> r < 135" by linarith
  moreover have "Suc n mod 136 = Suc r mod 136" by (simp add: r_def mod_Suc_eq)
  ultimately show ?thesis
    unfolding r_def [symmetric] using \<open>0 < r\<close> by auto
qed

function pad_rate :: "bytes \<Rightarrow> bytes" where
  "pad_rate msg = (if length msg mod 136 = 0 then msg else pad_rate (msg @ [0]))"
  by pat_completeness auto
termination
proof (relation "measure (\<lambda>msg. (136 - length msg mod 136) mod 136)")
  fix msg :: bytes
  assume "length msg mod 136 \<noteq> 0"
  from rate_measure [OF this] show "(msg @ [0], msg) \<in> measure (\<lambda>msg. (136 - length msg mod 136) mod 136)"
    by (simp only: in_measure length_append list.size One_nat_def add_Suc_right add_0_right)
qed simp

declare pad_rate.simps [simp del]

definition SHA3_pad :: "string \<Rightarrow> bytes" where
  "SHA3_pad input =
     (let msg = pad_rate (bytes_of input @ [0x06])
      in butlast msg @ [last msg OR 0x80])"

definition read_lane :: "bytes \<Rightarrow> nat \<Rightarrow> u64" where
  "read_lane blk j = fold (\<lambda>k lane. lane OR push_bit (8 * k) (ucast (blk ! (j * 8 + k)))) [0..<8] 0"

definition absorb :: "(u64 \<Rightarrow> u64) \<Rightarrow> bytes \<Rightarrow> lanes \<Rightarrow> lanes" where
  "absorb shr64 blk state =
     keccakF shr64 (fold (\<lambda>j st. st[j := st ! j XOR read_lane blk j]) [0..<136 div 8] state)"

text \<open>\<open>memcpy\<close> from the lanes, on a little-endian machine.\<close>

definition lane_bytes :: "u64 \<Rightarrow> bytes" where
  "lane_bytes w = map (\<lambda>k. ucast (drop_bit (8 * k) w)) [0..<8]"

definition SHA3_digest :: "(u64 \<Rightarrow> u64) \<Rightarrow> string \<Rightarrow> bytes" where
  "SHA3_digest shr64 input =
     take 32 (concat (map lane_bytes (fold (absorb shr64) (blocks 136 (SHA3_pad input)) (replicate 25 0))))"

definition SHA3_hash256 :: "(u64 \<Rightarrow> u64) \<Rightarrow> string \<Rightarrow> string" where
  "SHA3_hash256 shr64 input = SHA3_toHex (SHA3_digest shr64 input)"

definition SHA3_hash512 :: "(u64 \<Rightarrow> u64) \<Rightarrow> string \<Rightarrow> string" where
  "SHA3_hash512 shr64 input = SHA3_hash256 shr64 (SHA3_hash256 shr64 input)"

section \<open>SHA3-256 on bit strings\<close>

text \<open>
  FIPS 202. A state is a function of the coordinates \<open>x\<close> and \<open>y\<close>; the rotation offsets come from
  the walk of section 3.2.2 and the round constants from the shift register of section 3.2.5.
\<close>

type_synonym kstate = "nat \<Rightarrow> nat \<Rightarrow> u64"

definition column :: "kstate \<Rightarrow> nat \<Rightarrow> u64" where
  "column S x = S x 0 XOR S x 1 XOR S x 2 XOR S x 3 XOR S x 4"

definition theta :: "kstate \<Rightarrow> kstate" where
  "theta S x y = S x y XOR (column S ((x + 4) mod 5) XOR word_rotl 1 (column S ((x + 1) mod 5)))"

fun rho_walk :: "nat \<Rightarrow> nat \<times> nat" where
  "rho_walk 0 = (1, 0)"
| "rho_walk (Suc t) = (case rho_walk t of (x, y) \<Rightarrow> (y, (2 * x + 3 * y) mod 5))"

definition rho_offset :: "nat \<Rightarrow> nat \<Rightarrow> nat" where
  "rho_offset x y =
     (case List.find (\<lambda>t. rho_walk t = (x, y)) [0..<24] of
        None \<Rightarrow> 0 | Some t \<Rightarrow> ((t + 1) * (t + 2) div 2) mod 64)"

definition rho :: "kstate \<Rightarrow> kstate" where
  "rho S x y = word_rotl (rho_offset x y) (S x y)"

definition pi_step :: "kstate \<Rightarrow> kstate" where
  "pi_step S x y = S ((x + 3 * y) mod 5) x"

definition chi :: "kstate \<Rightarrow> kstate" where
  "chi S x y = S x y XOR (NOT (S ((x + 1) mod 5) y) AND S ((x + 2) mod 5) y)"

definition lfsr_step :: "bool list \<Rightarrow> bool list" where
  "lfsr_step R =
     (let b = R ! 7
      in [b, R ! 0, R ! 1, R ! 2, R ! 3 \<noteq> b, R ! 4 \<noteq> b, R ! 5 \<noteq> b, R ! 6])"

fun lfsr :: "nat \<Rightarrow> bool list" where
  "lfsr 0 = [True, False, False, False, False, False, False, False]"
| "lfsr (Suc t) = lfsr_step (lfsr t)"

definition round_constant :: "nat \<Rightarrow> u64" where
  "round_constant i =
     fold (\<lambda>j w. if lfsr (j + 7 * i) ! 0 then w OR push_bit (2 ^ j - 1) 1 else w) [0..<7] 0"

definition iota :: "nat \<Rightarrow> kstate \<Rightarrow> kstate" where
  "iota i S x y = (if x = 0 \<and> y = 0 then S x y XOR round_constant i else S x y)"

definition keccak_p :: "kstate \<Rightarrow> kstate" where
  "keccak_p S = fold (\<lambda>i S. iota i (chi (pi_step (rho (theta S))))) [0..<24] S"

lemma round_constants: "map round_constant [0..<24] = SHA3_RC"
  by code_simp

lemma offsets: "\<forall>x < 5. \<forall>y < 5. SHA3_ROT ! x ! y = rho_offset x y"
  by code_simp

definition byte_bits :: "u8 \<Rightarrow> bool list" where
  "byte_bits b = map (bit b) [0..<8]"

definition to_bits :: "bytes \<Rightarrow> bool list" where
  "to_bits bs = concat (map byte_bits bs)"

definition pad101 :: "nat \<Rightarrow> bool list" where
  "pad101 m = True # replicate ((1088 - (m + 2) mod 1088) mod 1088) False @ [True]"

definition block_lane :: "bool list \<Rightarrow> kstate" where
  "block_lane P x y =
     (if x + 5 * y < 17 then horner_sum of_bool 2 (take 64 (drop (64 * (x + 5 * y)) P)) else 0)"

definition absorb_bits :: "bool list \<Rightarrow> kstate \<Rightarrow> kstate" where
  "absorb_bits P S = keccak_p (\<lambda>x y. S x y XOR block_lane P x y)"

definition state_bits :: "kstate \<Rightarrow> bool list" where
  "state_bits S = concat (map (\<lambda>k. map (bit (S (k mod 5) (k div 5))) [0..<64]) [0..<25])"

definition sha3_256 :: "bool list \<Rightarrow> bool list" where
  "sha3_256 M =
     (let N = M @ [False, True]
      in take 256 (state_bits (fold absorb_bits (blocks 1088 (N @ pad101 (length N))) (\<lambda>_ _. 0))))"

section \<open>The permutation is Keccak\<close>

definition lane_at :: "lanes \<Rightarrow> kstate" where
  "lane_at A x y = A ! (x + 5 * y)"

definition agree :: "kstate \<Rightarrow> kstate \<Rightarrow> bool" where
  "agree S T \<longleftrightarrow> (\<forall>x < 5. \<forall>y < 5. S x y = T x y)"

lemma agreeD: "agree S T \<Longrightarrow> x < 5 \<Longrightarrow> y < 5 \<Longrightarrow> S x y = T x y"
  by (simp add: agree_def)

lemma length_fold_update [simp]: "length (fold (\<lambda>p A. A[i p := f p (A ! i p)]) ps A) = length A"
  by (induction ps arbitrary: A) auto

lemma fold_update_other:
  "k \<notin> i ` set ps \<Longrightarrow> fold (\<lambda>p A. A[i p := f p (A ! i p)]) ps A ! k = A ! k"
  by (induction ps arbitrary: A) auto

lemma fold_update_nth:
  "distinct (map i ps) \<Longrightarrow> \<forall>p \<in> set ps. i p < length A \<Longrightarrow> p \<in> set ps \<Longrightarrow>
   fold (\<lambda>p A. A[i p := f p (A ! i p)]) ps A ! i p = f p (A ! i p)"
proof (induction ps arbitrary: A)
  case Nil
  then show ?case by simp
next
  case (Cons q ps)
  show ?case
  proof (cases "p = q")
    case True
    with Cons.prems fold_update_other [of "i q" i ps f "A[i q := f q (A ! i q)]"] show ?thesis by simp
  next
    case False
    with Cons.prems have p: "p \<in> set ps" by simp
    then have "i p \<in> i ` set ps" by simp
    with Cons.prems(1) have "i q \<noteq> i p" by (auto simp del: image_eqI)
    with p Cons show ?thesis by simp
  qed
qed

lemma xys_iff [simp]: "(x, y) \<in> set xys \<longleftrightarrow> x < 5 \<and> y < 5"
  by (auto simp: xys_def)

lemma xys_distinct:
  "distinct (map (\<lambda>(x, y). x + 5 * y) xys)"
  "distinct (map (\<lambda>(x, y). y + 5 * ((2 * x + 3 * y) mod 5)) xys)"
  by code_simp+

lemma xys_bounds:
  "\<forall>p \<in> set xys. (case p of (x, y) \<Rightarrow> x + 5 * y) < 25"
  "\<forall>p \<in> set xys. (case p of (x, y) \<Rightarrow> y + 5 * ((2 * x + 3 * y) mod 5)) < 25"
  by code_simp+

lemma rotl64_word:
  assumes "\<And>x. x OR shr64 x = x" and "n < 64"
  shows "rotl64 shr64 x n = word_rotl n x"
proof (cases "n = 0")
  case True
  then have "rotl64 shr64 x n = x" using assms(1) by (simp add: rotl64_def)
  moreover have "word_rotl n x = x"
    unfolding True by (rule bit_word_eqI) (simp add: bit_word_rotl_iff)
  ultimately show ?thesis by simp
next
  case False
  show ?thesis
  proof (rule bit_word_eqI)
    fix k
    assume k: "k < LENGTH(64)"
    have L: "bit (rotl64 shr64 x n) k \<longleftrightarrow> n \<le> k \<and> bit x (k - n) \<or> bit x (64 - n + k)"
      using False k by (simp add: rotl64_def bit_or_iff bit_push_bit_iff bit_drop_bit_eq)
    have R: "bit (word_rotl n x) k \<longleftrightarrow> bit x ((k + (64 - n)) mod 64)"
      using assms(2) k by (simp add: bit_word_rotl_iff)
    show "bit (rotl64 shr64 x n) k = bit (word_rotl n x) k"
    proof (cases "k < n")
      case True
      then have "(k + (64 - n)) mod 64 = 64 - n + k" using assms(2) by simp
      with True show ?thesis unfolding L R by (simp only: not_le) simp
    next
      case False
      then have "k + (64 - n) = (k - n) + 64" using assms(2) by simp
      then have "(k + (64 - n)) mod 64 = k - n" using k by (simp only: mod_add_self2) simp
      moreover have "\<not> bit x (64 - n + k)"
        using False assms(2) bit_imp_le_length [of x "64 - n + k"] by auto
      ultimately show ?thesis using False unfolding L R by (simp only: not_less) simp
    qed
  qed
qed

text \<open>One round, step by step.\<close>

lemma theta_loop:
  assumes shr: "\<And>x. x OR shr64 x = x" and len: "length A = 25" and "agree (lane_at A) S"
    and C: "C = map (\<lambda>x. A ! x XOR A ! (x + 5) XOR A ! (x + 10) XOR A ! (x + 15) XOR A ! (x + 20)) [0..<5]"
    and D: "D = map (\<lambda>x. C ! ((x + 4) mod 5) XOR rotl64 shr64 (C ! ((x + 1) mod 5)) 1) [0..<5]"
  shows "agree (lane_at (fold (\<lambda>(x, y) A. A[x + 5 * y := A ! (x + 5 * y) XOR D ! x]) xys A)) (theta S)"
proof -
  have at: "A ! (x + 5 * y) = S x y" if "x < 5" "y < 5" for x y
    using agreeD [OF assms(3) that] by (simp add: lane_at_def)
  have col: "C ! x = column S x" if "x < 5" for x
    using that at [of x 0] at [of x 1] at [of x 2] at [of x 3] at [of x 4]
    by (simp add: C column_def)
  have loop: "fold (\<lambda>(x, y) A. A[x + 5 * y := A ! (x + 5 * y) XOR D ! x]) xys A
      = fold (\<lambda>p A. A[(case p of (x, y) \<Rightarrow> x + 5 * y) :=
          (\<lambda>(x, y) a. a XOR D ! x) p (A ! (case p of (x, y) \<Rightarrow> x + 5 * y))]) xys A"
    by (rule fold_cong) auto
  show ?thesis
    unfolding agree_def
  proof (intro allI impI)
    fix x y :: nat
    assume xy: "x < 5" "y < 5"
    have "fold (\<lambda>(x, y) A. A[x + 5 * y := A ! (x + 5 * y) XOR D ! x]) xys A ! (x + 5 * y)
        = A ! (x + 5 * y) XOR D ! x"
      unfolding loop
      using fold_update_nth [OF xys_distinct(1), of A "(x, y)" "\<lambda>(x, y) a. a XOR D ! x"] xy len
        xys_bounds(1) by simp
    then show "lane_at (fold (\<lambda>(x, y) A. A[x + 5 * y := A ! (x + 5 * y) XOR D ! x]) xys A) x y = theta S x y"
      using xy at by (simp add: lane_at_def theta_def D col rotl64_word [OF shr])
  qed
qed

lemma walk_back:
  assumes "y < 5"
  shows "(2 * ((x + 3 * y) mod 5) + 3 * x) mod 5 = (y :: nat)"
proof -
  have "(2 * ((x + 3 * y) mod 5) + 3 * x) mod 5 = (2 * (x + 3 * y) + 3 * x) mod 5"
    by (metis mod_add_left_eq mod_mult_right_eq)
  also have "2 * (x + 3 * y) + 3 * x = y + 5 * (x + y)" by simp
  finally show ?thesis using assms by (simp only: mod_mult_self2) simp
qed

lemma rho_pi_loop:
  assumes shr: "\<And>x. x OR shr64 x = x" and "agree (lane_at A) S"
  shows "agree (lane_at (fold (\<lambda>(x, y) B. B[y + 5 * ((2 * x + 3 * y) mod 5) :=
            rotl64 shr64 (A ! (x + 5 * y)) (SHA3_ROT ! x ! y)]) xys (replicate 25 0)))
          (pi_step (rho S))"
    (is "agree (lane_at ?B) _")
proof -
  have loop: "?B = fold (\<lambda>p B. B[(case p of (x, y) \<Rightarrow> y + 5 * ((2 * x + 3 * y) mod 5)) :=
          (\<lambda>(x, y) b. rotl64 shr64 (A ! (x + 5 * y)) (SHA3_ROT ! x ! y)) p
             (B ! (case p of (x, y) \<Rightarrow> y + 5 * ((2 * x + 3 * y) mod 5)))]) xys (replicate 25 0)"
    by (rule fold_cong) auto
  have off: "SHA3_ROT ! x ! y = rho_offset x y \<and> rho_offset x y < 64" if "x < 5" "y < 5" for x y
    using that offsets by (auto simp: rho_offset_def split: option.split)
  have B: "?B ! (y + 5 * ((2 * x + 3 * y) mod 5)) = rho S x y" if xy: "x < 5" "y < 5" for x y
  proof -
    have "?B ! (y + 5 * ((2 * x + 3 * y) mod 5)) = rotl64 shr64 (A ! (x + 5 * y)) (SHA3_ROT ! x ! y)"
      unfolding loop
      using fold_update_nth [OF xys_distinct(2), of "replicate 25 0" "(x, y)"
          "\<lambda>(x, y) b. rotl64 shr64 (A ! (x + 5 * y)) (SHA3_ROT ! x ! y)"] xy
        xys_bounds(2) by simp
    then show ?thesis
      using off [OF xy] agreeD [OF assms(2) xy] by (simp add: rotl64_word [OF shr] rho_def lane_at_def)
  qed
  show ?thesis
    unfolding agree_def
  proof (intro allI impI)
    fix x y :: nat
    assume xy: "x < 5" "y < 5"
    have "(2 * ((x + 3 * y) mod 5) + 3 * x) mod 5 = y"
      using xy walk_back by simp
    with B [of "(x + 3 * y) mod 5" x] xy show "lane_at ?B x y = pi_step (rho S) x y"
      by (simp add: lane_at_def pi_step_def)
  qed
qed

lemma chi_loop:
  assumes len: "length A = 25" and "agree (lane_at B) S"
  shows "agree (lane_at (fold (\<lambda>(x, y) A. A[x + 5 * y := B ! (x + 5 * y) XOR
            (NOT (B ! ((x + 1) mod 5 + 5 * y)) AND B ! ((x + 2) mod 5 + 5 * y))]) xys A)) (chi S)"
    (is "agree (lane_at ?A) _")
proof -
  define v where "v = (\<lambda>(x, y) (a :: u64). B ! (x + 5 * y) XOR
      (NOT (B ! ((x + 1) mod 5 + 5 * y)) AND B ! ((x + 2) mod 5 + 5 * y)))"
  have loop: "?A = fold (\<lambda>p A. A[(case p of (x, y) \<Rightarrow> x + 5 * y) :=
      v p (A ! (case p of (x, y) \<Rightarrow> x + 5 * y))]) xys A"
    unfolding v_def by (rule fold_cong) auto
  show ?thesis
    unfolding agree_def
  proof (intro allI impI)
    fix x y :: nat
    assume xy: "x < 5" "y < 5"
    have "?A ! (x + 5 * y) = v (x, y) (A ! (x + 5 * y))"
      unfolding loop
      using fold_update_nth [OF xys_distinct(1), of A "(x, y)" v] xy len xys_bounds(1) by simp
    with xy agreeD [OF assms(2), unfolded lane_at_def] show "lane_at ?A x y = chi S x y"
      by (simp add: v_def chi_def lane_at_def)
  qed
qed

lemma round_agree:
  assumes shr: "\<And>x. x OR shr64 x = x" and len: "length A = 25" and "agree (lane_at A) S" and "i < 24"
  shows "length (keccak_round shr64 (SHA3_RC ! i) A) = 25
    \<and> agree (lane_at (keccak_round shr64 (SHA3_RC ! i) A)) (iota i (chi (pi_step (rho (theta S)))))"
proof -
  have rc: "SHA3_RC ! i = round_constant i"
    using assms(4) unfolding round_constants [symmetric] by simp
  have length_fold: "length (fold (\<lambda>p A. A[j p := h p A]) ps A') = length A'"
    for j :: "nat \<times> nat \<Rightarrow> nat" and h and ps and A' :: lanes
    by (induction ps arbitrary: A') auto
  define C where "C = map (\<lambda>x. A ! x XOR A ! (x + 5) XOR A ! (x + 10) XOR A ! (x + 15) XOR A ! (x + 20)) [0..<5]"
  define D where "D = map (\<lambda>x. C ! ((x + 4) mod 5) XOR rotl64 shr64 (C ! ((x + 1) mod 5)) 1) [0..<5]"
  define A1 where "A1 = fold (\<lambda>(x, y) A. A[x + 5 * y := A ! (x + 5 * y) XOR D ! x]) xys A"
  define B where "B = fold (\<lambda>(x, y) B. B[y + 5 * ((2 * x + 3 * y) mod 5) :=
      rotl64 shr64 (A1 ! (x + 5 * y)) (SHA3_ROT ! x ! y)]) xys (replicate 25 0)"
  define A2 where "A2 = fold (\<lambda>(x, y) A. A[x + 5 * y := B ! (x + 5 * y) XOR
      (NOT (B ! ((x + 1) mod 5 + 5 * y)) AND B ! ((x + 2) mod 5 + 5 * y))]) xys A1"
  have "length A1 = 25"
    using length_fold [of "\<lambda>(x, y). x + 5 * y" "\<lambda>(x, y) A. A ! (x + 5 * y) XOR D ! x" xys A] len
    by (simp add: A1_def split_def)
  moreover from this have "length A2 = 25"
    using length_fold [of "\<lambda>(x, y). x + 5 * y" "\<lambda>(x, y) A. B ! (x + 5 * y) XOR
      (NOT (B ! ((x + 1) mod 5 + 5 * y)) AND B ! ((x + 2) mod 5 + 5 * y))" xys A1]
    by (simp add: A2_def split_def)
  moreover have "agree (lane_at A2) (chi (pi_step (rho (theta S))))"
    unfolding A2_def B_def
    using chi_loop [OF \<open>length A1 = 25\<close> rho_pi_loop [OF shr, OF theta_loop [OF shr len assms(3) C_def D_def],
        folded A1_def]] by simp
  moreover have "keccak_round shr64 (SHA3_RC ! i) A = A2[0 := A2 ! 0 XOR round_constant i]"
    by (simp add: keccak_round_def Let_def C_def D_def A1_def B_def A2_def rc)
  ultimately show ?thesis
    using agreeD [of "lane_at A2" "chi (pi_step (rho (theta S)))" 0 0]
    by (auto simp: agree_def lane_at_def iota_def nth_list_update)
qed

lemma keccakF_agree:
  assumes shr: "\<And>x. x OR shr64 x = x" and "length A = 25" and "agree (lane_at A) S"
  shows "length (keccakF shr64 A) = 25 \<and> agree (lane_at (keccakF shr64 A)) (keccak_p S)"
proof -
  have "n \<le> 24 \<Longrightarrow>
      length (fold (\<lambda>i. keccak_round shr64 (SHA3_RC ! i)) [0..<n] A) = 25
      \<and> agree (lane_at (fold (\<lambda>i. keccak_round shr64 (SHA3_RC ! i)) [0..<n] A))
           (fold (\<lambda>i S. iota i (chi (pi_step (rho (theta S))))) [0..<n] S)" for n
  proof (induction n)
    case 0
    with assms show ?case by simp
  next
    case (Suc n)
    then show ?case
      using round_agree [OF shr, of "fold (\<lambda>i. keccak_round shr64 (SHA3_RC ! i)) [0..<n] A"
          "fold (\<lambda>i S. iota i (chi (pi_step (rho (theta S))))) [0..<n] S" n] by simp
  qed
  from this [of 24] show ?thesis by (simp add: keccakF_def keccak_p_def)
qed

section \<open>The bytes are the bits\<close>

lemma length_byte_bits [simp]: "length (byte_bits b) = 8"
  by (simp add: byte_bits_def)

lemma length_to_bits [simp]: "length (to_bits bs) = 8 * length bs"
  by (induction bs) (auto simp: to_bits_def)

lemma to_bits_append [simp]: "to_bits (xs @ ys) = to_bits xs @ to_bits ys"
  by (simp add: to_bits_def)

lemma to_bits_Cons: "to_bits (b # bs) = byte_bits b @ to_bits bs"
  by (simp add: to_bits_def)

lemma to_bits_Nil [simp]: "to_bits [] = []"
  by (simp add: to_bits_def)

lemma take_to_bits: "take (8 * n) (to_bits bs) = to_bits (take n bs)"
  by (induction bs arbitrary: n) (auto simp: to_bits_Cons take_Cons split: nat.split)

lemma drop_to_bits: "drop (8 * n) (to_bits bs) = to_bits (drop n bs)"
  by (induction bs arbitrary: n) (auto simp: to_bits_Cons drop_Cons split: nat.split)

lemma nth_to_bits: "n < 8 * length bs \<Longrightarrow> to_bits bs ! n = bit (bs ! (n div 8)) (n mod 8)"
proof (induction bs arbitrary: n)
  case Nil
  then show ?case by simp
next
  case (Cons b bs)
  show ?case
  proof (cases "n < 8")
    case True
    then show ?thesis by (simp add: to_bits_Cons nth_append byte_bits_def)
  next
    case False
    then obtain m where m: "n = m + 8" by (metis add.commute le_Suc_ex not_le)
    with Cons show ?thesis by (simp add: to_bits_Cons nth_append div_add_self2)
  qed
qed

lemma blocks_to_bits: "blocks (8 * n) (to_bits bs) = map to_bits (blocks n bs)"
proof (induction n bs rule: blocks.induct)
  case (1 n bs)
  show ?case
  proof (cases "n = 0 \<or> bs = []")
    case True
    then show ?thesis by (auto simp: blocks.simps)
  next
    case False
    then have "to_bits bs \<noteq> []" by (metis length_0_conv length_to_bits mult_is_0 zero_neq_numeral)
    with False "1.IH" show ?thesis
      by (simp add: blocks_step take_to_bits drop_to_bits)
  qed
qed

lemma read_lane_bits:
  assumes "length blk = 136" and "j < 17"
  shows "read_lane blk j = horner_sum of_bool 2 (take 64 (drop (64 * j) (to_bits blk)))"
proof (rule bit_word_eqI)
  fix k
  assume "k < LENGTH(64)"
  then have k: "k < 64" by simp
  have "64 * j + k < 8 * length blk" using assms k by simp
  then have "to_bits blk ! (64 * j + k) = bit (blk ! ((64 * j + k) div 8)) ((64 * j + k) mod 8)"
    by (rule nth_to_bits)
  moreover have "64 * j + k = k + 8 * j * 8" by simp
  then have "(64 * j + k) div 8 = 8 * j + k div 8" "(64 * j + k) mod 8 = k mod 8"
    by (simp_all only: div_mult_self1 mod_mult_self1)
  ultimately have R: "bit (horner_sum of_bool 2 (take 64 (drop (64 * j) (to_bits blk))) :: u64) k
      \<longleftrightarrow> bit (blk ! (8 * j + k div 8)) (k mod 8)"
    using assms k by (simp add: bit_horner_sum_bit_iff)
  have high: "\<not> bit (b :: u8) n" if "8 \<le> n" for b n
    using that bit_imp_le_length [of b n] by auto
  have "bit (read_lane blk j) k \<longleftrightarrow> (\<exists>i \<in> {0..<8}. 8 * i \<le> k \<and> bit (blk ! (j * 8 + i)) (k - 8 * i))"
  proof -
    have "bit (fold (\<lambda>k lane. lane OR push_bit (8 * k) (ucast (blk ! (j * 8 + k)))) is w) k
        \<longleftrightarrow> bit w k \<or> (\<exists>i \<in> set is. 8 * i \<le> k \<and> bit (blk ! (j * 8 + i)) (k - 8 * i))" for "is" and w :: u64
      using k by (induction "is" arbitrary: w)
        (auto simp: bit_or_iff bit_push_bit_iff bit_ucast_iff)
    from this [of "[0..<8]" 0] show ?thesis by (simp add: read_lane_def)
  qed
  also have "\<dots> \<longleftrightarrow> bit (blk ! (8 * j + k div 8)) (k mod 8)"
  proof
    assume "\<exists>i \<in> {0..<8}. 8 * i \<le> k \<and> bit (blk ! (j * 8 + i)) (k - 8 * i)"
    then obtain i where i: "8 * i \<le> k" and b: "bit (blk ! (j * 8 + i)) (k - 8 * i)" by blast
    then have "k - 8 * i < 8" using high not_le by blast
    define r where "r = k - 8 * i"
    with i \<open>k - 8 * i < 8\<close> have "k = r + i * 8" "r < 8" by simp_all
    then have "k div 8 = i" "k mod 8 = r" by simp_all
    with b show "bit (blk ! (8 * j + k div 8)) (k mod 8)" by (simp add: mult.commute r_def)
  next
    assume high_bit: "bit (blk ! (8 * j + k div 8)) (k mod 8)"
    have "k - 8 * (k div 8) = k mod 8" by (simp add: minus_mult_div_eq_mod)
    moreover have "8 * (k div 8) \<le> k" by simp
    moreover have "k div 8 \<in> {0..<8}" using k by simp
    ultimately show "\<exists>i \<in> {0..<8}. 8 * i \<le> k \<and> bit (blk ! (j * 8 + i)) (k - 8 * i)"
      using high_bit by (intro bexI [of _ "k div 8"]) (simp_all add: mult.commute)
  qed
  finally show "bit (read_lane blk j) k \<longleftrightarrow>
      bit (horner_sum of_bool 2 (take 64 (drop (64 * j) (to_bits blk))) :: u64) k"
    unfolding R .
qed

lemma absorb_agree:
  assumes shr: "\<And>x. x OR shr64 x = x" and "length A = 25" and "agree (lane_at A) S" and "length blk = 136"
  shows "length (absorb shr64 blk A) = 25 \<and> agree (lane_at (absorb shr64 blk A)) (absorb_bits (to_bits blk) S)"
proof -
  define A' where "A' = fold (\<lambda>j st. st[j := st ! j XOR read_lane blk j]) [0..<17] A"
  have len: "length A' = 25"
    using length_fold_update [of "\<lambda>j. j" "\<lambda>j a. a XOR read_lane blk j" "[0..<17]" A] assms(2)
    by (simp only: A'_def)
  have "agree (lane_at A') (\<lambda>x y. S x y XOR block_lane (to_bits blk) x y)"
    unfolding agree_def
  proof (intro allI impI)
    fix x y :: nat
    assume xy: "x < 5" "y < 5"
    show "lane_at A' x y = S x y XOR block_lane (to_bits blk) x y"
    proof (cases "x + 5 * y < 17")
      case True
      then have "A' ! (x + 5 * y) = A ! (x + 5 * y) XOR read_lane blk (x + 5 * y)"
        using fold_update_nth [of "\<lambda>j. j" "[0..<17]" A "x + 5 * y" "\<lambda>j a. a XOR read_lane blk j"] assms(2)
        by (simp add: A'_def)
      with True agreeD [OF assms(3) xy] show ?thesis
        by (simp add: lane_at_def block_lane_def read_lane_bits [OF assms(4)])
    next
      case False
      then have "A' ! (x + 5 * y) = A ! (x + 5 * y)"
        using fold_update_other [of "x + 5 * y" "\<lambda>j. j" "[0..<17]" "\<lambda>j a. a XOR read_lane blk j" A]
        by (simp add: A'_def)
      with False agreeD [OF assms(3) xy] show ?thesis by (simp add: lane_at_def block_lane_def)
    qed
  qed
  from keccakF_agree [OF shr len this] show ?thesis
    by (simp add: absorb_def absorb_bits_def A'_def)
qed

section \<open>Padding and result\<close>

lemma pad_rate_append: "\<exists>k < 136. pad_rate msg = msg @ replicate k 0 \<and> (length msg + k) mod 136 = 0"
proof -
  have "\<exists>k. k \<le> (136 - length msg mod 136) mod 136 \<and> pad_rate msg = msg @ replicate k 0
      \<and> (length msg + k) mod 136 = 0"
  proof (induction msg rule: pad_rate.induct)
    case (1 msg)
    show ?case
    proof (cases "length msg mod 136 = 0")
      case True
      then show ?thesis by (intro exI [of _ 0]) (simp add: pad_rate.simps [of msg])
    next
      case False
      then obtain k where "k \<le> (136 - Suc (length msg) mod 136) mod 136"
        and "pad_rate (msg @ [0]) = (msg @ [0]) @ replicate k 0"
        and "(Suc (length msg) + k) mod 136 = 0"
        using "1.IH" by auto
      with rate_measure [OF False] False show ?thesis
        by (intro exI [of _ "Suc k"]) (simp add: pad_rate.simps [of msg])
    qed
  qed
  then show ?thesis by (meson le_less_trans mod_less_divisor zero_less_numeral)
qed

lemma byte_bits_values:
  "byte_bits 0 = replicate 8 False"
  "byte_bits 6 = [False, True, True] @ replicate 5 False"
  "byte_bits 0x80 = replicate 7 False @ [True]"
  "byte_bits 0x86 = [False, True, True] @ replicate 4 False @ [True]"
  by code_simp+

lemma to_bits_zeros: "to_bits (replicate n 0) = replicate (8 * n) False"
proof (induction n)
  case (Suc n)
  have "replicate (8 * Suc n) False = replicate 8 False @ replicate (8 * n) False"
    unfolding replicate_add [symmetric] by simp
  with Suc show ?case by (simp only: replicate_Suc to_bits_Cons byte_bits_values)
qed simp

lemma pad101_bytes:
  assumes "k < 136" and "(n + 1 + k) mod 136 = 0"
  shows "pad101 (8 * n + 2) = True # replicate (8 * k + 4) False @ [True]"
proof -
  from assms(2) obtain q where q: "n + 1 + k = 136 * q" by (metis mod_0_imp_dvd dvdE)
  have "(1088 - (8 * n + 4) mod 1088) mod 1088 = 8 * k + 4"
  proof -
    have e: "8 * n + 4 + (8 * k + 4) = 1088 * q" using q by simp
    have small: "8 * k + 4 < 1088" using assms(1) by simp
    then have "8 * n + 4 = (1088 - (8 * k + 4)) + 1088 * (q - 1)"
      using e by (cases q) simp_all
    then have "(8 * n + 4) mod 1088 = (1088 - (8 * k + 4)) mod 1088"
      by (simp only: mod_mult_self2)
    then show ?thesis using small by simp
  qed
  moreover have "8 * n + 2 + 2 = 8 * n + (4 :: nat)" by simp
  ultimately show ?thesis unfolding pad101_def by (simp only:)
qed

lemma SHA3_pad_bits:
  "length (SHA3_pad s) mod 136 = 0
   \<and> to_bits (SHA3_pad s) = to_bits (bytes_of s) @ [False, True] @ pad101 (8 * length s + 2)"
proof -
  obtain k where k: "k < 136" and pad: "pad_rate (bytes_of s @ [6]) = bytes_of s @ 6 # replicate k 0"
    and len: "(length s + 1 + k) mod 136 = 0"
    using pad_rate_append [of "bytes_of s @ [6]"] by auto
  have "SHA3_pad s = bytes_of s @ (if k = 0 then [0x86] else 6 # replicate (k - 1) 0 @ [0x80])"
  proof (cases k)
    case 0
    have "(6 :: u8) OR 0x80 = 0x86" by simp
    with 0 show ?thesis unfolding SHA3_pad_def Let_def pad by simp
  next
    case (Suc m)
    have "bytes_of s @ 6 # replicate k 0 = (bytes_of s @ 6 # replicate m 0) @ [0]"
      unfolding Suc by (simp add: replicate_append_same)
    with Suc show ?thesis unfolding SHA3_pad_def Let_def pad by (simp only: butlast_snoc last_snoc) simp
  qed
  moreover have "to_bits (if k = 0 then [0x86] else 6 # replicate (k - 1) 0 @ [0x80])
      = [False, True] @ True # replicate (8 * k + 4) False @ [True]"
  proof (cases k)
    case 0
    then have "(if k = 0 then [0x86] else 6 # replicate (k - 1) 0 @ [0x80]) = [0x86 :: u8]" by simp
    with 0 show ?thesis by (simp only: to_bits_Cons to_bits_Nil byte_bits_values) simp
  next
    case (Suc m)
    have "8 * k + 4 = 5 + (8 * m + 7)" using Suc by simp
    then have "replicate (8 * k + 4) False = replicate 5 False @ replicate (8 * m) False @ replicate 7 False"
      by (simp only: replicate_add)
    moreover have "to_bits (6 # replicate m 0 @ [0x80])
        = ([False, True, True] @ replicate 5 False) @ replicate (8 * m) False @ replicate 7 False @ [True]"
      by (simp only: to_bits_Cons to_bits_append to_bits_Nil to_bits_zeros byte_bits_values append_Nil2)
    ultimately show ?thesis using Suc by simp
  qed
  ultimately show ?thesis
    using pad101_bytes [OF k, of "length s"] len by (cases k) (simp_all add: ac_simps)
qed

lemma byte_bits_lane: "to_bits (lane_bytes w) = map (bit w) [0..<64]"
proof (rule nth_equalityI)
  show "length (to_bits (lane_bytes w)) = length (map (bit w) [0..<64])"
    by (simp add: lane_bytes_def)
  fix n
  assume "n < length (to_bits (lane_bytes w))"
  then have n: "n < 64" by (simp add: lane_bytes_def)
  then have "to_bits (lane_bytes w) ! n = bit (lane_bytes w ! (n div 8)) (n mod 8)"
    by (intro nth_to_bits) (simp add: lane_bytes_def)
  also have "lane_bytes w ! (n div 8) = ucast (drop_bit (8 * (n div 8)) w)"
    using n nth_map [of "n div 8" "[0..<8]"] nth_upt [of 0 "n div 8" 8]
    by (simp only: lane_bytes_def length_upt) simp
  also have "bit (ucast (drop_bit (8 * (n div 8)) w) :: u8) (n mod 8) = bit w n"
    by (simp add: bit_ucast_iff bit_drop_bit_eq)
  finally show "to_bits (lane_bytes w) ! n = map (bit w) [0..<64] ! n" using n by simp
qed

lemma state_bits_lanes:
  assumes "length A = 25" and "agree (lane_at A) S"
  shows "to_bits (concat (map lane_bytes A)) = state_bits S"
proof -
  have "A = map (\<lambda>k. S (k mod 5) (k div 5)) [0..<25]"
  proof (rule nth_equalityI)
    fix k
    assume "k < length A"
    then have "k div 5 < 5" using assms(1) by simp
    then have "A ! (k mod 5 + 5 * (k div 5)) = S (k mod 5) (k div 5)"
      using agreeD [OF assms(2), of "k mod 5" "k div 5"] by (simp add: lane_at_def)
    then show "A ! k = map (\<lambda>k. S (k mod 5) (k div 5)) [0..<25] ! k"
      using \<open>k < length A\<close> assms(1) by simp
  qed (simp add: assms(1))
  moreover have "to_bits (concat (map lane_bytes B)) = concat (map (\<lambda>w. map (bit w) [0..<64]) B)" for B
    by (induction B) (simp_all add: byte_bits_lane)
  ultimately show ?thesis unfolding state_bits_def by (metis (no_types, lifting) map_map o_apply map_eq_conv)
qed

lemma SHA3_digest_bits:
  assumes shr: "\<And>x. x OR shr64 x = x"
  shows "to_bits (SHA3_digest shr64 s) = sha3_256 (to_bits (bytes_of s))"
proof -
  have absorbs: "length (fold (absorb shr64) bs A) = 25
      \<and> agree (lane_at (fold (absorb shr64) bs A)) (fold absorb_bits (map to_bits bs) S)"
    if "length A = 25" and "agree (lane_at A) S" and "\<forall>b \<in> set bs. length b = 136" for bs A S
    using that
  proof (induction bs arbitrary: A S)
    case (Cons b bs)
    then have "length (absorb shr64 b A) = 25" "agree (lane_at (absorb shr64 b A)) (absorb_bits (to_bits b) S)"
      using absorb_agree [OF shr Cons.prems(1,2), of b] by simp_all
    from Cons.IH [OF this] Cons.prems(3) show ?case by simp
  qed simp
  obtain m where m: "length (SHA3_pad s) = 136 * m"
    using SHA3_pad_bits [of s] by (metis mod_0_imp_dvd dvdE)
  have "length (fold (absorb shr64) (blocks 136 (SHA3_pad s)) (replicate 25 0)) = 25
    \<and> agree (lane_at (fold (absorb shr64) (blocks 136 (SHA3_pad s)) (replicate 25 0)))
        (fold absorb_bits (map to_bits (blocks 136 (SHA3_pad s))) (\<lambda>_ _. 0))"
    using length_blocks [OF _ m] by (intro absorbs) (auto simp: agree_def lane_at_def)
  then have "to_bits (concat (map lane_bytes (fold (absorb shr64) (blocks 136 (SHA3_pad s)) (replicate 25 0))))
      = state_bits (fold absorb_bits (blocks 1088 (to_bits (SHA3_pad s))) (\<lambda>_ _. 0))"
    using blocks_to_bits [of 136 "SHA3_pad s"] by (simp add: state_bits_lanes)
  then show ?thesis
    using SHA3_pad_bits [of s] take_to_bits [of 32, symmetric]
    by (simp add: SHA3_digest_def sha3_256_def)
qed

text \<open>Whatever the shift yields, a digest is 64 hexadecimal digits.\<close>

lemma length_fold_assign: "length (fold (\<lambda>p A. A[j p := h p A]) ps A) = length A"
  by (induction ps arbitrary: A) auto

lemma length_keccakF [simp]: "length (keccakF shr64 A) = length A"
proof -
  have loop: "length (fold (\<lambda>(x, y) A. A[j x y := h x y A]) ps A) = length A"
    for j :: "nat \<Rightarrow> nat \<Rightarrow> nat" and h :: "nat \<Rightarrow> nat \<Rightarrow> lanes \<Rightarrow> u64" and ps A
    using length_fold_assign [of "\<lambda>(x, y). j x y" "\<lambda>(x, y). h x y" ps A] by (simp add: split_def)
  have "length (keccak_round shr64 rc A) = length A" for rc A
    by (simp add: keccak_round_def Let_def loop)
  then have "length (fold (\<lambda>round. keccak_round shr64 (SHA3_RC ! round)) rs A) = length A" for rs
    by (induction rs arbitrary: A) simp_all
  then show ?thesis by (simp add: keccakF_def)
qed

lemma length_absorb [simp]: "length (absorb shr64 blk A) = length A"
  using length_fold_assign [of "\<lambda>j. j" "\<lambda>j st. st ! j XOR read_lane blk j"] by (simp add: absorb_def)

lemma length_SHA3_digest: "length (SHA3_digest shr64 s) = 32"
proof -
  have "length (fold (absorb shr64) bs A) = length A" for bs A
    by (induction bs arbitrary: A) simp_all
  moreover have "length (concat (map lane_bytes A)) = 8 * length A" for A
    by (induction A) (simp_all add: lane_bytes_def)
  ultimately show ?thesis by (simp add: SHA3_digest_def)
qed

interpretation sha3: hex_digest "SHA3_hash256 shr64" for shr64
proof
  fix s
  have digits: "SHA3_hash256 shr64 s = concat (map hex_byte (SHA3_digest shr64 s))"
    by (simp add: SHA3_hash256_def SHA3_toHex_def hex_byte_def [abs_def])
  have "length (concat (map hex_byte bs)) = 2 * length bs" for bs by (induction bs) simp_all
  then show "length (SHA3_hash256 shr64 s) = 64" unfolding digits by (simp add: length_SHA3_digest)
  show "is_hex (SHA3_hash256 shr64 s)" unfolding digits by simp
qed

section \<open>Properties\<close>

text \<open>C37: Wherever the out-of-range shift of \<open>rotl64\<close> yields no foreign bits (0 or the operand
  itself, as processors do), \<open>hash256\<close> prints in hexadecimal the bytes whose bits are the SHA3-256
  of FIPS 202 of the bits of the input: the rotation table is the walk of the standard, the round
  constants are its shift register's, and byte padding is \<open>01\<close> followed by \<open>10*1\<close>.\<close>

theorem sha3_is_fips202:
  assumes "\<And>x. x OR shr64 x = x"
  shows "to_bits (SHA3_digest shr64 s) = sha3_256 (to_bits (bytes_of s))
         \<and> SHA3_hash256 shr64 s = concat (map hex_byte (SHA3_digest shr64 s))"
  using SHA3_digest_bits [OF assms] by (simp add: SHA3_hash256_def SHA3_toHex_def hex_byte_def [abs_def])

theorem sha3_is_fips202_witness:
  "to_bits (SHA3_digest (\<lambda>x. x) ''abc'') = sha3_256 (to_bits (bytes_of ''abc''))
   \<and> to_bits (SHA3_digest (\<lambda>_. 0) ''abc'') = sha3_256 (to_bits (bytes_of ''abc''))"
  using sha3_is_fips202 [of "\<lambda>x. x" "''abc''"] sha3_is_fips202 [of "\<lambda>_. 0" "''abc''"] by simp

end
