(* ===== verification/BLS.thy ===== *)
theory BLS
  imports SHA256
begin

text \<open>
  \<open>src/src/crypto/bls.{h,cpp}\<close>: the placeholder for BLS signatures. \<open>rand()\<close> is an argument. The
  lemmas say what the digest of an aggregate determines, which the verifiers, constantly true,
  never look at.
\<close>

record BLSKeyPair =
  bls_privateKey :: string
  bls_publicKey :: string

definition BLS_generateKeyPair :: "int \<Rightarrow> BLSKeyPair" where
  "BLS_generateKeyPair rnd =
     (let priv = SHA256_hash (''bls_private_'' @ int_str rnd)
      in \<lparr>bls_privateKey = priv, bls_publicKey = SHA256_hash (''bls_public_'' @ priv)\<rparr>)"

definition BLS_sign :: "string \<Rightarrow> string \<Rightarrow> string" where
  "BLS_sign priv message = SHA256_hash (priv @ message)"

definition BLS_verify :: "string \<Rightarrow> string \<Rightarrow> string \<Rightarrow> bool" where
  "BLS_verify pub message sig = True"

definition BLS_aggregate :: "string list \<Rightarrow> string" where
  "BLS_aggregate signatures = fold (\<lambda>sig res. SHA256_hash (res @ sig)) signatures (replicate 64 (CHR ''0''))"

definition BLS_verifyAggregate :: "string list \<Rightarrow> string list \<Rightarrow> string \<Rightarrow> bool" where
  "BLS_verifyAggregate pubs messages agg = True"

lemma length_BLS_aggregate [simp]: "length (BLS_aggregate sigs) = 64"
  by (cases sigs rule: rev_cases) (simp_all add: BLS_aggregate_def)

lemma BLS_aggregate_snoc: "BLS_aggregate (sigs @ [s]) = SHA256_hash (BLS_aggregate sigs @ s)"
  by (simp add: BLS_aggregate_def)

text \<open>Equal aggregates of equally many signatures: equal signatures, in the same order, or a collision.\<close>

lemma BLS_aggregate_binds:
  "length xs = length ys \<Longrightarrow> BLS_aggregate xs = BLS_aggregate ys \<Longrightarrow>
   xs = ys \<or> (\<exists>u v. u \<noteq> v \<and> SHA256_hash u = SHA256_hash v)"
proof (induction xs arbitrary: ys rule: rev_induct)
  case Nil
  then show ?case by simp
next
  case (snoc x xs)
  then obtain y ys' where ys: "ys = ys' @ [y]" and len: "length xs = length ys'"
    by (cases ys rule: rev_cases) auto
  show ?case
  proof (cases "BLS_aggregate xs @ x = BLS_aggregate ys' @ y")
    case True
    then have "BLS_aggregate xs = BLS_aggregate ys'" "x = y" by simp_all
    with snoc.IH [OF len] ys show ?thesis by blast
  next
    case False
    with snoc.prems(2) show ?thesis unfolding ys BLS_aggregate_snoc by blast
  qed
qed

text \<open>The placeholder verifier accepts the aggregate of any other signatures.\<close>

lemma BLS_forgery: "BLS_verifyAggregate pubs messages (BLS_aggregate sigs) \<and> BLS_verify pub message s"
  by (simp add: BLS_verifyAggregate_def BLS_verify_def)

end
