(* ===== verification/Command_Line.thy ===== *)
theory Command_Line
  imports Demo_Chain Mempool Compiler Channel Api Privacy Node
begin

text \<open>
  \<open>src/src/main.cpp\<close>: the arguments, the peer to connect to, and the steps of the demonstration that
  combine components, but for the network step. The clocks and the entropy are arguments, and so are
  the sorting function and OpenSSL. \<open>Main_Program\<close> puts the steps together, with what they write.
\<close>

section \<open>Arguments\<close>

record Config =
  cfg_dataDir :: string
  cfg_connectTo :: string
  cfg_p2pPort :: u16
  cfg_mineMode :: bool

definition Config_default :: Config where
  "Config_default = \<lparr>cfg_dataDir = ''.rexcoin'', cfg_connectTo = [], cfg_p2pPort = 8333, cfg_mineMode = False\<rparr>"

text \<open>The loop over \<open>argv[1 ..]\<close>: an option with a value at the very end is passed over.\<close>

fun parse_args :: "string list \<Rightarrow> Config \<Rightarrow> Config result" where
  "parse_args [] cfg = Inr cfg"
| "parse_args [a] cfg = Inr (if a = ''--mine'' then cfg\<lparr>cfg_mineMode := True\<rparr> else cfg)"
| "parse_args (a # b # rest) cfg =
     (if a = ''--datadir'' then parse_args rest (cfg\<lparr>cfg_dataDir := b\<rparr>)
      else if a = ''--connect'' then parse_args rest (cfg\<lparr>cfg_connectTo := b\<rparr>)
      else if a = ''--port'' then
        bind_result (stoi10 b) (\<lambda>i. parse_args rest (cfg\<lparr>cfg_p2pPort := of_int i\<rparr>))
      else if a = ''--mine'' then parse_args (b # rest) (cfg\<lparr>cfg_mineMode := True\<rparr>)
      else parse_args (b # rest) cfg)"

definition connect_target :: "string \<Rightarrow> (string \<times> u16) result" where
  "connect_target connectTo =
     (let colon = str_find connectTo '':''
      in bind_result (str_substr connectTo 0 colon) (\<lambda>peerIP.
           if colon \<noteq> npos
           then bind_result (str_substr connectTo (sz_add colon 1) npos) (\<lambda>p.
                bind_result (stoi10 p) (\<lambda>i. Inr (peerIP, of_int i)))
           else Inr (peerIP, 8333)))"

section \<open>The steps\<close>

text \<open>Step 3.\<close>

definition main_signature :: "('e, 'z) openssl_scheme \<Rightarrow> 'e \<Rightarrow> Wallet \<Rightarrow> bool result" where
  "main_signature ssl e walletA =
     (let msgHash = SHA256_hash ''RexCoin_test_tx_2026''
      in bind_result (Wallet_signTransaction ssl e walletA msgHash) (\<lambda>sig.
           Wallet_verifySignature ssl walletA msgHash sig))"

text \<open>Step 4: two transfers to the pool, then a block with a coinbase and the best of the pool.\<close>

definition demo_transfer :: "int \<Rightarrow> u64 \<Rightarrow> string \<Rightarrow> Transaction" where
  "demo_transfer now coins addr =
     Transaction_create now [] [\<lparr>amount = coins * 100000000, out_address = addr, scriptPubKey = ''P2PKH''\<rparr>]"

definition main_mining ::
  "((Transaction \<Rightarrow> Transaction \<Rightarrow> bool) \<Rightarrow> Transaction list \<Rightarrow> Transaction list) \<Rightarrow> int \<Rightarrow> int \<Rightarrow> int \<Rightarrow> int \<Rightarrow> int
     \<Rightarrow> string \<Rightarrow> string \<Rightarrow> string \<Rightarrow> Blockchain \<Rightarrow> (Blockchain \<times> Mempool) option" where
  "main_mining sort_by now_cb now1 now2 now_adj now miner addrA addrB bc =
     (let cb = createCoinbase now_cb miner (getBlockReward bc) (of_nat (getHeight bc));
          tx1 = demo_transfer now1 5 addrA;
          tx2 = demo_transfer now2 2 addrB;
          pool = snd (Mempool_add tx1 um_empty);
          pool = snd (Mempool_add tx2 pool);
          pending = getTopTxs sort_by 10 pool;
          pending = cb # pending
      in case addBlock now_adj now pending bc of
           None \<Rightarrow> None
         | Some bc' \<Rightarrow> Some (bc', removeConfirmed [txHash tx1, txHash tx2] pool))"

text \<open>Step 7.\<close>

definition main_contract :: "string \<Rightarrow> VMState" where
  "main_contract owner =
     (let (addr, vm) = deployContract (compile ''SHA256 SSTORE HALT'') owner 100000 um_empty
      in vm_call addr ''hello_rex'' 100000 vm)"

text \<open>Step 8.\<close>

definition main_shielded :: "(nat \<Rightarrow> nat) \<Rightarrow> string \<Rightarrow> string \<Rightarrow> bool" where
  "main_shielded draw keyA addrB =
     (let stx = createShieldedTx draw keyA addrB (5 * 100000000) 10000 in verifyShieldedTx stx)"

text \<open>Step 9.\<close>

definition main_channel :: "string \<Rightarrow> string \<Rightarrow> string \<times> PaymentChannel" where
  "main_channel addrA addrB =
     (let (chId, channels) = openChannel addrA addrB (10 * 100000000) (10 * 100000000) um_empty;
          channels = snd (pay chId addrA (3 * 100000000) channels)
      in (chId, snd (closeChannel chId channels)))"

text \<open>Step 10.\<close>

definition main_rpc :: "RpcResponse result" where
  "main_rpc =
     rpc_handle ''{\"method\":\"getnetworkinfo\",\"params\":[],\"id\":1}'' (snd (RpcServer_start (RpcServer_new 8332)))"

section \<open>What they do\<close>

lemma parse_args_options:
  assumes "p \<le> 2147483647"
  shows "parse_args [''--datadir'', d, ''--connect'', c, ''--port'', nat_str p, ''--mine''] cfg =
           Inr \<lparr>cfg_dataDir = d, cfg_connectTo = c, cfg_p2pPort = of_nat p, cfg_mineMode = True\<rparr>"
    and "parse_args [''--port''] cfg = Inr cfg"
  using assms by simp_all

text \<open>Ports beyond 16 bits wrap around.\<close>

lemma parse_args_port_wraps: "parse_args [''--port'', nat_str 73869] Config_default = Inr Config_default"
  by (simp add: Config_default_def)

lemma connect_target_text:
  assumes "CHR '':'' \<notin> set ip" and "p \<le> 2147483647" and "length ip < 2 ^ 32"
  shows "connect_target (ip @ '':'' @ nat_str p) = Inr (ip, of_nat p)"
    and "connect_target ip = Inr (ip, 8333)"
proof -
  have f: "str_find (ip @ '':'' @ nat_str p) '':'' = length ip"
    using find_idx_char [OF assms(1), of "nat_str p"] by (simp add: str_find_def str_find_from_def)
  have "length (nat_str p) \<le> 10"
    unfolding nat_str_def using assms(2) by (intro length_num_str_le) simp_all
  then have n: "take npos (nat_str p) = nat_str p" by (simp add: npos_def)
  show "connect_target (ip @ '':'' @ nat_str p) = Inr (ip, of_nat p)"
    unfolding connect_target_def Let_def f
    using assms(2,3) n by (simp add: npos_def sz_add_small str_substr_def)
  have "str_find ip '':'' = npos"
    using find_idx_char_None [OF assms(1)] by (simp add: str_find_def str_find_from_def)
  then show "connect_target ip = Inr (ip, 8333)"
    using assms(3) by (simp add: connect_target_def npos_def)
qed

lemma main_shielded_valid: "main_shielded draw keyA addrB"
  by (simp add: main_shielded_def ZK_complete)

text \<open>A new wallet accepts the signature of step 3, if OpenSSL makes one.\<close>

lemma main_signature_valid:
  assumes "openssl_correct ssl" and "Wallet_new ssl e = Inr w"
    and "Wallet_signTransaction ssl e' w (SHA256_hash ''RexCoin_test_tx_2026'') = Inr sig" and "sig_r sig \<noteq> []"
  shows "main_signature ssl e' w = Inr True"
  using Wallet_verifies [OF assms(1,2) _ assms(3,4)] assms(3) by (simp add: main_signature_def)

lemma demo_transfer_invalid: "\<not> Transaction_isValid (demo_transfer now coins addr)"
  by (simp add: demo_transfer_def Transaction_create_def Transaction_isValid_def Let_def Transaction_new_def)

lemma demo_transfer_rejected: "Mempool_add (demo_transfer now coins addr) pool = (False, pool)"
  by (simp add: Mempool_add_def demo_transfer_invalid)

lemma getTopTxs_empty: "std_sort sort_by \<Longrightarrow> getTopTxs sort_by n um_empty = []"
  using getTopTxs_best(1) [of sort_by um_empty n] pool_ok_empty by (simp add: um_empty_def)

lemma removeConfirmed_empty: "removeConfirmed hs um_empty = um_empty"
  by (induction hs) (simp_all add: removeConfirmed_def um_erase_def um_empty_def)

lemma main_mining_parts:
  assumes "std_sort sort_by"
    and "main_mining sort_by now_cb now1 now2 now_adj now miner addrA addrB bc = Some (bc', pool)"
  shows "pool = um_empty
    \<and> addBlock now_adj now [createCoinbase now_cb miner (getBlockReward bc) (of_nat (getHeight bc))] bc = Some bc'"
  using assms(2)
  by (simp add: main_mining_def Let_def demo_transfer_rejected getTopTxs_empty [OF assms(1)]
      removeConfirmed_empty split: option.splits)

lemma main_contract_result:
  "halted (main_contract owner) \<and> unat (gasUsed (main_contract owner)) = 231 \<and> storage (main_contract owner) = um_empty"
proof -
  have src: "''SHA256 SSTORE HALT'' = unwords (map mnemonic_of [OpSHA256, OpSSTORE, OpHALT])"
    by (simp add: mnemonic_of_def)
  have compilable: "\<forall>op \<in> set [OpSHA256, OpSSTORE, OpHALT]. compilable op"
    by (simp add: compilable_def mnemonics_def)
  have code: "map char_opcode (compile ''SHA256 SSTORE HALT'') = [OpSHA256, OpSSTORE, OpHALT]"
    unfolding src by (rule compile_program [OF compilable])
  have "fst (vm_run (compile ''SHA256 SSTORE HALT'') (start_state ''hello_rex'' 100000, GasMeter_new 100000))
        = fold vm_step [OpSHA256, OpSSTORE, OpHALT] (start_state ''hello_rex'' 100000)
      \<and> unat (gm_used (snd (vm_run (compile ''SHA256 SSTORE HALT'') (start_state ''hello_rex'' 100000, GasMeter_new 100000)))) = 231"
    using vm_run_enough [OF start_state_flags, of "GasMeter_new 100000" "compile ''SHA256 SSTORE HALT''"
        "''hello_rex''" 100000]
    by (simp add: code stops_def GasMeter_new_def)
  moreover have "main_contract owner = vm_execute (compile ''SHA256 SSTORE HALT'') ''hello_rex'' 100000"
    using deploy_call [of "compile ''SHA256 SSTORE HALT''" owner 100000 um_empty]
    by (simp add: main_contract_def split_def)
  ultimately show ?thesis
    by (simp add: vm_execute_run vm_step_def start_state_def VMState_new_def)
qed

lemma main_channel_result:
  "\<exists>chn. getChannel (fst (main_channel a b)) (snd (main_channel a b)) = Some chn
     \<and> ch_state chn = CLOSED \<and> unat (balanceA chn) = 700000000 \<and> unat (balanceB chn) = 1300000000"
  by (simp add: main_channel_def openChannel_def pay_def transfer_def closeChannel_def getChannel_def Let_def)

lemma main_rpc_result:
  "main_rpc = Inr \<lparr>rs_result = ''{\"name\":\"Rex Network\",\"version\":\"0.1.0\",\"coin\":\"RXC\"}'', rs_error = [],
     rs_id = 1, rs_success = True\<rparr>"
proof -
  have "''{\"method\":\"getnetworkinfo\",\"params\":[],\"id\":1}'' = request_text ''getnetworkinfo'' [] '',\"id\":1}''"
    by (simp add: request_text_def)
  moreover have "rpc_handle (request_text ''getnetworkinfo'' [] '',\"id\":1}'') (snd (RpcServer_start (RpcServer_new 8332)))
      = Inr \<lparr>rs_result = ''{\"name\":\"Rex Network\",\"version\":\"0.1.0\",\"coin\":\"RXC\"}'', rs_error = [],
          rs_id = 1, rs_success = True\<rparr>"
    by (subst rpc_handle_text) (simp_all add: builtin_def)
  ultimately show ?thesis by (simp only: main_rpc_def)
qed

lemma main_rpc_answers: "\<exists>r. main_rpc = Inr r \<and> rs_success r"
  unfolding main_rpc_result by simp

text \<open>What steps 4, 7, 9 and 10 give on a valid chain.\<close>

lemma main_steps_result:
  assumes "chain_inv bc" and "std_sort sort_by"
    and "main_mining sort_by now_cb now1 now2 now_adj now miner addrA addrB bc = Some (bc', pool)"
  shows "Mempool_empty pool" and "chain_inv bc'"
    and "\<exists>b. chain bc' = chain bc @ [b]
            \<and> transactions b = [createCoinbase now_cb miner (reward_at (length (chain bc))) (of_nat (length (chain bc)))]"
proof -
  note parts = main_mining_parts [OF assms(2,3)]
  then have add: "addBlock now_adj now
      [createCoinbase now_cb miner (getBlockReward bc) (of_nat (getHeight bc))] bc = Some bc'" by simp
  show "chain_inv bc'" using chain_inv_add [OF assms(1) add] .
  show "Mempool_empty pool" using parts by (simp add: Mempool_empty_def um_empty_def)
  show "\<exists>b. chain bc' = chain bc @ [b]
      \<and> transactions b = [createCoinbase now_cb miner (reward_at (length (chain bc))) (of_nat (length (chain bc)))]"
    using addBlock_height [OF add] by (simp add: getBlockReward_def getHeight_def)
qed

lemma demo_mining: "\<exists>bc' pool. main_mining insertion_sort t1 t2 t3 4 5 m a b demo_start = Some (bc', pool)"
proof -
  have "\<exists>r. main_mining insertion_sort t1 t2 t3 4 5 m a b demo_start = Some r"
    using addBlock_0 [OF demo_start_height demo_difficulty]
    by (simp add: main_mining_def Let_def split: option.split)
  then show ?thesis by auto
qed

end
