(* ===== verification/Double_Text.thy ===== *)
theory Double_Text
  imports Double_Ratio Cxx_Strings
begin

text \<open>
  How \<open>std::cout << x\<close> writes a double that is not negative: six significant digits, rounded from the
  exact value to the nearest with ties to even, in fixed notation for decimal exponents from -4 to 5
  and with an exponent otherwise, without zeros at the end of the fraction. No part of the program
  changes the format of \<open>std::cout\<close>. Amounts are printed as \<open>amount / 100000000.0\<close> (\<open>1e8\<close> is the same
  double).
\<close>

section \<open>The text of a double\<close>

text \<open>The decimal exponent of \<open>p / q\<close>, for \<open>p\<close> not 0.\<close>

definition dec_exp :: "nat \<Rightarrow> nat \<Rightarrow> int" where
  "dec_exp p q =
     (if q \<le> p then int (length (nat_str (p div q))) - 1 else - int (first_exp (\<lambda>j. q \<le> p * 10 ^ j)))"

text \<open>Six digits before the point, for decimal exponent \<open>x\<close>.\<close>

definition six_digits :: "nat \<Rightarrow> nat \<Rightarrow> int \<Rightarrow> nat" where
  "six_digits p q x =
     (if x \<le> 5 then round_even (p * 10 ^ nat (5 - x)) q else round_even p (q * 10 ^ nat (x - 5)))"

definition strip_zeros :: "string \<Rightarrow> string" where
  "strip_zeros s = rev (dropWhile (\<lambda>c. c = CHR ''0'') (rev s))"

definition with_fraction :: "string \<Rightarrow> string \<Rightarrow> string" where
  "with_fraction whole frac = (if strip_zeros frac = [] then whole else whole @ ''.'' @ strip_zeros frac)"

definition write_digits :: "string \<Rightarrow> int \<Rightarrow> string" where
  "write_digits ds x =
     (if x < -4 \<or> 6 \<le> x then
        with_fraction (take 1 ds) (drop 1 ds) @ ''e'' @ (if x < 0 then ''-'' else ''+'') @
          setw_fill 2 (CHR ''0'') (nat_str (nat \<bar>x\<bar>))
      else if x < 0 then with_fraction ''0'' (replicate (nat (- x - 1)) (CHR ''0'') @ ds)
      else with_fraction (take (nat x + 1) ds) (drop (nat x + 1) ds))"

definition print_double :: "nat \<times> nat \<Rightarrow> string" where
  "print_double d =
     (case d of (p, q) \<Rightarrow>
        if p = 0 then ''0''
        else
          let x = dec_exp p q; m = six_digits p q x
          in if m = 1000000 then write_digits ''100000'' (x + 1) else write_digits (nat_str m) x)"

definition coins :: "nat \<Rightarrow> nat \<times> nat" where
  "coins n = (case fl n 1 of (a, b) \<Rightarrow> fl a (b * 100000000))"

definition coin_text :: "64 word \<Rightarrow> string" where
  "coin_text amount = print_double (coins (unat amount))"

section \<open>Whole coins\<close>

lemma strip_zeros_replicate [simp]: "strip_zeros (replicate k (CHR ''0'')) = []"
  by (simp add: strip_zeros_def)

lemma coins_exact:
  assumes "c * 100000000 < 2 ^ 53"
  shows "\<exists>b > 0. coins (c * 100000000) = (c * b, b)"
proof -
  obtain b where b: "0 < b" "fl (c * 100000000) 1 = (c * 100000000 * b, b)"
    using fl_integer [OF assms] by blast
  have "coins (c * 100000000) = fl (c * (100000000 * b)) (1 * (100000000 * b))"
    using b(2) by (simp add: coins_def ac_simps)
  also have "\<dots> = fl c 1" using b(1) by (intro fl_scale) simp
  finally show ?thesis using fl_integer [of c] assms by simp
qed

lemma num_str_append_zero: "0 < n \<Longrightarrow> nat_str (n * 10) = nat_str n @ ''0''"
proof -
  assume "0 < n"
  moreover have "digit_char 0 = CHR ''0''" by code_simp
  ultimately show ?thesis by (simp add: nat_str_def num_str.simps [of 10 "n * 10"])
qed

lemma nat_str_append_zeros: "0 < n \<Longrightarrow> nat_str (n * 10 ^ k) = nat_str n @ replicate k (CHR ''0'')"
proof (induction k)
  case (Suc k)
  have "nat_str (n * 10 ^ Suc k) = nat_str (n * 10 ^ k * 10)" by (simp add: ac_simps)
  also have "\<dots> = nat_str (n * 10 ^ k) @ ''0''" using Suc.prems by (intro num_str_append_zero) simp
  finally show ?case using Suc by (simp add: replicate_append_same)
qed simp

lemma nat_str_length:
  assumes "0 < n"
  shows "10 ^ (length (nat_str n) - 1) \<le> n" and "n < 10 ^ length (nat_str n)"
proof -
  have "10 ^ (length (num_str 10 n) - 1) \<le> n \<and> n < 10 ^ length (num_str 10 n) \<and> num_str 10 n \<noteq> []"
    using assms
  proof (induction n rule: less_induct)
    case (less n)
    show ?case
    proof (cases "n < 10")
      case True
      with less.prems show ?thesis by (simp add: num_str.simps [of 10 n])
    next
      case False
      then have IH: "10 ^ (length (num_str 10 (n div 10)) - 1) \<le> n div 10"
        "n div 10 < 10 ^ length (num_str 10 (n div 10))" "num_str 10 (n div 10) \<noteq> []"
        using less.IH [of "n div 10"] by simp_all
      then obtain l where l: "length (num_str 10 (n div 10)) = Suc l" by (cases "num_str 10 (n div 10)") auto
      have "10 ^ Suc l \<le> n" using IH(1) l by (simp add: less_eq_div_iff_mult_less_eq)
      moreover have "n < 10 ^ Suc (Suc l)" using IH(2) l by (simp add: div_less_iff_less_mult)
      ultimately show ?thesis using False l by (simp add: num_str.simps [of 10 n])
    qed
  qed
  then show "10 ^ (length (nat_str n) - 1) \<le> n" and "n < 10 ^ length (nat_str n)"
    by (simp_all add: nat_str_def)
qed

text \<open>An integer: its own digits below a million, six of them and an exponent from there on.\<close>

lemma print_double_integer:
  assumes "0 < c" and "0 < b"
  shows "c < 1000000 \<Longrightarrow> print_double (c * b, b) = nat_str c"
    and "1000000 \<le> c \<Longrightarrow> round_even c (10 ^ (length (nat_str c) - 6)) \<noteq> 1000000 \<Longrightarrow>
      print_double (c * b, b) =
        write_digits (nat_str (round_even c (10 ^ (length (nat_str c) - 6)))) (int (length (nat_str c)) - 1)"
proof -
  define l where "l = length (nat_str c)"
  have exp: "dec_exp (c * b) b = int l - 1" using assms by (simp add: dec_exp_def l_def)
  note len = nat_str_length [OF assms(1), folded l_def]
  have l1: "1 \<le> l" using len(2) assms(1) by (cases l) auto
  show "print_double (c * b, b) = nat_str c" if "c < 1000000"
  proof -
    have l6: "l \<le> 6"
    proof (rule ccontr)
      assume "\<not> l \<le> 6"
      then have "10 ^ 6 \<le> (10 :: nat) ^ (l - 1)" by (intro power_increasing) auto
      with len(1) that show False by simp
    qed
    have k: "nat (5 - (int l - 1)) = 6 - l" by simp
    have "six_digits (c * b) b (int l - 1) = round_even (c * 10 ^ (6 - l) * b) b"
      using l6 k by (simp add: six_digits_def ac_simps)
    also have "\<dots> = c * 10 ^ (6 - l)" using assms(2) by simp
    finally have m: "six_digits (c * b) b (int l - 1) = c * 10 ^ (6 - l)" .
    have "c * 10 ^ (6 - l) < 10 ^ l * 10 ^ (6 - l)" using len(2) by simp
    also have "\<dots> = 10 ^ 6" using l6 by (simp flip: power_add)
    finally have "c * 10 ^ (6 - l) \<noteq> 1000000" by simp
    moreover have "nat_str (c * 10 ^ (6 - l)) = nat_str c @ replicate (6 - l) (CHR ''0'')"
      using assms(1) by (rule nat_str_append_zeros)
    moreover have "nat (int l - 1) + 1 = l" using l1 by simp
    ultimately show ?thesis
      using assms exp m l1 l6
      by (simp add: print_double_def Let_def write_digits_def with_fraction_def l_def del: nat_str_def)
  qed
  show "print_double (c * b, b) = write_digits (nat_str (round_even c (10 ^ (length (nat_str c) - 6)))) (int (length (nat_str c)) - 1)"
    if "1000000 \<le> c" "round_even c (10 ^ (length (nat_str c) - 6)) \<noteq> 1000000"
  proof -
    have "7 \<le> l"
    proof (rule ccontr)
      assume "\<not> 7 \<le> l"
      then have "(10 :: nat) ^ l \<le> 10 ^ 6" by (intro power_increasing) auto
      with len(2) that(1) show False by simp
    qed
    then have k: "nat (int l - 1 - 5) = l - 6" "\<not> int l - 1 \<le> 5" by simp_all
    have "six_digits (c * b) b (int l - 1) = round_even (c * b) (10 ^ (l - 6) * b)"
      using k by (simp add: six_digits_def ac_simps)
    also have "\<dots> = round_even c (10 ^ (l - 6))" using assms(2) by (rule round_even_scale)
    finally show ?thesis
      using that(2) exp assms by (simp add: print_double_def Let_def l_def)
  qed
qed

lemma unat_coins: "c < 180000000000 \<Longrightarrow> unat (of_nat (c * 100000000) :: 64 word) = c * 100000000"
  by (simp add: unat_of_nat del: of_nat_mult)

lemma coin_text_whole:
  assumes "c < 1000000"
  shows "coin_text (of_nat (c * 100000000)) = nat_str c"
proof (cases "c = 0")
  case True
  have "digit_char 0 = CHR ''0''" by code_simp
  with True show ?thesis
    by (simp add: coin_text_def coins_def fl_def print_double_def nat_str_def num_str.simps)
next
  case False
  obtain b where b: "0 < b" "coins (c * 100000000) = (c * b, b)"
    using coins_exact [of c] assms by auto
  have "coin_text (of_nat (c * 100000000)) = print_double (coins (c * 100000000))"
    unfolding coin_text_def using assms by (simp only: unat_coins)
  then show ?thesis using print_double_integer(1) [of c b] b False assms by simp
qed

lemma coin_text_million:
  assumes "1000000 \<le> c" and "c < 90000000"
    and "round_even c (10 ^ (length (nat_str c) - 6)) \<noteq> 1000000"
  shows "coin_text (of_nat (c * 100000000)) =
           write_digits (nat_str (round_even c (10 ^ (length (nat_str c) - 6)))) (int (length (nat_str c)) - 1)"
proof -
  obtain b where b: "0 < b" "coins (c * 100000000) = (c * b, b)"
    using coins_exact [of c] assms(2) by auto
  have "coin_text (of_nat (c * 100000000)) = print_double (coins (c * 100000000))"
    unfolding coin_text_def using assms(2) by (simp only: unat_coins)
  then show ?thesis using print_double_integer(2) [of c b] b assms by simp
qed

text \<open>Amounts of whole coins below a million are printed as they are; from a million on only six
  digits remain, so that 1234567 and 1234568 coins are printed alike.\<close>

theorem coins_printed:
  assumes "c < 1000000"
  shows "coin_text (of_nat (c * 100000000)) = nat_str c
       \<and> coin_text (of_nat (1234567 * 100000000)) = ''1.23457e+06''
       \<and> coin_text (of_nat (1234568 * 100000000)) = ''1.23457e+06''"
proof -
  have d: "digit_char 0 = CHR ''0''" "digit_char (Suc 0) = CHR ''1''" "digit_char 2 = CHR ''2''"
    "digit_char 3 = CHR ''3''" "digit_char 4 = CHR ''4''" "digit_char 5 = CHR ''5''"
    "digit_char 6 = CHR ''6''" "digit_char 7 = CHR ''7''" "digit_char 8 = CHR ''8''"
    by code_simp+
  have "length (nat_str 1234567) = 7" "length (nat_str 1234568) = 7" "nat_str 123457 = ''123457''" "nat_str 6 = ''6''"
    by (simp_all add: nat_str_def num_str.simps d)
  note texts = this
  have "coin_text (of_nat (1234567 * 100000000)) = ''1.23457e+06''"
    by (subst coin_text_million)
      (simp_all add: texts round_even_def write_digits_def with_fraction_def strip_zeros_def setw_fill_def)
  moreover have "coin_text (of_nat (1234568 * 100000000)) = ''1.23457e+06''"
    by (subst coin_text_million)
      (simp_all add: texts round_even_def write_digits_def with_fraction_def strip_zeros_def setw_fill_def)
  ultimately show ?thesis using coin_text_whole [OF assms] by blast
qed

theorem coins_printed_witness: "coin_text (of_nat (999999 * 100000000)) = nat_str 999999"
  using coins_printed [of 999999] by simp

end
