(* ===== verification/Leveldb_Backend.thy ===== *)
theory Leveldb_Backend
  imports Leveldb "HOL-Library.List_Lexorder" "HOL-Library.Char_ord"
begin

text \<open>
  The \<open>HAS_LEVELDB\<close> branches of \<open>src/src/storage/leveldb.cpp\<close>. The LevelDB library is outside the
  repository: it is a parameter (\<open>leveldb\<close>), a record of the calls the code makes, acting on a
  world of any type, and \<open>leveldb_correct\<close> states what its documentation promises when no input or
  output error occurs. The handle \<open>static leveldb::DB* ldb\<close> is one for all instances of
  \<open>BlockchainDB\<close>, so the state of an operation is the handle with the world (\<open>ldb_env\<close>) and the
  instance. The backend is refined to the in-memory one of \<open>Leveldb\<close>: the same operations give the
  same results, except that a deletion always succeeds and a scan comes in the order of the keys.
\<close>

section \<open>The library\<close>

text \<open>
  A handle is what \<open>leveldb::DB*\<close> points to; \<open>ld_open\<close> gives \<open>None\<close> when the status is not ok, and
  then stores a null pointer. \<open>ld_Get\<close> gives \<open>None\<close> for every status that is not ok. The updates of
  a \<open>WriteBatch\<close> are in the order of its calls, a deletion as \<open>None\<close>. \<open>ld_Seek h k\<close> are the entries
  a new iterator runs through from \<open>Seek(k)\<close> on.
\<close>

record ('h, 'w) leveldb =
  ld_open :: "string \<Rightarrow> 'w \<Rightarrow> 'h option \<times> 'w"
  ld_delete_db :: "'h \<Rightarrow> 'w \<Rightarrow> 'w"
  ld_Put :: "'h \<Rightarrow> string \<Rightarrow> string \<Rightarrow> 'w \<Rightarrow> bool \<times> 'w"
  ld_Get :: "'h \<Rightarrow> string \<Rightarrow> 'w \<Rightarrow> string option"
  ld_Delete :: "'h \<Rightarrow> string \<Rightarrow> 'w \<Rightarrow> bool \<times> 'w"
  ld_Write :: "'h \<Rightarrow> (string \<times> string option) list \<Rightarrow> 'w \<Rightarrow> bool \<times> 'w"
  ld_Seek :: "'h \<Rightarrow> string \<Rightarrow> 'w \<Rightarrow> (string \<times> string) list"

record ('h, 'w) ldb_env =
  ldb :: "'h option"
  ldb_world :: 'w

type_synonym ('h, 'w) ldb_state = "('h, 'w) ldb_env \<times> BlockchainDB"

section \<open>Operations\<close>

definition ldb_open ::
  "('h, 'w, 'z) leveldb_scheme \<Rightarrow> string \<Rightarrow> ('h, 'w) ldb_state \<Rightarrow> bool \<times> ('h, 'w) ldb_state" where
  "ldb_open lib path s =
     (case s of (env, db) \<Rightarrow>
      case ld_open lib path (ldb_world env) of (h, w) \<Rightarrow>
        (True, env\<lparr>ldb := h, ldb_world := w\<rparr>, db\<lparr>dbPath := path, opened := True\<rparr>))"

definition ldb_close :: "('h, 'w, 'z) leveldb_scheme \<Rightarrow> ('h, 'w) ldb_state \<Rightarrow> ('h, 'w) ldb_state" where
  "ldb_close lib s =
     (case s of (env, db) \<Rightarrow>
        if \<not> opened db then (env, db)
        else (case ldb env of
                Some h \<Rightarrow> env\<lparr>ldb := None, ldb_world := ld_delete_db lib h (ldb_world env)\<rparr>
              | None \<Rightarrow> env,
              db\<lparr>opened := False\<rparr>))"

text \<open>A call that falls back to \<open>memdb\<close> leaves the library alone.\<close>

definition in_memory :: "('h, 'w) ldb_env \<Rightarrow> 'a \<times> BlockchainDB \<Rightarrow> 'a \<times> ('h, 'w) ldb_state" where
  "in_memory env r = (fst r, env, snd r)"

definition ldb_put ::
  "('h, 'w, 'z) leveldb_scheme \<Rightarrow> string \<Rightarrow> string \<Rightarrow> ('h, 'w) ldb_state \<Rightarrow> bool \<times> ('h, 'w) ldb_state" where
  "ldb_put lib k v s =
     (case s of (env, db) \<Rightarrow>
        if \<not> opened db then (False, env, db)
        else case ldb env of
          Some h \<Rightarrow> (case ld_Put lib h k v (ldb_world env) of (ok, w) \<Rightarrow> (ok, env\<lparr>ldb_world := w\<rparr>, db))
        | None \<Rightarrow> in_memory env (db_put k v db))"

definition ldb_get :: "('h, 'w, 'z) leveldb_scheme \<Rightarrow> string \<Rightarrow> ('h, 'w) ldb_state \<Rightarrow> string option" where
  "ldb_get lib k s =
     (case s of (env, db) \<Rightarrow>
        if \<not> opened db then None
        else case ldb env of Some h \<Rightarrow> ld_Get lib h k (ldb_world env) | None \<Rightarrow> db_get k db)"

definition ldb_del ::
  "('h, 'w, 'z) leveldb_scheme \<Rightarrow> string \<Rightarrow> ('h, 'w) ldb_state \<Rightarrow> bool \<times> ('h, 'w) ldb_state" where
  "ldb_del lib k s =
     (case s of (env, db) \<Rightarrow>
        if \<not> opened db then (False, env, db)
        else case ldb env of
          Some h \<Rightarrow> (case ld_Delete lib h k (ldb_world env) of (ok, w) \<Rightarrow> (ok, env\<lparr>ldb_world := w\<rparr>, db))
        | None \<Rightarrow> in_memory env (db_del k db))"

text \<open>The puts of the batch go to the library in order, then its deletions.\<close>

definition batch_updates :: "DBBatch \<Rightarrow> (string \<times> string option) list" where
  "batch_updates bt = map (\<lambda>(k, v). (k, Some v)) (puts bt) @ map (\<lambda>k. (k, None)) (dels bt)"

definition ldb_writeBatch ::
  "('h, 'w, 'z) leveldb_scheme \<Rightarrow> DBBatch \<Rightarrow> ('h, 'w) ldb_state \<Rightarrow> bool \<times> ('h, 'w) ldb_state" where
  "ldb_writeBatch lib bt s =
     (case s of (env, db) \<Rightarrow>
        if \<not> opened db then (False, env, db)
        else case ldb env of
          Some h \<Rightarrow> (case ld_Write lib h (batch_updates bt) (ldb_world env) of (ok, w) \<Rightarrow> (ok, env\<lparr>ldb_world := w\<rparr>, db))
        | None \<Rightarrow> in_memory env (writeBatch bt db))"

text \<open>The loop over the iterator: it ends at the first key without the prefix.\<close>

fun scan_loop :: "string \<Rightarrow> (string \<times> string) list \<Rightarrow> (string \<times> string) list" where
  "scan_loop prefix [] = []"
| "scan_loop prefix ((k, v) # es) =
     (if take (length prefix) k \<noteq> prefix then [] else (k, v) # scan_loop prefix es)"

text \<open>Neither \<open>scan\<close> nor \<open>size\<close> asks whether the instance is open; \<open>size\<close> ignores the property it reads.\<close>

definition ldb_scan ::
  "('h, 'w, 'z) leveldb_scheme \<Rightarrow> string \<Rightarrow> ('h, 'w) ldb_state \<Rightarrow> (string \<times> string) list" where
  "ldb_scan lib prefix s =
     (case s of (env, db) \<Rightarrow>
        case ldb env of
          Some h \<Rightarrow> scan_loop prefix (ld_Seek lib h prefix (ldb_world env))
        | None \<Rightarrow> scan prefix db)"

definition ldb_size :: "('h, 'w) ldb_state \<Rightarrow> nat" where
  "ldb_size s = length (memdb (snd s))"

section \<open>What the library promises\<close>

text \<open>
  \<open>live w h\<close> is the directory that handle \<open>h\<close> has open, \<open>files w p\<close> the contents of the database in
  directory \<open>p\<close> (empty when there is none, since \<open>create_if_missing\<close> is set), and \<open>fine w\<close> says that
  no input or output error occurs from \<open>w\<close> on.
\<close>

type_synonym ('h, 'w) live_view = "'w \<Rightarrow> 'h \<Rightarrow> string option"
type_synonym 'w files_view = "'w \<Rightarrow> string \<Rightarrow> string \<Rightarrow> string option"

text \<open>A directory is locked by the handle that has it open: a second one is refused.\<close>

definition opens_ok ::
  "('h, 'w, 'z) leveldb_scheme \<Rightarrow> ('w \<Rightarrow> bool) \<Rightarrow> ('h, 'w) live_view \<Rightarrow> 'w files_view \<Rightarrow> bool" where
  "opens_ok lib fine live files \<longleftrightarrow>
     (\<forall>w p. fine w \<longrightarrow>
        (case ld_open lib p w of
           (None, w') \<Rightarrow> p \<in> ran (live w) \<and> fine w' \<and> live w' = live w \<and> files w' = files w
         | (Some h, w') \<Rightarrow> p \<notin> ran (live w) \<and> live w h = None \<and>
             fine w' \<and> live w' = (live w)(h \<mapsto> p) \<and> files w' = files w))
   \<and> (\<forall>w h p. fine w \<longrightarrow> live w h = Some p \<longrightarrow>
        fine (ld_delete_db lib h w) \<and> live (ld_delete_db lib h w) = (live w)(h := None)
        \<and> files (ld_delete_db lib h w) = files w)"

text \<open>That a call succeeds and leaves \<open>m\<close> in directory \<open>p\<close>, everything else as it was.\<close>

definition writes ::
  "('w \<Rightarrow> bool) \<Rightarrow> ('h, 'w) live_view \<Rightarrow> 'w files_view \<Rightarrow> 'w \<Rightarrow> string \<Rightarrow> (string \<Rightarrow> string option)
     \<Rightarrow> bool \<times> 'w \<Rightarrow> bool" where
  "writes fine live files w p m r \<longleftrightarrow>
     fst r \<and> fine (snd r) \<and> live (snd r) = live w \<and> files (snd r) = (files w)(p := m)"

definition apply_updates ::
  "(string \<times> string option) list \<Rightarrow> (string \<Rightarrow> string option) \<Rightarrow> string \<Rightarrow> string option" where
  "apply_updates us m = fold (\<lambda>(k, v) m. m(k := v)) us m"

definition writes_ok ::
  "('h, 'w, 'z) leveldb_scheme \<Rightarrow> ('w \<Rightarrow> bool) \<Rightarrow> ('h, 'w) live_view \<Rightarrow> 'w files_view \<Rightarrow> bool" where
  "writes_ok lib fine live files \<longleftrightarrow>
     (\<forall>w h p k v us. fine w \<longrightarrow> live w h = Some p \<longrightarrow>
        writes fine live files w p ((files w p)(k \<mapsto> v)) (ld_Put lib h k v w)
      \<and> writes fine live files w p ((files w p)(k := None)) (ld_Delete lib h k w)
      \<and> writes fine live files w p (apply_updates us (files w p)) (ld_Write lib h us w))"

text \<open>An iterator runs through the keys in the order of their bytes.\<close>

definition reads_ok ::
  "('h, 'w, 'z) leveldb_scheme \<Rightarrow> ('w \<Rightarrow> bool) \<Rightarrow> ('h, 'w) live_view \<Rightarrow> 'w files_view \<Rightarrow> bool" where
  "reads_ok lib fine live files \<longleftrightarrow>
     (\<forall>w h p k. fine w \<longrightarrow> live w h = Some p \<longrightarrow>
        ld_Get lib h k w = files w p k
      \<and> sorted (map fst (ld_Seek lib h k w)) \<and> distinct (map fst (ld_Seek lib h k w))
      \<and> set (ld_Seek lib h k w) = {(j, v). files w p j = Some v \<and> k \<le> j})"

definition leveldb_correct ::
  "('h, 'w, 'z) leveldb_scheme \<Rightarrow> ('w \<Rightarrow> bool) \<Rightarrow> ('h, 'w) live_view \<Rightarrow> 'w files_view \<Rightarrow> bool" where
  "leveldb_correct lib fine live files \<longleftrightarrow>
     opens_ok lib fine live files \<and> writes_ok lib fine live files \<and> reads_ok lib fine live files"

lemma libraryD:
  assumes "leveldb_correct lib fine live files" and "fine w" and "live w h = Some p"
  shows "writes fine live files w p ((files w p)(k \<mapsto> v)) (ld_Put lib h k v w)"
    and "writes fine live files w p ((files w p)(k := None)) (ld_Delete lib h k w)"
    and "writes fine live files w p (apply_updates us (files w p)) (ld_Write lib h us w)"
    and "ld_Get lib h k w = files w p k"
    and "sorted (map fst (ld_Seek lib h k w))"
    and "distinct (map fst (ld_Seek lib h k w))"
    and "set (ld_Seek lib h k w) = {(j, v). files w p j = Some v \<and> k \<le> j}"
    and "fine (ld_delete_db lib h w)"
    and "live (ld_delete_db lib h w) = (live w)(h := None)"
    and "files (ld_delete_db lib h w) = files w"
proof -
  have ok: "opens_ok lib fine live files" "writes_ok lib fine live files" "reads_ok lib fine live files"
    using assms(1) by (simp_all add: leveldb_correct_def)
  note opens = ok(1) [unfolded opens_ok_def, THEN conjunct2, rule_format, OF assms(2,3)]
    and writes = ok(2) [unfolded writes_ok_def, rule_format, OF assms(2,3)]
    and reads = ok(3) [unfolded reads_ok_def, rule_format, OF assms(2,3)]
  show "writes fine live files w p ((files w p)(k \<mapsto> v)) (ld_Put lib h k v w)"
    and "writes fine live files w p ((files w p)(k := None)) (ld_Delete lib h k w)"
    and "writes fine live files w p (apply_updates us (files w p)) (ld_Write lib h us w)"
    using writes by simp_all
  show "ld_Get lib h k w = files w p k" and "sorted (map fst (ld_Seek lib h k w))"
    and "distinct (map fst (ld_Seek lib h k w))"
    and "set (ld_Seek lib h k w) = {(j, v). files w p j = Some v \<and> k \<le> j}"
    using reads by simp_all
  show "fine (ld_delete_db lib h w)" and "live (ld_delete_db lib h w) = (live w)(h := None)"
    and "files (ld_delete_db lib h w) = files w"
    using opens by simp_all
qed

lemma library_open:
  assumes "leveldb_correct lib fine live files" and "fine w"
  shows "case ld_open lib p w of
           (None, w') \<Rightarrow> p \<in> ran (live w) \<and> fine w' \<and> live w' = live w \<and> files w' = files w
         | (Some h, w') \<Rightarrow> p \<notin> ran (live w) \<and> live w h = None \<and>
             fine w' \<and> live w' = (live w)(h \<mapsto> p) \<and> files w' = files w"
proof -
  have "opens_ok lib fine live files" using assms(1) by (simp add: leveldb_correct_def)
  from this [unfolded opens_ok_def, THEN conjunct1, THEN spec, THEN spec, THEN mp, OF assms(2)] show ?thesis .
qed

lemma library_open_free:
  assumes "leveldb_correct lib fine live files" and "fine w" and "p \<notin> ran (live w)"
  obtains h w' where "ld_open lib p w = (Some h, w')" "live w h = None" "fine w'"
    "live w' = (live w)(h \<mapsto> p)" "files w' = files w"
  using library_open [OF assms(1,2), of p] assms(3)
  by (auto split: prod.splits option.splits)

section \<open>Scanning in the order of the keys\<close>

lemma starts_with_le: "starts_with p k \<Longrightarrow> p \<le> k"
proof (induction p arbitrary: k)
  case (Cons c p)
  then show ?case by (cases k) (auto simp: starts_with_def)
qed simp

text \<open>The keys with a given prefix are an interval.\<close>

lemma starts_with_interval:
  "p \<le> j \<Longrightarrow> j \<le> k \<Longrightarrow> starts_with p k \<Longrightarrow> starts_with p j"
proof (induction p arbitrary: j k)
  case Nil
  then show ?case by (simp add: starts_with_def)
next
  case (Cons c p)
  then obtain ks where k: "k = c # ks" "starts_with p ks"
    by (cases k) (auto simp: starts_with_def)
  with Cons.prems obtain js where "j = c # js" "p \<le> js" "js \<le> ks"
    by (cases j) auto
  with Cons.IH k show ?case by (simp add: starts_with_def)
qed

lemma scan_loop_filter:
  assumes "sorted (map fst es)" and "\<forall>e\<in>set es. prefix \<le> fst e"
  shows "scan_loop prefix es = filter (\<lambda>e. starts_with prefix (fst e)) es"
  using assms
proof (induction prefix es rule: scan_loop.induct)
  case (2 prefix k v es)
  show ?case
  proof (cases "starts_with prefix k")
    case True
    with 2 show ?thesis by (simp add: starts_with_def)
  next
    case False
    with 2 have "\<not> starts_with prefix (fst e)" if "e \<in> set es" for e
      using that starts_with_interval [of prefix k "fst e"] by force
    with False show ?thesis by (simp add: starts_with_def filter_empty_conv)
  qed
qed simp

text \<open>A scan of the library is the scan of the memory, sorted.\<close>

lemma scan_loop_memory:
  assumes "sorted (map fst es)" and "distinct (map fst es)"
    and "set es = {(j, v). um_find m j = Some v \<and> prefix \<le> j}" and "um_ok m"
  shows "scan_loop prefix es = sort_key fst (filter (\<lambda>e. starts_with prefix (fst e)) m)"
proof -
  have eq: "scan_loop prefix es = filter (\<lambda>e. starts_with prefix (fst e)) es"
    using assms(1,3) by (intro scan_loop_filter) auto
  have elems: "(j, v) \<in> set m \<longleftrightarrow> um_find m j = Some v" for j v
    by (rule iffI) (erule um_in_find [OF assms(4)], erule um_find_in)
  have "filter (\<lambda>e. starts_with prefix (fst e)) es = sort_key fst (filter (\<lambda>e. starts_with prefix (fst e)) m)"
    (is "?l = ?r")
  proof (rule map_sorted_distinct_set_unique [where f = fst])
    show sets: "set ?l = set ?r" using elems starts_with_le by (auto simp: assms(3))
    have dm: "distinct (map fst (filter P m))" for P
      using assms(4) by (simp add: um_ok_def distinct_map_filter)
    have "set ?r \<subseteq> set m" by auto
    then show "inj_on fst (set ?l \<union> set ?r)"
      unfolding sets using elems by (auto simp: inj_on_def)
    show "sorted (map fst ?l)" using assms(1) by (rule sorted_filter)
    show "distinct (map fst ?l)" using assms(2) by (rule distinct_map_filter)
    show "sorted (map fst ?r)" by simp
    show "distinct (map fst ?r)"
      by (rule mset_eq_imp_distinct_iff [THEN iffD2, OF _ dm]) simp
  qed
  with eq show ?thesis by simp
qed

section \<open>Refinement of the in-memory backend\<close>

text \<open>The calls of a client, and what each gives back.\<close>

datatype store_op =
    Op_put string string
  | Op_get string
  | Op_del string
  | Op_batch DBBatch
  | Op_scan string

datatype store_out =
    Out_done bool
  | Out_found "string option"
  | Out_listed "(string \<times> string) list"

fun mem_step :: "store_op \<Rightarrow> BlockchainDB \<Rightarrow> store_out \<times> BlockchainDB" where
  "mem_step (Op_put k v) db = (case db_put k v db of (ok, db) \<Rightarrow> (Out_done ok, db))"
| "mem_step (Op_get k) db = (Out_found (db_get k db), db)"
| "mem_step (Op_del k) db = (case db_del k db of (ok, db) \<Rightarrow> (Out_done ok, db))"
| "mem_step (Op_batch bt) db = (case writeBatch bt db of (ok, db) \<Rightarrow> (Out_done ok, db))"
| "mem_step (Op_scan prefix) db = (Out_listed (scan prefix db), db)"

fun ldb_step ::
  "('h, 'w, 'z) leveldb_scheme \<Rightarrow> store_op \<Rightarrow> ('h, 'w) ldb_state \<Rightarrow> store_out \<times> ('h, 'w) ldb_state" where
  "ldb_step lib (Op_put k v) s = (case ldb_put lib k v s of (ok, s) \<Rightarrow> (Out_done ok, s))"
| "ldb_step lib (Op_get k) s = (Out_found (ldb_get lib k s), s)"
| "ldb_step lib (Op_del k) s = (case ldb_del lib k s of (ok, s) \<Rightarrow> (Out_done ok, s))"
| "ldb_step lib (Op_batch bt) s = (case ldb_writeBatch lib bt s of (ok, s) \<Rightarrow> (Out_done ok, s))"
| "ldb_step lib (Op_scan prefix) s = (Out_listed (ldb_scan lib prefix s), s)"

fun run_store :: "('op \<Rightarrow> 's \<Rightarrow> 'out \<times> 's) \<Rightarrow> 'op list \<Rightarrow> 's \<Rightarrow> 'out list \<times> 's" where
  "run_store step [] s = ([], s)"
| "run_store step (x # xs) s =
     (case step x s of (out, s) \<Rightarrow> case run_store step xs s of (outs, s) \<Rightarrow> (out # outs, s))"

text \<open>What LevelDB answers where the memory answers \<open>out\<close>.\<close>

fun leveldb_answer :: "store_op \<Rightarrow> store_out \<Rightarrow> store_out" where
  "leveldb_answer (Op_del k) out = Out_done True"
| "leveldb_answer (Op_scan prefix) (Out_listed es) = Out_listed (sort_key fst es)"
| "leveldb_answer x out = out"

text \<open>The instance, and no other handle, has directory \<open>path\<close> open, with the contents of the memory \<open>m\<close>.\<close>

definition ldb_sim ::
  "('w \<Rightarrow> bool) \<Rightarrow> ('h, 'w) live_view \<Rightarrow> 'w files_view \<Rightarrow> string \<Rightarrow> ('h, 'w) ldb_state \<Rightarrow> BlockchainDB \<Rightarrow> bool" where
  "ldb_sim fine live files path s m \<longleftrightarrow>
     (case s of (env, db) \<Rightarrow>
        opened db \<and> memdb db = um_empty \<and> fine (ldb_world env)
      \<and> (\<exists>h. ldb env = Some h \<and> (\<forall>h'. live (ldb_world env) h' = Some path \<longleftrightarrow> h' = h))
      \<and> files (ldb_world env) path = db_lookup m \<and> db_ok m)"

lemma ldb_simE:
  assumes "ldb_sim fine live files path s m"
  obtains env db h where "s = (env, db)" "opened db" "memdb db = um_empty" "fine (ldb_world env)"
    "ldb env = Some h" "live (ldb_world env) h = Some path" "files (ldb_world env) path = db_lookup m"
    "db_ok m" "opened m" "\<forall>h'. live (ldb_world env) h' = Some path \<longleftrightarrow> h' = h"
  using assms unfolding ldb_sim_def db_ok_def by (auto split: prod.splits)

lemma sim_writes:
  assumes "writes fine live files (ldb_world env) path (db_lookup m') r"
    and "opened db" and "memdb db = um_empty" and "ldb env = Some h"
    and "\<forall>h'. live (ldb_world env) h' = Some path \<longleftrightarrow> h' = h" and "db_ok m'"
  shows "fst r" and "ldb_sim fine live files path (env\<lparr>ldb_world := snd r\<rparr>, db) m'"
  using assms by (auto simp: writes_def ldb_sim_def)

lemma apply_updates_batch:
  "apply_updates (batch_updates bt) f = (f ++ map_of (rev (puts bt))) |` (- set (dels bt))"
proof -
  have puts: "fold (\<lambda>(k, v) m. m(k := v)) (map (\<lambda>(k, v). (k, Some v)) kvs) f = f ++ map_of (rev kvs)"
    for kvs and f :: "string \<Rightarrow> string option"
  proof (induction kvs arbitrary: f)
    case (Cons kv kvs)
    then show ?case by (cases kv) (simp add: map_add_def fun_eq_iff split: option.splits)
  qed simp
  have "fold (\<lambda>(k, v) m. m(k := v)) (map (\<lambda>k. (k, None)) ks) f = f |` (- set ks)"
    for ks and f :: "string \<Rightarrow> string option"
    by (induction ks arbitrary: f) (auto simp: restrict_map_def fun_eq_iff)
  with puts show ?thesis by (simp add: apply_updates_def batch_updates_def)
qed

text \<open>One call, on both backends.\<close>

lemma sim_step:
  assumes "leveldb_correct lib fine live files" and "ldb_sim fine live files path s m"
  shows "fst (ldb_step lib x s) = leveldb_answer x (fst (mem_step x m))
       \<and> ldb_sim fine live files path (snd (ldb_step lib x s)) (snd (mem_step x m))"
proof -
  obtain env db h where s: "s = (env, db)" "opened db" "memdb db = um_empty" "fine (ldb_world env)"
    "ldb env = Some h" "live (ldb_world env) h = Some path" "files (ldb_world env) path = db_lookup m"
    "db_ok m" "opened m" "\<forall>h'. live (ldb_world env) h' = Some path \<longleftrightarrow> h' = h"
    using assms(2) by (rule ldb_simE)
  note laws = libraryD [OF assms(1) s(4,6), unfolded s(7)]
  note written = sim_writes [where live = live and env = env and db = db and h = h, OF _ s(2,3,5,10)]
  show ?thesis
  proof (cases x)
    case (Op_put k v)
    have "writes fine live files (ldb_world env) path (db_lookup (snd (db_put k v m))) (ld_Put lib h k v (ldb_world env))"
      using laws(1) by (simp add: db.lookup_insert [OF s(8)])
    from written [OF this db.ok_insert [OF s(8)]] show ?thesis
      using s by (simp add: Op_put ldb_put_def db_put_def case_prod_beta)
  next
    case (Op_get k)
    with laws(4) [of k] s assms(2) show ?thesis by (simp add: ldb_get_def db_lookup_def)
  next
    case (Op_del k)
    have "writes fine live files (ldb_world env) path (db_lookup (snd (db_del k m))) (ld_Delete lib h k (ldb_world env))"
      using laws(2) by (simp add: db.lookup_erase [OF s(8)])
    from written [OF this db.ok_erase [OF s(8)]] show ?thesis
      using s by (simp add: Op_del ldb_del_def case_prod_beta)
  next
    case (Op_batch bt)
    have "writes fine live files (ldb_world env) path (db_lookup (snd (writeBatch bt m)))
        (ld_Write lib h (batch_updates bt) (ldb_world env))"
      using laws(3) [of "batch_updates bt"] by (simp add: writeBatch_lookup [OF s(8)] apply_updates_batch)
    from written [OF this writeBatch_ok [OF s(8)]] show ?thesis
      using s by (simp add: Op_batch ldb_writeBatch_def writeBatch_def Let_def case_prod_beta)
  next
    case (Op_scan prefix)
    have find: "db_lookup m = um_find (memdb m)"
      using s(9) by (simp add: db_lookup_def db_get_def fun_eq_iff)
    have "um_ok (memdb m)" using s(8) by (simp add: db_ok_def)
    from scan_loop_memory [OF laws(5,6) laws(7) [unfolded find] this] s(1,5) assms(2) show ?thesis
      by (simp add: Op_scan ldb_scan_def scan_def starts_with_def)
  qed
qed

lemma sim_run:
  assumes "leveldb_correct lib fine live files"
  shows "ldb_sim fine live files path s m \<Longrightarrow>
      fst (run_store (ldb_step lib) xs s) = map2 leveldb_answer xs (fst (run_store mem_step xs m))
    \<and> ldb_sim fine live files path (snd (run_store (ldb_step lib) xs s)) (snd (run_store mem_step xs m))"
proof (induction xs arbitrary: s m)
  case (Cons x xs)
  from Cons.IH [OF sim_step [OF assms Cons.prems, THEN conjunct2, of x]]
    sim_step [OF assms Cons.prems, of x]
  show ?case by (simp add: case_prod_beta)
qed simp

section \<open>Opening and closing\<close>

lemma ldb_open_fresh:
  fixes lib :: "('h, 'w, 'z) leveldb_scheme" and env :: "('h, 'w) ldb_env"
  assumes "leveldb_correct lib fine live files" and "fine (ldb_world env)"
    and "path \<notin> ran (live (ldb_world env))"
  obtains h w where "ldb_open lib path (env, d) = (True, env\<lparr>ldb := Some h, ldb_world := w\<rparr>, d\<lparr>dbPath := path, opened := True\<rparr>)"
    and "live (ldb_world env) h = None" and "fine w" and "live w = (live (ldb_world env))(h \<mapsto> path)"
    and "files w = files (ldb_world env)"
proof -
  obtain h w where w: "ld_open lib path (ldb_world env) = (Some h, w)" "live (ldb_world env) h = None" "fine w"
    "live w = (live (ldb_world env))(h \<mapsto> path)" "files w = files (ldb_world env)"
    using assms by (rule library_open_free)
  then have "ldb_open lib path (env, d) =
      (True, env\<lparr>ldb := Some h, ldb_world := w\<rparr>, d\<lparr>dbPath := path, opened := True\<rparr>)"
    by (simp add: ldb_open_def)
  from this w(2-5) show thesis by (rule that)
qed

text \<open>A new directory holds what a new memory holds.\<close>

lemma ldb_open_sim:
  fixes lib :: "('h, 'w, 'z) leveldb_scheme" and env :: "('h, 'w) ldb_env"
  assumes "leveldb_correct lib fine live files" and "fine (ldb_world env)"
    and "path \<notin> ran (live (ldb_world env))" and "files (ldb_world env) path = Map.empty"
  shows "ldb_sim fine live files path (snd (ldb_open lib path (env, db_new))) (snd (db_open path db_new))"
proof -
  obtain h w where "ldb_open lib path (env, db_new) =
      (True, env\<lparr>ldb := Some h, ldb_world := w\<rparr>, db_new\<lparr>dbPath := path, opened := True\<rparr>)"
    and "fine w" "live w = (live (ldb_world env))(h \<mapsto> path)" "files w = files (ldb_world env)"
    using assms(1-3) by (rule ldb_open_fresh)
  then show ?thesis
    using assms(3,4)
    by (simp add: ran_def ldb_sim_def db_open_def db_new_def db_ok_def db_lookup_def db_get_def fun_eq_iff)
qed

text \<open>What was in the directory when it was closed is there when it is opened again.\<close>

lemma ldb_reopen:
  assumes "leveldb_correct lib fine live files" and "ldb_sim fine live files path s m"
  shows "ldb_get lib k (snd (ldb_open lib path (fst (ldb_close lib s), db_new))) = db_get k m"
proof -
  obtain env db h where s: "s = (env, db)" "opened db" "memdb db = um_empty" "fine (ldb_world env)"
    "ldb env = Some h" "live (ldb_world env) h = Some path" "files (ldb_world env) path = db_lookup m"
    "db_ok m" "opened m" "\<forall>h'. live (ldb_world env) h' = Some path \<longleftrightarrow> h' = h"
    using assms(2) by (rule ldb_simE)
  let ?w = "ld_delete_db lib h (ldb_world env)"
  note closed = libraryD(8-10) [OF assms(1) s(4,6)]
  have env': "fst (ldb_close lib s) = env\<lparr>ldb := None, ldb_world := ?w\<rparr>"
    using s(1,2,5) by (simp add: ldb_close_def)
  have "path \<notin> ran (live ?w)"
    using s(10) unfolding closed(2) ran_def by auto
  from library_open_free [OF assms(1) closed(1) this] obtain h' w' where
    w': "ld_open lib path ?w = (Some h', w')" "fine w'" "live w' = (live ?w)(h' \<mapsto> path)" "files w' = files ?w"
    by blast
  have "ld_Get lib h' k w' = files w' path k"
    by (rule libraryD(4) [OF assms(1) w'(2)]) (simp add: w'(3))
  then show ?thesis
    using w' s(7) closed(3) by (simp add: env' ldb_open_def ldb_get_def db_lookup_def)
qed

section \<open>A library of the kind promised\<close>

text \<open>Directories hold association lists; a handle is the directory it has open.\<close>

record directories =
  in_use :: "string list"
  tables :: "string \<Rightarrow> (string, string) umap"

definition directory_db :: "(string, directories) leveldb" where
  "directory_db =
     \<lparr>ld_open = (\<lambda>p w. if p \<in> set (in_use w) then (None, w) else (Some p, w\<lparr>in_use := p # in_use w\<rparr>)),
      ld_delete_db = (\<lambda>h w. w\<lparr>in_use := removeAll h (in_use w)\<rparr>),
      ld_Put = (\<lambda>h k v w. (True, w\<lparr>tables := (tables w)(h := um_put k v (tables w h))\<rparr>)),
      ld_Get = (\<lambda>h k w. um_find (tables w h) k),
      ld_Delete = (\<lambda>h k w. (True, w\<lparr>tables := (tables w)(h := um_erase k (tables w h))\<rparr>)),
      ld_Write = (\<lambda>h us w. (True, w\<lparr>tables := (tables w)(h :=
         fold (\<lambda>(k, v). case v of Some v \<Rightarrow> um_put k v | None \<Rightarrow> um_erase k) us (tables w h))\<rparr>)),
      ld_Seek = (\<lambda>h k w. sort_key fst (filter (\<lambda>e. k \<le> fst e) (tables w h)))\<rparr>"

definition directory_live :: "(string, directories) live_view" where
  "directory_live w h = (if h \<in> set (in_use w) then Some h else None)"

definition directory_files :: "directories files_view" where
  "directory_files w p = um_find (tables w p)"

definition directory_fine :: "directories \<Rightarrow> bool" where
  "directory_fine w \<longleftrightarrow> (\<forall>p. um_ok (tables w p))"

lemma directory_updates:
  fixes m :: "(string, string) umap"
  assumes "um_ok m"
  shows "um_ok (fold (\<lambda>(k, v). case v of Some v \<Rightarrow> um_put k v | None \<Rightarrow> um_erase k) us m)
       \<and> um_find (fold (\<lambda>(k, v). case v of Some v \<Rightarrow> um_put k v | None \<Rightarrow> um_erase k) us m) =
           apply_updates us (um_find m)"
  using assms
proof (induction us arbitrary: m)
  case (Cons u us)
  show ?case
  proof (cases u)
    case (Pair k v)
    show ?thesis
    proof (cases v)
      case None
      from Cons.IH [OF um.ok_erase [OF Cons.prems, of k]] show ?thesis
        by (simp add: Pair None apply_updates_def fun_upd_def)
    next
      case (Some x)
      from Cons.IH [OF um.ok_insert [OF Cons.prems, of k x]] show ?thesis
        by (simp add: Pair Some apply_updates_def fun_upd_def)
    qed
  qed
qed (simp add: apply_updates_def)

lemma directory_db_correct: "leveldb_correct directory_db directory_fine directory_live directory_files"
proof -
  have "opens_ok directory_db directory_fine directory_live directory_files"
    by (auto simp: opens_ok_def directory_db_def directory_fine_def directory_live_def
        directory_files_def ran_def fun_eq_iff split: if_splits)
  moreover have "writes_ok directory_db directory_fine directory_live directory_files"
    unfolding writes_ok_def
  proof (intro allI impI)
    fix w h p k v us
    assume fine: "directory_fine w" and "directory_live w h = Some p"
    then have p: "p = h" by (simp add: directory_live_def split: if_splits)
    have ok: "um_ok (tables w q)" for q using fine by (simp add: directory_fine_def)
    have table: "writes directory_fine directory_live directory_files w h (um_find m)
        (True, w\<lparr>tables := (tables w)(h := m)\<rparr>)" if "um_ok m" for m
      using that ok by (auto simp: writes_def directory_fine_def directory_live_def directory_files_def)
    show "writes directory_fine directory_live directory_files w p ((directory_files w p)(k \<mapsto> v))
          (ld_Put directory_db h k v w)
      \<and> writes directory_fine directory_live directory_files w p ((directory_files w p)(k := None))
          (ld_Delete directory_db h k w)
      \<and> writes directory_fine directory_live directory_files w p (apply_updates us (directory_files w p))
          (ld_Write directory_db h us w)"
      using table [OF um.ok_insert [OF ok, of k v h]] table [OF um.ok_erase [OF ok, of k h]]
        table [OF directory_updates [OF ok, of us h, THEN conjunct1]]
      unfolding um.lookup_insert [OF ok] um.lookup_erase [OF ok] directory_updates [OF ok, THEN conjunct2]
      by (simp add: p directory_db_def directory_files_def)
  qed
  moreover have "reads_ok directory_db directory_fine directory_live directory_files"
    unfolding reads_ok_def
  proof (intro allI impI)
    fix w h p k
    assume fine: "directory_fine w" and "directory_live w h = Some p"
    then have p: "p = h" by (simp add: directory_live_def split: if_splits)
    have ok: "um_ok (tables w h)" using fine by (simp add: directory_fine_def)
    have elems: "(j, v) \<in> set (tables w h) \<longleftrightarrow> um_find (tables w h) j = Some v" for j v
      by (rule iffI) (erule um_in_find [OF ok], erule um_find_in)
    have seek: "ld_Seek directory_db h k w = sort_key fst (filter (\<lambda>e. k \<le> fst e) (tables w h))"
      by (simp add: directory_db_def)
    have "distinct (map fst (filter (\<lambda>e. k \<le> fst e) (tables w h)))"
      using ok unfolding um_ok_def by (rule distinct_map_filter)
    then have "distinct (map fst (ld_Seek directory_db h k w))"
      unfolding seek by (rule mset_eq_imp_distinct_iff [THEN iffD2, rotated]) simp
    moreover have "set (ld_Seek directory_db h k w) = {(j, v). directory_files w p j = Some v \<and> k \<le> j}"
      unfolding seek directory_files_def p set_sort set_filter using elems by (simp add: set_eq_iff conj_commute)
    ultimately show "ld_Get directory_db h k w = directory_files w p k
      \<and> sorted (map fst (ld_Seek directory_db h k w)) \<and> distinct (map fst (ld_Seek directory_db h k w))
      \<and> set (ld_Seek directory_db h k w) = {(j, v). directory_files w p j = Some v \<and> k \<le> j}"
      by (simp add: seek) (simp add: directory_db_def directory_files_def p)
  qed
  ultimately show ?thesis by (simp add: leveldb_correct_def)
qed

text \<open>Without a handle, because the library could not open the directory or another instance closed
  it, every call is the in-memory one.\<close>

lemma fallback_is_memory:
  assumes "ldb env = None"
  shows "ldb_step lib x (env, db) = in_memory env (mem_step x db)"
  using assms
  by (cases x)
    (auto simp: in_memory_def ldb_put_def db_put_def ldb_get_def db_get_def ldb_del_def db_del_def
      ldb_writeBatch_def writeBatch_def ldb_scan_def Let_def)

text \<open>A directory that is open cannot be opened again: the shared handle is then null.\<close>

lemma second_open_refused:
  assumes "leveldb_correct lib fine live files" and "fine (ldb_world env)" and "path \<in> ran (live (ldb_world env))"
  shows "ldb (fst (snd (ldb_open lib path (env, d)))) = None" and "fst (ldb_open lib path (env, d))"
  using library_open [OF assms(1,2), of path] assms(3)
  by (auto simp: ldb_open_def split: prod.splits option.splits)

section \<open>Properties\<close>

text \<open>C11: On a directory without a database, and as long as the library meets its documentation and no
  input or output error occurs, a store built with LevelDB answers every sequence of calls as the
  in-memory store does, except that a deletion reports success also for a missing key and that a
  scan comes in the order of the keys; its \<open>size()\<close> stays 0. What the sequence left is there for a
  new instance that opens the directory after the first has closed it.\<close>

theorem leveldb_refines_memory:
  assumes "leveldb_correct lib fine live files" and "fine (ldb_world env)"
    and "path \<notin> ran (live (ldb_world env))" and "files (ldb_world env) path = Map.empty"
    and "ldb_open lib path (env, db_new) = (ok, s)" and "db_open path db_new = (ok', m)"
    and "run_store (ldb_step lib) xs s = (outs, s')" and "run_store mem_step xs m = (mem_outs, m')"
  shows "outs = map2 leveldb_answer xs mem_outs \<and> ldb_size s' = 0
       \<and> ldb_get lib k (snd (ldb_open lib path (fst (ldb_close lib s'), db_new))) = db_get k m'"
proof -
  have "ldb_sim fine live files path s m"
    using ldb_open_sim [OF assms(1-4)] assms(5,6) by simp
  from sim_run [OF assms(1) this, of xs] assms(7,8)
  have "outs = map2 leveldb_answer xs mem_outs" and sim: "ldb_sim fine live files path s' m'" by simp_all
  moreover from sim have "ldb_size s' = 0"
    by (auto simp: ldb_sim_def ldb_size_def um_empty_def split: prod.splits)
  moreover note ldb_reopen [OF assms(1) sim, of k]
  ultimately show ?thesis by simp
qed

theorem leveldb_refines_memory_witness:
  "fst (run_store (ldb_step directory_db)
      [Op_put ''b'' ''2'', Op_put ''a'' ''1'', Op_del ''c'', Op_scan [], Op_get ''b'']
      (snd (ldb_open directory_db ''p'' (\<lparr>ldb = None, ldb_world = \<lparr>in_use = [], tables = (\<lambda>_. um_empty)\<rparr>\<rparr>, db_new))))
     = [Out_done True, Out_done True, Out_done True, Out_listed [(''a'', ''1''), (''b'', ''2'')], Out_found (Some ''2'')]"
proof -
  let ?env = "\<lparr>ldb = None, ldb_world = \<lparr>in_use = [], tables = (\<lambda>_. um_empty)\<rparr>\<rparr> :: (string, directories) ldb_env"
  let ?xs = "[Op_put ''b'' ''2'', Op_put ''a'' ''1'', Op_del ''c'', Op_scan [], Op_get ''b'']"
  have "directory_fine (ldb_world ?env)" "''p'' \<notin> ran (directory_live (ldb_world ?env))"
    "directory_files (ldb_world ?env) ''p'' = Map.empty"
    by (auto simp: directory_fine_def directory_live_def directory_files_def ran_def)
  note refines = leveldb_refines_memory [OF directory_db_correct this surjective_pairing surjective_pairing
      surjective_pairing surjective_pairing]
  have "fst (run_store (ldb_step directory_db) ?xs (snd (ldb_open directory_db ''p'' (?env, db_new))))
      = map2 leveldb_answer ?xs (fst (run_store mem_step ?xs (snd (db_open ''p'' db_new))))"
    by (rule refines [THEN conjunct1])
  then show ?thesis
    by (simp add: db_open_def db_new_def db_put_def db_del_def db_get_def scan_def um_empty_def
        um_erase_def AList.delete_eq less_eq_char_def)
qed

text \<open>The handle of the library is one for all stores of the process. When a second store opens
  another directory, what the first one writes goes to the directory of the second and its own
  stays as it was; when the second one closes, the first one, still open, reads nothing and takes
  its next writes into memory.\<close>

theorem handle_is_shared:
  assumes "leveldb_correct lib fine live files" and "fine (ldb_world env)"
    and "p \<notin> ran (live (ldb_world env))" and "q \<notin> ran (live (ldb_world env))" and "p \<noteq> q"
    and "ldb_open lib p (env, db_new) = (ok1, env1, a)" and "ldb_open lib q (env1, db_new) = (ok2, env2, b)"
    and "ldb_put lib k v (env2, a) = (ok3, env3, a3)" and "ldb_close lib (env3, b) = (env4, b4)"
  shows "ok1 \<and> ok2 \<and> ok3 \<and> files (ldb_world env3) q k = Some v \<and> files (ldb_world env3) p = files (ldb_world env) p
       \<and> opened a3 \<and> ldb_get lib j (env4, a3) = None
       \<and> ldb_put lib j u (env4, a3) = (True, env4, a3\<lparr>memdb := [(j, u)]\<rparr>)"
proof -
  obtain h w where 1: "ldb_open lib p (env, db_new) =
      (True, env\<lparr>ldb := Some h, ldb_world := w\<rparr>, db_new\<lparr>dbPath := p, opened := True\<rparr>)"
    "fine w" "live w = (live (ldb_world env))(h \<mapsto> p)" "files w = files (ldb_world env)"
    using assms(1-3) by (rule ldb_open_fresh)
  have env1: "env1 = env\<lparr>ldb := Some h, ldb_world := w\<rparr>" "a = db_new\<lparr>dbPath := p, opened := True\<rparr>" ok1
    using 1(1) assms(6) by simp_all
  have "q \<notin> ran (live (ldb_world env1))"
    using assms(4,5) by (auto simp: env1 1(3) ran_def)
  moreover have "fine (ldb_world env1)" using 1(2) by (simp add: env1)
  ultimately obtain h' w' where 2: "ldb_open lib q (env1, db_new) =
      (True, env1\<lparr>ldb := Some h', ldb_world := w'\<rparr>, db_new\<lparr>dbPath := q, opened := True\<rparr>)"
    "fine w'" "live w' = (live (ldb_world env1))(h' \<mapsto> q)" "files w' = files (ldb_world env1)"
    using assms(1) ldb_open_fresh [of lib fine live files env1 q db_new] by blast
  have env2: "env2 = env1\<lparr>ldb := Some h', ldb_world := w'\<rparr>" "b = db_new\<lparr>dbPath := q, opened := True\<rparr>" ok2
    using 2(1) assms(7) by simp_all
  have "live w' h' = Some q" by (simp add: 2(3))
  note put = libraryD(1) [OF assms(1) 2(2) this, of k v]
  have env3: "env3 = env2\<lparr>ldb_world := snd (ld_Put lib h' k v w')\<rparr>" "a3 = a" ok3
    using assms(8) put by (auto simp: ldb_put_def env2 env1 db_new_def writes_def split: prod.splits)
  have files3: "files (ldb_world env3) = (files (ldb_world env))(q := (files (ldb_world env) q)(k \<mapsto> v))"
    using put by (simp add: env3 writes_def 1(4) 2(4) env1)
  have "ldb env4 = None"
    using assms(9) by (auto simp: ldb_close_def env2 env3)
  then show ?thesis
    using files3 assms(5) env1 env2 env3
    by (simp add: ldb_get_def ldb_put_def db_get_def db_put_def in_memory_def db_new_def um_empty_def)
qed

theorem handle_is_shared_witness:
  "\<exists>env3 a3. ldb_put directory_db ''k'' ''v''
      (fst (snd (ldb_open directory_db ''q'' (fst (snd (ldb_open directory_db ''p''
          (\<lparr>ldb = None, ldb_world = \<lparr>in_use = [], tables = (\<lambda>_. um_empty)\<rparr>\<rparr>, db_new))), db_new))),
       db_new\<lparr>dbPath := ''p'', opened := True\<rparr>) = (True, env3, a3)
     \<and> directory_files (ldb_world env3) ''q'' ''k'' = Some ''v'' \<and> directory_files (ldb_world env3) ''p'' ''k'' = None"
proof -
  let ?env = "\<lparr>ldb = None, ldb_world = \<lparr>in_use = [], tables = (\<lambda>_. um_empty)\<rparr>\<rparr> :: (string, directories) ldb_env"
  have "directory_fine (ldb_world ?env)" "''p'' \<notin> ran (directory_live (ldb_world ?env))"
    "''q'' \<notin> ran (directory_live (ldb_world ?env))" "''p'' \<noteq> ''q''"
    by (auto simp: directory_fine_def directory_live_def ran_def)
  note shared = handle_is_shared [OF directory_db_correct this]
  show ?thesis
    using shared [of _ _ _ _ _ _ "''k''" "''v''"]
    by (simp add: ldb_open_def ldb_put_def ldb_close_def directory_db_def directory_files_def db_new_def)
qed

end
