(* ===== verification/Console.thy ===== *)
theory Console
  imports Double_Text Chain_Store Mempool Hybrid Governance Channel Lightning VM Privacy Api Node Leveldb_Backend
begin

text \<open>
  The \<open>print\<close> functions of the program, as the bytes each writes to \<open>std::cout\<close>: \<open>Transaction::print\<close>,
  \<open>UTXOSet::print\<close>, \<open>Block::print\<close>, \<open>Mempool::print\<close>, \<open>BlockchainDB::printStats\<close> (of both
  builds), \<open>Blockchain::printInfo\<close>, \<open>Wallet::print\<close>, \<open>ProofOfStake::print\<close>, \<open>HybridConsensus::printStatus\<close>,
  \<open>GovernanceSystem::print\<close>, \<open>DAO::print\<close>, \<open>PaymentChannel::printChannel\<close>, \<open>LightningNetwork::print\<close>,
  \<open>VM::printContracts\<close>, \<open>TxMixer::printRound\<close>, \<open>RpcServer::printMethods\<close>, \<open>Node::print\<close>. The sources are
  UTF-8. A call \<open>s.substr(0, n)\<close> is \<open>take n s\<close>: at position 0 it does not throw
  (\<open>substr_0\<close>).
\<close>

section \<open>Characters beyond ASCII\<close>

definition utf8 :: "nat list \<Rightarrow> string" where "utf8 bs = map char_of bs"

definition esc :: string where "esc = [CHR 0x1B]"

text \<open>Box drawing, marks, the arrow, and the coloured circles.\<close>

definition box_tl :: string where "box_tl = utf8 [0xE2, 0x95, 0x94]"
definition box_tr :: string where "box_tr = utf8 [0xE2, 0x95, 0x97]"
definition box_v :: string where "box_v = utf8 [0xE2, 0x95, 0x91]"
definition box_l :: string where "box_l = utf8 [0xE2, 0x95, 0xA0]"
definition box_r :: string where "box_r = utf8 [0xE2, 0x95, 0xA3]"
definition box_bl :: string where "box_bl = utf8 [0xE2, 0x95, 0x9A]"
definition box_br :: string where "box_br = utf8 [0xE2, 0x95, 0x9D]"
definition bars :: "nat \<Rightarrow> string" where "bars n = concat (replicate n (utf8 [0xE2, 0x95, 0x90]))"
definition check_mark :: string where "check_mark = utf8 [0xE2, 0x9C, 0x93]"
definition cross_mark :: string where "cross_mark = utf8 [0xE2, 0x9C, 0x97]"
definition yes_mark :: string where "yes_mark = utf8 [0xE2, 0x9C, 0x85]"
definition no_mark :: string where "no_mark = utf8 [0xE2, 0x9D, 0x8C]"
definition arrow :: string where "arrow = utf8 [0xE2, 0x86, 0x92]"
definition green_circle :: string where "green_circle = utf8 [0xF0, 0x9F, 0x9F, 0xA2]"
definition red_circle :: string where "red_circle = utf8 [0xF0, 0x9F, 0x94, 0xB4]"

lemma substr_0: "str_substr s 0 n = Inr (take n s)"
  by (simp add: str_substr_def)

section \<open>The print functions\<close>

definition Transaction_print :: "Transaction \<Rightarrow> string" where
  "Transaction_print tx =
     ''  TX: '' @ take 32 (txHash tx) @ ''...'' @ nl @
     ''  Outputs: '' @ nat_str (length (outputs tx)) @ nl @
     concat (map (\<lambda>out. ''    '' @ arrow @ '' '' @ take 20 (out_address out) @ '' : '' @
       coin_text (amount out) @ '' RXC'' @ nl) (outputs tx))"

definition UTXOSet_print :: "UTXOSet \<Rightarrow> string" where
  "UTXOSet_print utxos =
     nl @ ''=== UTXO Set ('' @ nat_str (length utxos) @ '' entries) ==='' @ nl @
     concat (map (\<lambda>(key, u). if \<not> utxo_spent u then ''  [UNSPENT] '' @ take 20 (utxo_address u) @
       '' : '' @ coin_text (utxo_amount u) @ '' RXC'' @ nl else []) utxos)"

definition Block_print :: "Block \<Rightarrow> string" where
  "Block_print b =
     nl @ box_tl @ bars 42 @ box_tr @ nl @
     box_v @ ''  Block #'' @ nat_str (unat (b_index b)) @ nl @
     box_l @ bars 42 @ box_r @ nl @
     box_v @ ''  Hash       : '' @ take 40 (b_hash b) @ ''...'' @ nl @
     box_v @ ''  PrevHash   : '' @ take 40 (previousHash (header b)) @ ''...'' @ nl @
     box_v @ ''  MerkleRoot : '' @ take 40 (merkleRoot (header b)) @ ''...'' @ nl @
     box_v @ ''  Nonce      : '' @ nat_str (unat (nonce (header b))) @ nl @
     box_v @ ''  Difficulty : '' @ nat_str (unat (difficulty (header b))) @ nl @
     box_v @ ''  TXs        : '' @ nat_str (length (transactions b)) @ nl @
     box_bl @ bars 42 @ box_br @ nl @
     concat (map Transaction_print (transactions b))"

definition Mempool_print :: "Mempool \<Rightarrow> string" where
  "Mempool_print txs =
     nl @ box_tl @ bars 30 @ box_tr @ nl @
     box_v @ ''  MEMPOOL                     '' @ box_v @ nl @
     box_l @ bars 30 @ box_r @ nl @
     box_v @ ''  Pending TXs : '' @ nat_str (length txs) @ nl @
     box_v @ ''  Total Fees  : '' @ coin_text (totalFees txs) @ '' RXC'' @ nl @
     box_bl @ bars 30 @ box_br @ nl"

definition printStats :: "BlockchainDB \<Rightarrow> string" where
  "printStats db =
     nl @ box_tl @ bars 34 @ box_tr @ nl @
     box_v @ ''  DATABASE STATS                  '' @ box_v @ nl @
     box_l @ bars 34 @ box_r @ nl @
     box_v @ ''  Path    : '' @ dbPath db @ nl @
     box_v @ ''  Entries : '' @ nat_str (db_size db) @ nl @
     box_v @ ''  Blocks  : '' @ nat_str (length (scan ''b:'' db)) @ nl @
     box_v @ ''  TXs     : '' @ nat_str (length (scan ''t:'' db)) @ nl @
     box_v @ ''  UTXOs   : '' @ nat_str (length (scan ''u:'' db)) @ nl @
     box_v @ ''  Engine  : In-memory (install leveldb)'' @ nl @
     box_bl @ bars 34 @ box_br @ nl"

text \<open>With LevelDB the counts come from the library, but for the entries.\<close>

definition ldb_printStats :: "('h, 'w, 'z) leveldb_scheme \<Rightarrow> ('h, 'w) ldb_state \<Rightarrow> string" where
  "ldb_printStats lib s =
     nl @ box_tl @ bars 34 @ box_tr @ nl @
     box_v @ ''  DATABASE STATS                  '' @ box_v @ nl @
     box_l @ bars 34 @ box_r @ nl @
     box_v @ ''  Path    : '' @ dbPath (snd s) @ nl @
     box_v @ ''  Entries : '' @ nat_str (ldb_size s) @ nl @
     box_v @ ''  Blocks  : '' @ nat_str (length (ldb_scan lib ''b:'' s)) @ nl @
     box_v @ ''  TXs     : '' @ nat_str (length (ldb_scan lib ''t:'' s)) @ nl @
     box_v @ ''  UTXOs   : '' @ nat_str (length (ldb_scan lib ''u:'' s)) @ nl @
     box_v @ ''  Engine  : LevelDB (persistent)'' @ nl @
     box_bl @ bars 34 @ box_br @ nl"

definition printInfo :: "Blockchain \<Rightarrow> string result" where
  "printInfo bc =
     (if chain bc = [] then Inl Undefined_behaviour
     else Inr (nl @ box_tl @ bars 46 @ box_tr @ nl @
     box_v @ ''          REX NETWORK STATUS                  '' @ box_v @ nl @
     box_l @ bars 46 @ box_r @ nl @
     box_v @ ''  Height      : '' @ nat_str (length (chain bc)) @ nl @
     box_v @ ''  Best Hash   : '' @ take 24 (b_hash (last (chain bc))) @ ''...'' @ nl @
     box_v @ ''  Difficulty  : '' @ nat_str (unat (currentDifficulty bc)) @ nl @
     box_v @ ''  Reward      : '' @ nat_str (unat (getBlockReward bc)) @ '' RXC'' @ nl @
     box_v @ ''  Chain Valid : '' @ (if Blockchain_isValid bc then yes_mark @ '' YES'' else no_mark @ '' NO'') @ nl @
     box_v @ ''  DB Path     : '' @ dataDir bc @ ''/chaindata'' @ nl @
     box_bl @ bars 46 @ box_br @ nl @
     printStats (bdb bc)))"

definition Wallet_print :: "Wallet \<Rightarrow> string" where
  "Wallet_print w =
     nl @ box_tl @ bars 46 @ box_tr @ nl @
     box_v @ ''         REX WALLET (Real Crypto)             '' @ box_v @ nl @
     box_l @ bars 46 @ box_r @ nl @
     box_v @ ''  Address : '' @ w_address w @ nl @
     box_v @ ''  PubKey  : '' @ take 32 (publicKey (keyPair w)) @ ''...'' @ nl @
     box_v @ ''  Balance : '' @ coin_text (w_balance w) @ '' RXC'' @ nl @
     box_bl @ bars 46 @ box_br @ nl"

definition PoS_print :: "ProofOfStake \<Rightarrow> string" where
  "PoS_print vs =
     nl @ ''=== PoS Validators ==='' @ nl @
     concat (map (\<lambda>(addr, v). ''  '' @ take 20 addr @ '' stake='' @ coin_text (stake v) @ '' RXC'' @
       (if active v then '' [ACTIVE]'' else '' [INACTIVE]'') @ nl) vs) @ ''  Total staked: '' @
       coin_text (totalStaked vs) @ '' RXC'' @ nl"

definition printStatus :: "HybridConsensus \<Rightarrow> string" where
  "printStatus hc =
     nl @ ''=== Hybrid Consensus Status ==='' @ nl @
     ''  Finalized blocks: '' @ nat_str (length (finalized hc)) @ nl @
     PoS_print (hc_pos hc)"

fun status_text :: "ProposalStatus \<Rightarrow> string" where
  "status_text ProposalStatus.ACTIVE = '' [ACTIVE]'' @ nl"
| "status_text PASSED = '' [PASSED '' @ check_mark @ '']'' @ nl"
| "status_text REJECTED = '' [REJECTED]'' @ nl"
| "status_text EXPIRED = '' [EXPIRED]'' @ nl"

definition Governance_print :: "GovernanceSystem \<Rightarrow> string" where
  "Governance_print g =
     nl @ ''=== Governance ==='' @ nl @
     concat (map (\<lambda>(pid, p). ''  ['' @ pid @ ''] '' @ title p @ status_text (status p) @ ''     For='' @
       coin_text (votesFor p) @ '' Against='' @ coin_text (votesAgainst p) @ '' RXC'' @ nl) (proposals g))"

definition DAO_print :: "DAO \<Rightarrow> string" where
  "DAO_print dao =
     nl @ ''=== DAO ==='' @ nl @
     ''  Treasury: '' @ coin_text (treasury dao) @ '' RXC'' @ nl @
     Governance_print (gov_system dao)"

definition printChannel :: "string \<Rightarrow> PaymentChannel \<Rightarrow> string" where
  "printChannel cid chs =
     (case getChannel cid chs of
        None \<Rightarrow> ''Channel not found'' @ nl
      | Some chn \<Rightarrow> nl @ ''=== Channel '' @ cid @ '' ==='' @ nl @
     ''  Party A  : '' @ take 20 (partyA chn) @ ''  bal='' @ coin_text (balanceA chn) @ '' RXC'' @ nl @
     ''  Party B  : '' @ take 20 (partyB chn) @ ''  bal='' @ coin_text (balanceB chn) @ '' RXC'' @ nl @
     ''  Sequence : '' @ nat_str (unat (sequenceNum chn)) @ nl)"

definition Lightning_print :: "LightningNetwork \<Rightarrow> string" where
  "Lightning_print ln =
     nl @ ''=== Lightning Network ==='' @ nl @
     ''  Nodes: '' @ nat_str (length (graph ln)) @ nl @
     concat (map (\<lambda>(n, ps). ''  '' @ take 12 n @ '' '' @ arrow @ '' '' @ nat_str (length ps) @ '' peers'' @
       nl) (graph ln))"

definition printContracts :: "VM \<Rightarrow> string" where
  "printContracts vm =
     nl @ ''=== Deployed Contracts ('' @ nat_str (length vm) @ '') ==='' @ nl @
     concat (map (\<lambda>(addr, c). ''  '' @ addr @ '' owner='' @ take 16 (c_owner c) @ nl) vm)"

definition printRound :: "TxMixer \<Rightarrow> string" where
  "printRound m =
     nl @ ''=== Mixer Status ==='' @ nl @
     ''  Current round : '' @ roundId (currentRound m) @ nl @
     ''  Participants  : '' @ nat_str (length (participants (currentRound m))) @ nl @
     ''  Completed     : '' @ nat_str (length (completedRounds m)) @ '' rounds'' @ nl"

definition printMethods :: "RpcServer \<Rightarrow> string" where
  "printMethods srv =
     nl @ ''=== RPC Methods ==='' @ nl @
     concat (map (\<lambda>(m, h). ''  '' @ m @ nl) (methods srv))"

definition Node_print :: "Node \<Rightarrow> string result" where
  "Node_print n =
     bind_result (peerCount n) (\<lambda>cnt. bind_result (getPeers n) (\<lambda>ps.
     Inr (nl @ box_tl @ bars 42 @ box_tr @ nl @
     box_v @ ''  P2P NODE                                '' @ box_v @ nl @
     box_l @ bars 42 @ box_r @ nl @
     box_v @ ''  ID      : '' @ nodeId n @ nl @
     box_v @ ''  Address : '' @ listenIP n @ '':'' @ nat_str (unat (listenPort n)) @ nl @
     box_v @ ''  Peers   : '' @ nat_str cnt @ nl @
     box_v @ ''  Status  : '' @ (if running n then green_circle @ '' RUNNING'' else red_circle @ '' STOPPED'') @ nl @
     box_bl @ bars 42 @ box_br @ nl @
     concat (map (\<lambda>p. ''  '' @ arrow @ '' '' @ pc_ip p @ '':'' @ nat_str (unat (pc_port p)) @
       (if pc_outbound p then '' [out]'' else '' [in]'') @ nl) ps))))"

section \<open>What they can do\<close>

text \<open>\<open>printInfo\<close> reads the last block, which every chain has.\<close>

lemma printInfo_ok:
  assumes "chain_inv bc"
  shows "\<exists>s. printInfo bc = Inr s"
  using assms by (auto simp: printInfo_def chain_inv_def)

text \<open>\<open>Node::print\<close> takes the mutex twice, so it must not run in a handler.\<close>

lemma Node_print_locked: "locked n \<Longrightarrow> Node_print n = Inl Undefined_behaviour"
  by (simp add: Node_print_def peerCount_def guarded_def)

lemma Node_print_ok: "\<not> locked n \<Longrightarrow> \<exists>s. Node_print n = Inr s"
  by (simp add: Node_print_def peerCount_def getPeers_def guarded_def)

end
