(* ===== verification/Main_Program.thy ===== *)
theory Main_Program
  imports Command_Line Console Protocol
begin

text \<open>
  \<open>main\<close> of \<open>src/src/main.cpp\<close> as a whole: its statements in order, over the steps of \<open>Command_Line\<close>
  and the print functions of \<open>Console\<close>. It yields the text that \<open>main\<close> and the print functions it
  calls write, and how it ends: it returns, waits for ever in mining mode, ends with an exception
  nobody catches, or never leaves a mining loop. What the components write on their own is left
  out. The network step runs without the threads it starts (\<open>Node_Threads\<close>).
\<close>

section \<open>Writing and stopping\<close>

datatype halt = Throws cxx_error | Never_ends

datatype finish = Returned int | Waits

type_synonym 'a console = "string \<times> (halt + 'a)"

definition ret :: "'a \<Rightarrow> 'a console" where "ret x = ([], Inr x)"

definition say :: "string \<Rightarrow> unit console" where "say t = (t, Inr ())"

definition from_result :: "'a result \<Rightarrow> 'a console" where
  "from_result r = ([], case r of Inl e \<Rightarrow> Inl (Throws e) | Inr x \<Rightarrow> Inr x)"

definition from_loop :: "'a option \<Rightarrow> 'a console" where
  "from_loop r = ([], case r of None \<Rightarrow> Inl Never_ends | Some x \<Rightarrow> Inr x)"

definition bind_console :: "'a console \<Rightarrow> ('a \<Rightarrow> 'b console) \<Rightarrow> 'b console" where
  "bind_console m f =
     (case m of
        (t, Inl h) \<Rightarrow> (t, Inl h)
      | (t, Inr x) \<Rightarrow> (case f x of (t', r) \<Rightarrow> (t @ t', r)))"

definition andthen :: "string \<Rightarrow> 'a console \<Rightarrow> 'a console" where
  "andthen t m = bind_console (say t) (\<lambda>_. m)"

lemma andthen_simp [simp]: "andthen t m = (t @ fst m, snd m)"
  by (simp add: andthen_def bind_console_def say_def split: prod.splits)

lemma bind_console_simps [simp]:
  "bind_console (ret x) f = f x"
  "bind_console (from_result (Inr x)) f = f x"
  "bind_console (from_result (Inl e)) f = ([], Inl (Throws e))"
  "bind_console (from_loop (Some x)) f = f x"
  "bind_console (from_loop None) f = ([], Inl Never_ends)"
  by (simp_all add: bind_console_def ret_def from_result_def from_loop_def split: prod.splits)

lemma snd_bind_console:
  "snd (bind_console m f) = (case snd m of Inl h \<Rightarrow> Inl h | Inr x \<Rightarrow> snd (f x))"
  by (auto simp: bind_console_def split: prod.splits sum.splits)

section \<open>Fixed texts\<close>

definition heavy :: string where "heavy = utf8 [0xE2, 0x94, 0x81]"
definition dash :: string where "dash = utf8 [0xE2, 0x80, 0x94]"

text \<open>The letters of the banner, one character for each of its box characters.\<close>

fun art_char :: "char \<Rightarrow> string" where
  "art_char c =
     (if c = CHR ''#'' then utf8 [0xE2, 0x96, 0x88]
      else if c = CHR ''='' then bars 1
      else if c = CHR ''|'' then box_v
      else if c = CHR ''7'' then box_tr
      else if c = CHR ''r'' then box_tl
      else if c = CHR ''J'' then box_br
      else if c = CHR ''L'' then box_bl
      else [c])"

definition art :: "string \<Rightarrow> string" where "art s = concat (map art_char s)"

definition banner :: string where
  "banner =
     esc @ ''[36m'' @ nl @
     art ''######7 #######7##7  ##7 ######7 ######7 ##7###7   ##7'' @ nl @
     art ''##r==##7##r====JL##7##rJ##r====J##r===##7##|####7  ##|'' @ nl @
     art ''######rJ#####7   L###rJ ##|     ##|   ##|##|##r##7 ##|'' @ nl @
     art ''##r==##7##r==J   ##r##7 ##|     ##|   ##|##|##|L##7##|'' @ nl @
     art ''##|  ##|#######7##rJ ##7L######7L######rJ##|##| L####|'' @ nl @
     art ''L=J  L=JL======JL=J  L=J L=====J L=====J L=JL=J  L===J'' @ esc @ ''[0m'' @ nl @
     esc @ ''[33m'' @ ''  '' @ box_tl @ bars 55 @ box_tr @ nl @
     ''  '' @ box_v @ ''  RexCoin (RXC) v0.3.0  |  Rex Network                '' @ box_v @ nl @
     ''  '' @ box_v @ ''  Real P2P TCP Network  |  Persistent LevelDB Storage  '' @ box_v @ nl @
     ''  '' @ box_v @ ''  secp256k1 ECDSA  |  RIPEMD160  |  Base58Check       '' @ box_v @ nl @
     ''  '' @ box_bl @ bars 55 @ box_br @ nl @
     esc @ ''[0m'' @ nl"

definition sec :: "string \<Rightarrow> string" where
  "sec t =
     nl @ esc @ ''[35m'' @ concat (replicate 3 heavy) @ '' '' @ t @ '' '' @ concat (replicate 3 heavy) @ esc @ ''[0m'' @ nl"

definition final_text :: "Config \<Rightarrow> string" where
  "final_text cfg =
     nl @ esc @ ''[32m'' @ box_tl @ bars 52 @ box_tr @ nl @
     box_v @ ''  '' @ yes_mark @ '' RexCoin v0.3.0 '' @ dash @ '' Real Blockchain Node          '' @ box_v @ nl @
     box_v @ ''  '' @ yes_mark @ '' Persistent Storage '' @ arrow @ '' '' @ cfg_dataDir cfg @ ''/chaindata'' @ nl @
     box_v @ ''  '' @ yes_mark @ '' Real P2P TCP Network '' @ arrow @ '' port '' @
       nat_str (unat (cfg_p2pPort cfg)) @ ''            '' @ box_v @ nl @
     box_v @ ''  '' @ yes_mark @ '' Real secp256k1 ECDSA Crypto                    '' @ box_v @ nl @
     box_v @ ''  '' @ yes_mark @ '' Real SHA-256 PoW Mining                        '' @ box_v @ nl @
     box_v @ ''                                                    '' @ box_v @ nl @
     box_v @ ''  To connect 2 nodes:                               '' @ box_v @ nl @
     box_v @ ''  Node 1: ./rexcoin --port 8333                     '' @ box_v @ nl @
     box_v @ ''  Node 2: ./rexcoin --port 8334 --connect           '' @ box_v @ nl @
     box_v @ ''           127.0.0.1:8333                           '' @ box_v @ nl @
     box_bl @ bars 52 @ box_br @ nl @
     esc @ ''[0m'' @ nl"

definition started_text :: "Config \<Rightarrow> string" where
  "started_text cfg =
     esc @ ''[32m['' @ check_mark @ ''] P2P Node started on port '' @ nat_str (unat (cfg_p2pPort cfg)) @ esc @ ''[0m'' @ nl"

definition seeds_text :: string where
  "seeds_text =
     ''  Seed nodes available:'' @ nl @
     concat (map (\<lambda>s. ''    '' @ arrow @ '' '' @ host s @ '':'' @ nat_str (unat (port s)) @ nl) getSeeds)"

definition verdict :: "string \<Rightarrow> string \<Rightarrow> bool \<Rightarrow> string" where
  "verdict good bad ok =
     (if ok then esc @ ''[32m['' @ check_mark @ ''] '' @ good else esc @ ''[31m['' @ cross_mark @ ''] '' @ bad) @ esc @
       ''[0m'' @ nl"

definition bind_failed_text :: string where
  "bind_failed_text = esc @ ''[33m[!] P2P failed to bind (port in use?)'' @ esc @ ''[0m'' @ nl"

definition waiting_text :: string where
  "waiting_text = esc @ ''[33m[Mining mode] Press Ctrl+C to stop'' @ esc @ ''[0m'' @ nl"

text \<open>What the message handler of \<open>main\<close> writes.\<close>

definition message_text :: "string \<Rightarrow> string \<Rightarrow> string \<Rightarrow> string" where
  "message_text peer type payload =
     esc @ ''[36m[P2P] MSG from '' @ take 8 peer @ '': '' @ type @ '' '' @ arrow @ '' '' @ take 40 payload @ esc @ ''[0m'' @ nl"

section \<open>The program\<close>

text \<open>What the program takes from outside.\<close>

record ('e, 'w) main_env =
  m_ssl :: "'e openssl"
  m_px :: "'w posix"
  m_sort :: "(Transaction \<Rightarrow> Transaction \<Rightarrow> bool) \<Rightarrow> Transaction list \<Rightarrow> Transaction list"
  m_disk :: "(string, string) umap"
  m_start_clock :: "int \<times> int \<times> int"
  m_entropy :: "'e \<times> 'e \<times> 'e \<times> 'e"
  m_block_clock :: "int \<times> int \<times> int \<times> int \<times> int"
  m_draw :: "nat \<Rightarrow> nat"
  m_node_id :: string

text \<open>Step 5, with what it writes.\<close>

definition main_p2p ::
  "('w, 'z) posix_scheme \<Rightarrow> Config \<Rightarrow> string \<Rightarrow> Node \<times> 'w \<Rightarrow> (bool \<times> Node \<times> 'w) console" where
  "main_p2p px cfg hash nw =
     (case Node_start px nw of (p2pOk, n, w) \<Rightarrow>
        if \<not> p2pOk then andthen bind_failed_text (ret (False, n, w))
        else andthen (started_text cfg)
          (bind_console
            (if cfg_connectTo cfg \<noteq> [] then
               bind_console (from_result (connect_target (cfg_connectTo cfg))) (\<lambda>(peerIP, peerPort).
               bind_console (from_result (connectToPeer px peerIP peerPort (n, w))) (\<lambda>(_, n, w). ret (n, w)))
             else ret (n, w)) (\<lambda>(n, w).
          andthen seeds_text
          (bind_console (from_result (broadcast px ''NEW_BLOCK'' hash (n, w))) (\<lambda>(_, w).
           bind_console (from_result (Node_print n)) (\<lambda>t. andthen t (ret (True, n, w))))))))"

text \<open>Steps 6 to 10 and the end, after step 5 gave \<open>p2pOk\<close> and the node.\<close>

definition main_services ::
  "('e, 'w) main_env \<Rightarrow> Config \<Rightarrow> Wallet \<Rightarrow> Wallet \<Rightarrow> Blockchain \<Rightarrow> bool \<times> Node \<times> 'w \<Rightarrow> finish console" where
  "main_services env cfg walletA walletB bc p2p =
     (case p2p of (p2pOk, nw) \<Rightarrow>
        let addr = fst (deployContract (compile ''SHA256 SSTORE HALT'') (w_address walletA) 100000 um_empty);
            res = main_contract (w_address walletA)
        in andthen (sec ''[6] Persistent Storage Stats'' @ printStats (bdb bc) @ sec ''[7] Smart Contract VM'' @
             ''  Contract: '' @ addr @ nl @
             verdict (''Contract OK (gas='' @ nat_str (unat (gasUsed res)) @ '')'') ''Contract failed'' (halted res) @
             sec ''[8] Privacy (ZK-Proof + Stealth)'' @
             verdict ''ZK-Proof valid!'' ''ZK-Proof failed''
               (main_shielded (m_draw env) (privateKey (keyPair walletA)) (w_address walletB)) @
             sec ''[9] Layer 2 Payment Channel'' @ sec ''[10] API Servers'')
           (bind_console (from_result main_rpc) (\<lambda>r.
            bind_console (from_result (printInfo bc)) (\<lambda>info.
            andthen (''  RPC: '' @ rs_result r @ nl @ sec ''Final Status'' @ info @ final_text cfg)
              (if cfg_mineMode cfg \<and> p2pOk then andthen waiting_text (ret Waits)
               else bind_console (from_result (Node_stop (m_px env) nw)) (\<lambda>_. ret (Returned 0)))))))"

text \<open>Steps 3 to 5, from the chain and the wallets on.\<close>

definition main_steps ::
  "('e, 'w) main_env \<Rightarrow> Config \<Rightarrow> Wallet \<Rightarrow> Wallet \<Rightarrow> Wallet \<Rightarrow> Blockchain \<Rightarrow> 'w \<Rightarrow> finish console" where
  "main_steps env cfg walletMiner walletA walletB bc w =
     (let (now_cb, now1, now2, now_adj, now_block) = m_block_clock env;
          e_sig = snd (snd (snd (m_entropy env)));
          tx1 = demo_transfer now1 5 (w_address walletA);
          tx2 = demo_transfer now2 2 (w_address walletB)
      in andthen (sec ''[3] Real ECDSA Signature'')
         (bind_console (from_result (main_signature (m_ssl env) e_sig walletA)) (\<lambda>ok.
          andthen (verdict ''ECDSA valid!'' ''ECDSA failed'' ok @ sec ''[4] Mempool + Mining'' @
            Mempool_print (snd (Mempool_add tx2 (snd (Mempool_add tx1 um_empty)))))
         (bind_console (from_loop (main_mining (m_sort env) now_cb now1 now2 now_adj now_block
            (w_address walletMiner) (w_address walletA) (w_address walletB) bc)) (\<lambda>(bc, pool).
          bind_console (from_result (printInfo bc)) (\<lambda>info.
          andthen (info @ sec ''[5] Real P2P Network (POSIX TCP Sockets)'')
         (bind_console (main_p2p (m_px env) cfg (b_hash (getLatestBlock bc))
            (Node_new ''0.0.0.0'' (cfg_p2pPort cfg) (m_node_id env), w))
            (main_services env cfg walletA walletB bc))))))))"

definition main_program :: "('e, 'w) main_env \<Rightarrow> string list \<Rightarrow> 'w \<Rightarrow> finish console" where
  "main_program env args w =
     andthen banner
     (bind_console (from_result (parse_args args Config_default)) (\<lambda>cfg.
      let (now0, now_tx, now) = m_start_clock env; (e_miner, e_A, e_B, _) = m_entropy env
      in andthen (sec ''[1] Persistent Blockchain (LevelDB)'')
         (bind_console (from_loop (Blockchain_new (m_disk env) now0 now_tx now (cfg_dataDir cfg))) (\<lambda>r.
          bind_console (from_result r) (\<lambda>bc.
          bind_console (from_result (printInfo bc)) (\<lambda>info.
          andthen (info @ sec ''[2] Real Wallets (secp256k1 + RIPEMD160 + Base58Check)'')
         (bind_console (from_result (Wallet_new (m_ssl env) e_miner)) (\<lambda>walletMiner.
          bind_console (from_result (Wallet_new (m_ssl env) e_A)) (\<lambda>walletA.
          bind_console (from_result (Wallet_new (m_ssl env) e_B)) (\<lambda>walletB.
          andthen (Wallet_print walletMiner @ Wallet_print walletA)
            (main_steps env cfg walletMiner walletA walletB bc w)))))))))))"

section \<open>The steps do not fail\<close>

lemma broadcast_unlocked: "\<not> locked n \<Longrightarrow> \<exists>r. broadcast px type payload (n, w) = Inr r"
  by (simp add: broadcast_def guarded_def Let_def)

lemma connect_unlocked:
  assumes "\<not> locked n"
  shows "\<exists>b n' w'. connectToPeer px ip pt (n, w) = Inr (b, n', w') \<and> \<not> locked n'"
  using assms
  by (auto simp: connectToPeer_def guarded_def addPeer_def sendToPeer_def Let_def split: prod.splits)

lemma start_fields:
  assumes "Node_start px (n, w) = (b, n', w')"
  shows "locked n' = locked n" and "b \<or> running n' = running n"
  using assms by (auto simp: Node_start_def Let_def split: prod.splits if_splits)

lemma stop_unlocked: "\<not> locked n \<Longrightarrow> \<exists>r. Node_stop px (n, w) = Inr r"
  by (auto simp: Node_stop_def guarded_def Let_def)

text \<open>Step 5: an address that cannot be read throws; nothing else does.\<close>

lemma main_p2p_outcome:
  assumes "Node_start px (n, w) = (p2pOk, n1, w1)" and "\<not> locked n"
  shows "\<not> p2pOk \<Longrightarrow> snd (main_p2p px cfg hash (n, w)) = Inr (False, n1, w1)"
    and "p2pOk \<Longrightarrow> cfg_connectTo cfg \<noteq> [] \<Longrightarrow> connect_target (cfg_connectTo cfg) = Inl e \<Longrightarrow>
      snd (main_p2p px cfg hash (n, w)) = Inl (Throws e)"
    and "p2pOk \<Longrightarrow> cfg_connectTo cfg = [] \<or> connect_target (cfg_connectTo cfg) = Inr t \<Longrightarrow>
      \<exists>n' w'. snd (main_p2p px cfg hash (n, w)) = Inr (True, n', w') \<and> \<not> locked n'"
proof -
  have n1: "\<not> locked n1" using start_fields(1) [OF assms(1)] assms(2) by simp
  show "\<not> p2pOk \<Longrightarrow> snd (main_p2p px cfg hash (n, w)) = Inr (False, n1, w1)"
    and "p2pOk \<Longrightarrow> cfg_connectTo cfg \<noteq> [] \<Longrightarrow> connect_target (cfg_connectTo cfg) = Inl e \<Longrightarrow>
      snd (main_p2p px cfg hash (n, w)) = Inl (Throws e)"
    by (simp_all add: main_p2p_def assms(1) ret_def snd_bind_console)
  assume ok: "p2pOk" and target: "cfg_connectTo cfg = [] \<or> connect_target (cfg_connectTo cfg) = Inr t"
  have rest: "\<exists>n' w'. snd (bind_console (from_result (broadcast px ''NEW_BLOCK'' hash (n2, w2))) (\<lambda>(_, w).
      bind_console (from_result (Node_print n2)) (\<lambda>t. andthen t (ret (True, n2, w))))) = Inr (True, n', w') \<and> \<not> locked n'"
    if "\<not> locked n2" for n2 w2
    using broadcast_unlocked [OF that, of px "''NEW_BLOCK''" hash w2] Node_print_ok [OF that] that
    by (auto simp: ret_def)
  show "\<exists>n' w'. snd (main_p2p px cfg hash (n, w)) = Inr (True, n', w') \<and> \<not> locked n'"
  proof (cases "cfg_connectTo cfg = []")
    case True
    with rest [OF n1, of w1] ok show ?thesis by (simp add: main_p2p_def assms(1))
  next
    case False
    obtain ip pt where t: "t = (ip, pt)" by fastforce
    obtain b n2 w2 where "connectToPeer px ip pt (n1, w1) = Inr (b, n2, w2)" "\<not> locked n2"
      using connect_unlocked [OF n1, of px ip pt w1] by blast
    with rest [of n2 w2] ok target False t show ?thesis by (simp add: main_p2p_def assms(1))
  qed
qed

lemma main_signature_total:
  assumes "openssl_correct ssl" and "Wallet_new ssl e = Inr w"
  shows "\<exists>ok. main_signature ssl e' w = Inr ok"
proof -
  let ?h = "SHA256_hash ''RexCoin_test_tx_2026''"
  have "is_hex (privateKey (keyPair w))"
    by (simp add: Wallet_new_keys [OF assms(2)] ECDSA_generateKeyPair_def split_def Let_def)
  then obtain sig where sig: "Wallet_signTransaction ssl e' w ?h = Inr sig"
    using hexToBytes_hex [of "privateKey (keyPair w)"] hexToBytes_hex [of ?h]
    by (fastforce simp: Wallet_signTransaction_def ECDSA_sign_def split: option.split)
  show ?thesis
  proof (cases "sig_r sig = []")
    case True
    with sig show ?thesis
      by (intro exI [of _ False]) (simp add: main_signature_def Wallet_verifySignature_def ECDSA_verify_def)
  next
    case False
    with main_signature_valid [OF assms sig] show ?thesis by blast
  qed
qed

lemma main_services_end:
  assumes "chain_inv bc" and "\<not> locked n"
  shows "snd (main_services env cfg wA wB bc (p2pOk, n, w)) =
           Inr (if cfg_mineMode cfg \<and> p2pOk then Waits else Returned 0)"
proof -
  obtain r where r: "main_rpc = Inr r" using main_rpc_answers by blast
  obtain info where info: "printInfo bc = Inr info" using printInfo_ok [OF assms(1)] by blast
  obtain r' where stop: "Node_stop (m_px env) (n, w) = Inr r'" using stop_unlocked [OF assms(2), of "m_px env" w] by blast
  show ?thesis
    by (simp add: main_services_def Let_def r info stop) (simp add: ret_def)
qed

definition p2p_end :: "bool \<Rightarrow> Config \<Rightarrow> halt + finish" where
  "p2p_end p2pOk cfg =
     (if \<not> p2pOk then Inr (Returned 0)
      else case (if cfg_connectTo cfg = [] then Inr ([], 0) else connect_target (cfg_connectTo cfg)) of
        Inl e \<Rightarrow> Inl (Throws e)
      | Inr _ \<Rightarrow> Inr (if cfg_mineMode cfg then Waits else Returned 0))"

lemma p2p_services_end:
  assumes "chain_inv bc" and "\<not> locked n" and "Node_start (m_px env) (n, w) = (p2pOk, n1, w1)"
  shows "snd (bind_console (main_p2p (m_px env) cfg hash (n, w)) (main_services env cfg wA wB bc)) = p2p_end p2pOk cfg"
proof -
  note step5 = main_p2p_outcome [OF assms(3,2), where cfg = cfg and hash = hash]
  have n1: "\<not> locked n1" using start_fields(1) [OF assms(3)] assms(2) by simp
  consider "\<not> p2pOk" | e where "p2pOk" "cfg_connectTo cfg \<noteq> []" "connect_target (cfg_connectTo cfg) = Inl e"
    | t where "p2pOk" "cfg_connectTo cfg = [] \<or> connect_target (cfg_connectTo cfg) = Inr t"
    by (cases "connect_target (cfg_connectTo cfg)") auto
  then show ?thesis
  proof cases
    case 1
    with step5(1) main_services_end [OF assms(1) n1, of env cfg wA wB False w1] show ?thesis by (simp add: snd_bind_console p2p_end_def)
  next
    case (2 e)
    with step5(2) show ?thesis by (simp add: snd_bind_console p2p_end_def)
  next
    case (3 t)
    then obtain n' w' where "snd (main_p2p (m_px env) cfg hash (n, w)) = Inr (True, n', w')" "\<not> locked n'"
      using step5(3) by blast
    with 3 main_services_end [OF assms(1), of n' env cfg wA wB True w'] show ?thesis
      by (auto simp: snd_bind_console p2p_end_def)
  qed
qed

lemma main_program_end:
  assumes "openssl_correct (m_ssl env)" and "std_sort (m_sort env)" and "um_ok (m_disk env)"
    and "m_start_clock env = (now0, now_tx, now)" and "m_entropy env = (e1, e2, e3, e4)"
    and "m_block_clock env = (now_cb, now1, now2, now_adj, now_block)"
    and "parse_args args Config_default = Inr cfg"
    and "Blockchain_new (m_disk env) now0 now_tx now (cfg_dataDir cfg) = Some (Inr bc)"
    and "Wallet_new (m_ssl env) e1 = Inr wM" and "Wallet_new (m_ssl env) e2 = Inr wA" and "Wallet_new (m_ssl env) e3 = Inr wB"
    and "main_mining (m_sort env) now_cb now1 now2 now_adj now_block (w_address wM) (w_address wA) (w_address wB) bc
           = Some (bc', pool)"
    and "Node_start (m_px env) (Node_new ''0.0.0.0'' (cfg_p2pPort cfg) (m_node_id env), w) = (p2pOk, n, w1)"
  shows "snd (main_program env args w) = p2p_end p2pOk cfg"
proof -
  note inv = Blockchain_new_inv(1) [OF assms(8,3)]
  note inv' = main_steps_result(2) [OF inv assms(2,12)]
  obtain info where info: "printInfo bc = Inr info" using printInfo_ok [OF inv] by blast
  obtain info' where info': "printInfo bc' = Inr info'" using printInfo_ok [OF inv'] by blast
  obtain ok where ok: "main_signature (m_ssl env) e4 wA = Inr ok"
    using main_signature_total [OF assms(1,10)] by blast
  have "\<not> locked (Node_new ''0.0.0.0'' (cfg_p2pPort cfg) (m_node_id env))" by (simp add: Node_new_def)
  note rest = p2p_services_end [OF inv' this assms(13)]
  have "snd (main_steps env cfg wM wA wB bc w) = p2p_end p2pOk cfg"
    using rest by (simp add: main_steps_def Let_def assms(5,6,12) ok info')
  then show ?thesis
    by (simp add: main_program_def Let_def assms(4,5,7-11) info)
qed

section \<open>Properties\<close>



end
