(* ===== verification/Test_Vectors.thy ===== *)
theory Test_Vectors
  imports SHA256
begin

text \<open>
  The hash the repository's own test expects (\<open>src/tests/core_test.cpp\<close>, \<open>test_sha256\<close>): the
  SHA-256 of \<open>hello\<close>, computed from the definitions of \<open>SHA256\<close> sixteen rounds at a time.
\<close>

definition hello_schedule :: "u32 list" where
  "hello_schedule = [0x68656c6c, 0x6f800000, 0x00000000, 0x00000000, 0x00000000, 0x00000000,
    0x00000000, 0x00000000, 0x00000000, 0x00000000, 0x00000000, 0x00000000,
    0x00000000, 0x00000000, 0x00000000, 0x00000028, 0x7594884c, 0x6f910000,
    0xd532d15a, 0xa01bde7a, 0x32b37c8b, 0x94da02f9, 0xd1d853f8, 0xb69b56c2,
    0x934804c3, 0x96c77ca5, 0xa2f94846, 0x849744ef, 0x21dd3e6a, 0x1ca36b00,
    0x3f957a61, 0x2079cf86, 0x6bfc7c3b, 0x0c209d4b, 0x2228225c, 0xee1ad25b,
    0xc5d09850, 0x07331882, 0x977423c5, 0xa667d6f9, 0xbc044b46, 0x95859031,
    0x5c98ca62, 0x64860c1b, 0x7ee7c777, 0x16c55872, 0x7cf67d29, 0x4857c138,
    0xa37f4a81, 0x35f8fd03, 0xf16ffce2, 0x6d549f9c, 0xa12ff314, 0xf1818db4,
    0xf9cad136, 0xc960d70c, 0x3a18f5f8, 0xf5fdf2ba, 0xe79a1b2a, 0x5dea4345,
    0x701cc2f2, 0x3c9b25e2, 0xc9670b22, 0x3e3cb561]"

definition hello_state :: "nat \<Rightarrow> sha_state" where
  "hello_state n = [
    (0x6a09e667, 0xbb67ae85, 0x3c6ef372, 0xa54ff53a,
      0x510e527f, 0x9b05688c, 0x1f83d9ab, 0x5be0cd19),
    (0x55bd9162, 0x8d786e86, 0x99449713, 0x38f5bce3,
      0xede948a5, 0x87538883, 0x611ea7ce, 0xbc76d585),
    (0x033c17ef, 0xc44c9f98, 0x0d94f00c, 0xc4b9f5b9,
      0x3fb4bb4e, 0xae95a0dc, 0x163acf8e, 0x9a0b4446),
    (0x92aaef10, 0xf5e75fc1, 0xb7182ef2, 0xda1b95a3,
      0x88ea2409, 0x6042168a, 0x15ac92b5, 0x3050bcb4),
    (0xc2e86753, 0xa448f489, 0xea7947b8, 0x2069ed64,
      0xca07cbdd, 0x84a1d9d2, 0x538059b7, 0x37aacb0b)] ! n"

lemma hello_pad: "SHA256_pad ''hello'' = [104, 101, 108, 108, 111, 128, 0, 0, 0, 0, 0, 0, 0, 0, 0, 0, 0, 0, 0, 0, 0, 0, 0, 0, 0, 0, 0, 0, 0, 0, 0, 0, 0, 0, 0, 0, 0, 0, 0, 0, 0, 0, 0, 0, 0, 0, 0, 0, 0, 0, 0, 0, 0, 0, 0, 0, 0, 0, 0, 0, 0, 0, 0, 40]"
  by code_simp

lemma hello_schedule: "schedule (SHA256_pad ''hello'') = hello_schedule"
  unfolding hello_pad by code_simp

lemma hello_rounds_0:
  "fold round256 (take 16 (drop 0 (zip SHA256_K hello_schedule))) (hello_state 0) = hello_state 1"
  by code_simp

lemma hello_rounds_1:
  "fold round256 (take 16 (drop 16 (zip SHA256_K hello_schedule))) (hello_state 1) = hello_state 2"
  by code_simp

lemma hello_rounds_2:
  "fold round256 (take 16 (drop 32 (zip SHA256_K hello_schedule))) (hello_state 2) = hello_state 3"
  by code_simp

lemma hello_rounds_3:
  "fold round256 (take 16 (drop 48 (zip SHA256_K hello_schedule))) (hello_state 3) = hello_state 4"
  by code_simp

text \<open>The rounds in four chunks.\<close>

lemma fold_chunk: "fold f (drop n xs) s = fold f (drop (n + k) xs) (fold f (take k (drop n xs)) s)"
proof -
  have "fold f (drop n xs) s = fold f (take k (drop n xs) @ drop k (drop n xs)) s"
    by (simp only: append_take_drop_id)
  then show ?thesis by (simp add: add.commute)
qed

lemma hello_rounds: "fold round256 (zip SHA256_K hello_schedule) (hello_state 0) = hello_state 4"
proof -
  define z where "z = zip SHA256_K hello_schedule"
  have "length SHA256_K = 64" by code_simp
  moreover have "length hello_schedule = 64" by code_simp
  ultimately have z64: "drop 64 z = []" by (simp add: z_def)
  note rounds = hello_rounds_0 hello_rounds_1 hello_rounds_2 hello_rounds_3
  note chunk = rounds [folded z_def]
  have "fold round256 (drop 0 z) (hello_state 0) = fold round256 (drop 16 z) (hello_state 1)"
    using fold_chunk [of round256 0 z "hello_state 0" 16] unfolding chunk add_0 .
  also have "\<dots> = fold round256 (drop 32 z) (hello_state 2)"
    using fold_chunk [of round256 16 z "hello_state 1" 16] unfolding chunk by (simp only: numeral_plus_numeral semiring_norm)
  also have "\<dots> = fold round256 (drop 48 z) (hello_state 3)"
    using fold_chunk [of round256 32 z "hello_state 2" 16] unfolding chunk by (simp only: numeral_plus_numeral semiring_norm)
  also have "\<dots> = fold round256 (drop 64 z) (hello_state 4)"
    using fold_chunk [of round256 48 z "hello_state 3" 16] unfolding chunk by (simp only: numeral_plus_numeral semiring_norm)
  finally show ?thesis unfolding z64 z_def [symmetric] by (simp only: drop_0 fold_simps)
qed

lemma hello_sum: "add_state SHA256_H0 (hello_state 4) =
    (0x2cf24dba, 0x5fb0a30e, 0x26e83b2a, 0xc5b9e29e, 0x1b161e5c, 0x1fa7425e, 0x73043362, 0x938b9824)"
  by code_simp

lemma digit_chars:
  "digit_char 0 = CHR ''0''" "digit_char 1 = CHR ''1''" "digit_char (Suc 0) = CHR ''1''" "digit_char 2 = CHR ''2''"
  "digit_char 3 = CHR ''3''" "digit_char 4 = CHR ''4''" "digit_char 5 = CHR ''5''" "digit_char 6 = CHR ''6''"
  "digit_char 7 = CHR ''7''" "digit_char 8 = CHR ''8''" "digit_char 9 = CHR ''9''" "digit_char 10 = CHR ''a''"
  "digit_char 11 = CHR ''b''" "digit_char 12 = CHR ''c''" "digit_char 13 = CHR ''d''" "digit_char 14 = CHR ''e''"
  "digit_char 15 = CHR ''f''"
  by code_simp+

lemma hello_words:
  "hex_setw 8 (unat (0x2cf24dba :: u32)) = ''2cf24dba''"
  "hex_setw 8 (unat (0x5fb0a30e :: u32)) = ''5fb0a30e''"
  "hex_setw 8 (unat (0x26e83b2a :: u32)) = ''26e83b2a''"
  "hex_setw 8 (unat (0xc5b9e29e :: u32)) = ''c5b9e29e''"
  "hex_setw 8 (unat (0x1b161e5c :: u32)) = ''1b161e5c''"
  "hex_setw 8 (unat (0x1fa7425e :: u32)) = ''1fa7425e''"
  "hex_setw 8 (unat (0x73043362 :: u32)) = ''73043362''"
  "hex_setw 8 (unat (0x938b9824 :: u32)) = ''938b9824''"
  by (simp_all add: hex_setw_def setw_fill_def num_str.simps digit_chars)

lemma hello_hex: "SHA256_toHex (0x2cf24dba, 0x5fb0a30e, 0x26e83b2a, 0xc5b9e29e, 0x1b161e5c, 0x1fa7425e, 0x73043362, 0x938b9824) =
    ''2cf24dba5fb0a30e26e83b2ac5b9e29e1b161e5c1fa7425e73043362938b9824''"
  by (simp only: SHA256_toHex.simps list.map hello_words concat.simps append.simps append_Nil2)

theorem SHA256_hello:
  "SHA256_hash ''hello'' = ''2cf24dba5fb0a30e26e83b2ac5b9e29e1b161e5c1fa7425e73043362938b9824''"
proof -
  have "length (SHA256_pad ''hello'') = 64" unfolding hello_pad by simp
  then have "blocks 64 (SHA256_pad ''hello'') = [SHA256_pad ''hello'']"
    by (subst blocks.simps, subst blocks.simps) auto
  moreover have "hello_state 0 = SHA256_H0" by (simp add: hello_state_def SHA256_H0_def)
  ultimately show ?thesis
    using hello_rounds hello_sum hello_hex
    by (simp only: SHA256_hash_def fold_simps compress256_def hello_schedule)
qed

end
