(* ===== verification/Repo_Tests.thy ===== *)
theory Repo_Tests
  imports Test_Vectors Demo_Chain Compiler Protocol Node_Threads
begin

text \<open>
  The assertions of the repository's tests (\<open>src/tests\<close>), on the model: those of \<open>core_test.cpp\<close>,
  \<open>vm_test.cpp\<close> and, but for one, \<open>network_test.cpp\<close> hold. A failed connection leaves the table of
  peers empty, while \<open>test_node\<close> expects a peer after connecting to an address of a private network.
  The digest of \<open>test_sha256\<close> is in \<open>Test_Vectors\<close>; what \<open>crypto_test.cpp\<close> expects of addresses and
  of the digest of \<open>abc\<close> is contradicted by \<open>wallet_well_formed\<close> and \<open>digest_length\<close>.
\<close>

section \<open>core_test.cpp\<close>

lemma test_merkle:
  fixes txs
  defines "txs \<equiv> [''tx1'', ''tx2'', ''tx3'', ''tx4'']"
  shows "length (buildRoot txs) = 64" and "verifyProof (buildRoot txs) ''tx1'' (generateProof txs ''tx1'')"
proof -
  have "reduce_layers [a, b, c, d] = hashPair (hashPair a b) (hashPair c d)" for a b c d
    by (simp add: reduce_layers.simps [of "[a, b, c, d]"] reduce_layers.simps [of "[hashPair a b, hashPair c d]"]
        reduce_layers.simps [of "[hashPair (hashPair a b) (hashPair c d)]"] pad_layer_def)
  then show "length (buildRoot txs) = 64"
    unfolding txs_def by (simp add: buildRoot_def hashPair_def)
  show "verifyProof (buildRoot txs) ''tx1'' (generateProof txs ''tx1'')"
    using verifyProof_first [of txs] unfolding txs_def list.sel by blast
qed

lemma test_transaction:
  "isCoinbase (createCoinbase now ''RXCTestAddress'' 50 0)"
  "txHash (createCoinbase now ''RXCTestAddress'' 50 0) \<noteq> []"
  "Transaction_isValid (createCoinbase now ''RXCTestAddress'' 50 0)"
  by (simp_all add: createCoinbase_def Transaction_isValid_def Transaction_calculateHash_def Let_def)

lemma test_blockchain:
  assumes "Blockchain_new um_empty now0 now_tx now dir = Some (Inr bc)"
    and "addBlock now_adj now' [createCoinbase t ''RXCMiner'' 50 1] bc = Some bc'"
  shows "getHeight bc = 1" and "getHeight bc' = 2" and "Blockchain_isValid bc'"
proof -
  have reach: "chain_reach bc 1 bc" by (rule chain_reach.start [OF assms(1)]) simp
  note reach' = chain_reach.add [OF reach assms(2)]
  show "getHeight bc = 1" and "getHeight bc' = 2"
    using chain_reach_inv [OF reach] chain_reach_inv [OF reach'] by simp_all
  show "Blockchain_isValid bc'"
    using chain_reach_inv [OF reach'] unfolding chain_inv_def by blast
qed

section \<open>vm_test.cpp\<close>

lemma test_words: "compile ''SHA256 HALT'' = compile (unwords (map mnemonic_of [OpSHA256, OpHALT]))"
  "compile ''HALT'' = compile (unwords (map mnemonic_of [OpHALT]))"
  by (simp_all add: mnemonic_of_def mnemonics_def)

lemma test_vm_deploy:
  "take 12 (fst (deployContract (compile ''HALT'') ''RXCOwner'' 100000 vm)) = ''RXC_CONTRACT''"
  by (simp add: deployContract_def generateAddress_def Let_def)

lemma test_vm_execute:
  fixes vm
  defines "deployed \<equiv> deployContract (compile ''SHA256 HALT'') ''RXCOwner'' 100000 vm"
  defines "s \<equiv> vm_call (fst deployed) ''test_input'' 100000 (snd deployed)"
  shows "halted s" and "\<not> reverted s" and "unat (gasUsed s) = 31"
proof -
  have ok: "\<forall>op\<in>set [OpSHA256, OpHALT]. compilable op" "gas_of (executed [OpSHA256, OpHALT]) \<le> unat (100000 :: u64)"
    by (simp_all add: compilable_def mnemonics_def mnemonic_of_def stops_def)
  have s: "s = vm_execute (compile (unwords (map mnemonic_of [OpSHA256, OpHALT]))) ''test_input'' 100000"
    unfolding s_def deployed_def deploy_call by (simp only: test_words)
  show "halted s" "unat (gasUsed s) = 31"
    using execute_compiled(1,2) [OF ok, of "''test_input''"] by (simp_all add: s stops_def)
  show "\<not> reverted s"
    using execute_spec [of 100000 "compile (unwords (map mnemonic_of [OpSHA256, OpHALT]))" "''test_input''"]
      compile_program [OF ok(1)] ok(2) by (simp add: s stops_def)
qed

text \<open>A hundred \<open>SHA256\<close> and a \<open>HALT\<close> on 50 units of gas.\<close>

lemma test_gas_limit:
  fixes vm
  defines "deployed \<equiv> deployContract (compile (unwords (replicate 100 ''SHA256'' @ [''HALT'']))) ''RXCOwner'' 1000000 vm"
  shows "reverted (vm_call (fst deployed) ''input'' 50 (snd deployed))"
proof -
  let ?ops = "replicate 100 OpSHA256 @ [OpHALT]"
  have ok: "\<forall>op\<in>set ?ops. compilable op"
    by (simp add: compilable_def mnemonics_def mnemonic_of_def)
  have "executed (replicate n OpSHA256 @ [OpHALT]) = replicate n OpSHA256 @ [OpHALT]" for n
    by (induction n) (simp_all add: stops_def)
  moreover have "gas_of (replicate n OpSHA256 @ [OpHALT]) = n * 30 + 1" for n
    by (induction n) simp_all
  ultimately have "\<not> gas_of (executed ?ops) \<le> unat (50 :: u64)" by simp
  then have "reverted (vm_execute (compile (unwords (map mnemonic_of ?ops))) ''input'' 50)"
    using execute_spec [of 50 "compile (unwords (map mnemonic_of ?ops))" "''input''"] compile_program [OF ok] by simp
  moreover have "map mnemonic_of ?ops = replicate 100 ''SHA256'' @ [''HALT'']"
    by (simp add: mnemonic_of_def mnemonics_def)
  ultimately show ?thesis by (simp only: deployed_def deploy_call)
qed

section \<open>network_test.cpp\<close>

lemma test_protocol:
  "m_type makePing = PING" "m_type (makePong makePing) = PONG" "m_type (makeVersion 100) = VERSION"
  by (simp_all add: makePing_def makePong_def makeVersion_def makeMsg_def)

lemma test_peer_manager:
  fixes t1 t2
  assumes "std_sort sort_by"
  defines "pm \<equiv> PeerManager_addPeer t2 ''node_def'' (PeerManager_addPeer t1 ''node_abc'' [])"
  shows "PeerManager_count pm = 2"
    and "\<exists>pm' best. updateScore ''node_abc'' 50 pm = Inr pm' \<and> getBestPeers sort_by 1 pm' = Inr [best]
          \<and> ps_nodeId best = ''node_abc'' \<and> PeerManager_count (PeerManager_removePeer ''node_abc'' pm') = 1"
proof -
  show "PeerManager_count pm = 2" by (simp add: pm_def PeerManager_addPeer_def PeerManager_count_def)
  obtain a b where pm: "pm = [a, b]" "ps_nodeId a = ''node_abc''" "ps_nodeId b = ''node_def''"
    "score a = 100" "score b = 100"
    by (simp add: pm_def PeerManager_addPeer_def)
  define a' where "a' = a\<lparr>score := 150\<rparr>"
  have up: "updateScore ''node_abc'' 50 pm = Inr [a', b]"
    using updateScore_first [of a "''node_abc''" "[]" 50 "[b]"] by (simp add: pm int32_ok_def a'_def)
  obtain best where best: "getBestPeers sort_by 1 [a', b] = Inr best" "length best = 1" "set best \<subseteq> {a', b}"
    "\<forall>x y. x \<in> set best \<and> y \<in> {a', b} \<and> y \<notin> set best \<longrightarrow> score y \<le> score x"
    using getBestPeers_best [OF assms(1), of 1 "[a', b]"] by auto
  then obtain x where x: "best = [x]" "x = a' \<or> x = b" by (cases best) auto
  have "b \<noteq> a'" using pm by (auto simp: a'_def)
  with x best(4) pm have "x = a'" by (auto simp: a'_def)
  with best(1) x(1) up pm show "\<exists>pm' best. updateScore ''node_abc'' 50 pm = Inr pm'
      \<and> getBestPeers sort_by 1 pm' = Inr [best] \<and> ps_nodeId best = ''node_abc''
      \<and> PeerManager_count (PeerManager_removePeer ''node_abc'' pm') = 1"
    by (simp add: PeerManager_count_def PeerManager_removePeer_def a'_def)
qed

text \<open>A connection that is refused adds no peer.\<close>

lemma test_node:
  assumes "\<And>fd w. fst (px_connect px fd ip p w) < 0" and "\<not> locked n"
    and "um_find (peers n) (makePeerId ip p) = None"
  shows "\<exists>w'. connectToPeer px ip p (n, w) = Inr (False, n, w')"
proof -
  have r: "px_connect px fd ip p w = (r, w') \<Longrightarrow> r < 0" for fd w r w'
    using assms(1) [of fd w] by simp
  show ?thesis
    using assms(2,3) r
    by (auto simp: connectToPeer_def guarded_def um_contains_def Let_def split: prod.splits)
qed

end
