(* ===== verification/Spec2Isabelle.thy ===== *)
theory Spec2Isabelle
  imports Demo_Chain Mempool Script PoW Pruning Hybrid Difficulty Compiler Lightning Governance Channel
    Protocol Node_Threads Delivery Payment Api Privacy SHA3 BLS Main_Program Leveldb_Backend Repo_Tests
begin

text \<open>
  RexCoin: a proof-of-work chain in C++17 with a proof-of-stake layer, a contract machine, payment
  channels, governance, privacy features, a peer-to-peer node and an RPC interface. The sources are
  under \<open>src/src\<close>; file names below are relative to it.

  \<^bold>\<open>The program and its theories.\<close>

  Foundations. \<open>Prelude\<close>: integer widths, results and exceptions, the locale \<open>preserved\<close> of a component
  whose operations keep an invariant (with \<open>monotone_run\<close>), the collection \<open>preserves\<close>.
  \<open>Cxx_Strings\<close>: \<open>find\<close> and \<open>substr\<close> with \<open>npos\<close>, number output, \<open>stoi\<close>, \<open>stoul\<close>, hexadecimal.
  \<open>Unordered_Map\<close>: \<open>std::unordered_map\<close> as an association list in iteration order, locale
  \<open>kv_store\<close>. \<open>Std_Sort\<close>: the contract of \<open>std::sort\<close>. \<open>Double_Ratio\<close>: the rounding of a quotient of
  two integers to a double. \<open>Nonce_Loop\<close>: the locale of a loop that tries nonces. \<open>Iterated_Hash\<close>: the locale of a
  hash that folds a compression function over padded blocks.

  \<open>crypto/\<close>. \<open>SHA256\<close> (sha256, locale \<open>hex_digest\<close>), \<open>RIPEMD160\<close>, \<open>Hash160\<close>, \<open>Base58\<close>, \<open>ECDSA\<close> (ecdsa,
  wallet; OpenSSL is the record \<open>openssl\<close>), \<open>SHA3\<close> (sha3, with FIPS 202 on bit strings), \<open>BLS\<close>.

  \<open>core/\<close>. \<open>Transaction\<close>, \<open>UTXO\<close> (locale \<open>ledger\<close>), \<open>Merkle\<close> (locale \<open>pair_hash\<close>), \<open>Block\<close>, \<open>Script\<close>,
  \<open>Mempool\<close> and \<open>Blockchain\<close>. A \<open>Blockchain\<close> record holds the blocks, the unspent outputs, the store,
  the cache, the difficulty and its clock; \<open>addBlock\<close> adjusts the difficulty, builds and mines a block,
  updates the outputs, persists and caches it, in the code's order. About it: \<open>Chain_Invariants\<close> (the
  invariant, reachable chains, what a tip determines), \<open>Supply\<close> (rewards and balances), \<open>Coherence\<close>
  and \<open>Chain_Store\<close> (store against unspent outputs, lookups), \<open>Demo_Chain\<close> (a concrete chain for the
  witnesses), \<open>Payment\<close> (a transaction from the pool into a block and the unspent outputs).

  \<open>storage/\<close>. \<open>Leveldb\<close> (the in-memory backend), \<open>Leveldb_Backend\<close> (the branches with LevelDB, over a
  record \<open>leveldb\<close> of the library's calls), \<open>LRU_Cache\<close>, \<open>Pruning\<close>. \<open>consensus/\<close>. \<open>PoW\<close>, \<open>PoS\<close>, \<open>Hybrid\<close>,
  \<open>Difficulty\<close>. \<open>vm/\<close>. \<open>Opcode\<close> (opcode, gas), \<open>VM\<close>, \<open>Compiler\<close>. \<open>layer2/\<close>. \<open>Channel\<close> (channel,
  sidechain), \<open>Lightning\<close>. \<open>governance/\<close>. \<open>Governance\<close> (proposal, dao). \<open>privacy/\<close>. \<open>Privacy\<close> (zkproof,
  stealth, mixer). \<open>network/\<close>. \<open>Node\<close> (node, over a record \<open>posix\<close> of socket calls), \<open>Node_Threads\<close> (its threads as a step
  relation), \<open>Delivery\<close> (two nodes on one connection), \<open>Protocol\<close> (protocol,
  peer, sync, tor, dns_seed). \<open>api/\<close>. \<open>Api\<close> (rpc, rest, websocket). \<open>main.cpp\<close>. \<open>Command_Line\<close>
  (the arguments and the steps) and \<open>Main_Program\<close> (the whole of \<open>main\<close>, with the text it writes and how
  it ends). \<open>Double_Text\<close> prints a double the way \<open>std::cout\<close> does, \<open>Console\<close> holds the \<open>print\<close> functions.
  \<open>Test_Vectors\<close> and \<open>Repo_Tests\<close> check the model on the assertions of \<open>src/tests\<close>.

  \<^bold>\<open>Conventions.\<close> A class is a record of its members, a method a function that returns the updated
  record. \<open>uint32_t\<close> and \<open>uint64_t\<close> are words; \<open>size_t\<close> is \<open>nat\<close>, with the wrap-around written out where
  \<open>npos\<close> takes part; \<open>int\<close> and \<open>int64_t\<close> are \<open>int\<close>, an overflow being \<open>Undefined_behaviour\<close>. A
  standard-library exception is a value of \<open>cxx_error\<close>; where the code does not catch it, it is the
  result. Clocks, entropy, the contents of the store at start, \<open>std::sort\<close>, OpenSSL, LevelDB and the
  sockets are arguments; \<open>openssl_correct\<close>, \<open>std_sort\<close>, \<open>receives\<close>, \<open>delivers\<close> and \<open>leveldb_correct\<close> say what their
  documentation promises, and each has an instance. What a
  \<open>print\<close> function writes is a string of bytes (\<open>Console\<close>); the messages other operations write while
  they run are left out.

  \<^bold>\<open>Loops.\<close> The mining loops and the message handler are \<open>partial_function (option)\<close>: \<open>None\<close> is a loop
  that does not return. \<open>mining_finds_first\<close> and \<open>pow_mine_complete\<close> say when they do return and with
  what. All other loops are total functions; no fuel is used.

  \<^bold>\<open>What the lemmas show.\<close> Hashing: output shape; SHA-3 equals the standard; Base58Check is inverted by its
  decoder. Trees: the root determines the leaves up to a collision, and every leaf has a path.
  A collision of SHA-256, or of the double hash, is one of its compression function on calls that
  are named, and an address binds its key in the same sense.
  Outputs: an output is spent at most once. The chain: the invariant of every reachable chain,
  binding of the history by the tip, supply and balances of honest chains, agreement with the store,
  and what the code leaves unchecked. Store: LevelDB is a refinement of the in-memory backend. Wallets:
  the shape of keys and addresses. Cache: refinement of a list with the most recent entry first.
  Pool: invariant and choice of transactions. Consensus: selection in proportion to stake, bounds of
  the rewards, the finality quorum. Machine: exact gas, and the compiler on programs of instructions.
  Channels: conservation of the locked amount. Routes: found exactly when reachable. Governance: one
  vote each. Payments: what the pool and a block do to
  one, and that it can be replayed. Network: what one node sends is what the handler of the other
  is given, and a handler never gives the table of peers back. API:
  what a request is answered. No hash is assumed injective: statements about binding name the texts
  that would collide.

  \<^bold>\<open>Not modelled.\<close> The progress and error messages that operations write while they run, with the
  timing \<open>ProofOfWork::mine\<close> prints; the LevelDB and OpenSSL libraries themselves; threads other than
  those of the node; \<open>governance/vote.h\<close>, a record nothing uses. \<open>Message::deserialize\<close> is declared and has no body.
\<close>

section \<open>Properties that span components\<close>



text \<open>C2: On an honest chain (blocks that create no value but a coinbase of at most the announced
  reward) the unspent outputs never exceed the supply cap of 21 million coins, so no balance wraps
  around: the 64-bit balance of an address is the exact sum of its unspent outputs.\<close>

theorem honest_chain_balances:
  assumes "honest n bc" and "n \<le> 210000 * 2 ^ 32"
  shows "unat (getBalance addr bc) = address_value addr (utxoSet bc)
           \<and> unspent_value (utxoSet bc) \<le> MAX_SUPPLY * SATOSHIS"
  using honest_balance(1) [OF assms] honest_supply [OF assms] by (simp add: MAX_SUPPLY_def SATOSHIS_def)

theorem honest_chain_balances_witness:
  "unat (getBalance ''alice'' demo_next) = address_value ''alice'' (utxoSet demo_next)
     \<and> unspent_value (utxoSet demo_next) \<le> MAX_SUPPLY * SATOSHIS"
  by (rule honest_chain_balances [OF demo_honest]) simp

text \<open>C4: The hash of the last block fixes the history: two reachable chains of one height, with the
  same numbers of transactions and the same last hash, hold the same transaction identifiers in
  the same order in every block, or two of the texts they hash collide under double SHA-256.\<close>

theorem tip_fixes_history:
  assumes "chain_reach bc0 n bc" and "chain_reach bc0' n bc'"
    and "tx_digests (chain bc)" and "tx_digests (chain bc')"
    and "map (\<lambda>b. length (transactions b)) (chain bc) = map (\<lambda>b. length (transactions b)) (chain bc')"
    and "b_hash (last (chain bc)) = b_hash (last (chain bc'))"
  shows "map (\<lambda>b. map txHash (transactions b)) (chain bc) = map (\<lambda>b. map txHash (transactions b)) (chain bc')
       \<or> collides (hashed_texts (chain bc) \<union> hashed_texts (chain bc'))"
  using tip_determines_transactions [OF _ _ assms(3-6)] chain_reach_inv [OF assms(1)]
    chain_reach_inv [OF assms(2)] by blast

theorem tip_fixes_history_witness:
  "map (\<lambda>b. map txHash (transactions b)) (chain demo_next)
     = map (\<lambda>b. map txHash (transactions b)) (chain (snd (getBlockByHash ''h'' demo_next)))
   \<or> collides (hashed_texts (chain demo_next) \<union> hashed_texts (chain (snd (getBlockByHash ''h'' demo_next))))"
  using tip_fixes_history [OF demo_reach chain_reach.query [OF demo_reach refl, of "''h''"]] demo_next_digests
  by simp



text \<open>C5: No transaction is checked: a block with a transaction that has no inputs and creates any
  amount is added if its mining returns, the chain still passes its validity check, and the amount
  can be spent by the address the transaction names.\<close>

theorem transactions_unchecked:
  assumes "chain_inv bc"
    and "addBlock now_adj now [Transaction_create t [] [\<lparr>amount = a, out_address = addr, scriptPubKey = sc\<rparr>]] bc = Some bc'"
  shows "Blockchain_isValid bc'
       \<and> (\<exists>h. unspent (utxoSet bc') (h, 0) =
            Some \<lparr>utxo_txHash = h, utxo_outputIndex = 0, utxo_address = addr, utxo_amount = a, utxo_spent = False\<rparr>)"
  using chain_inv_add [OF assms] addBlock_utxoSet [OF assms(2)]
    fresh_output_unspent [of "utxoSet bc" _ a addr sc t] assms(1)
  by (auto simp: chain_inv_def)

theorem transactions_unchecked_witness:
  "\<exists>bc'. addBlock 20 30 [Transaction_create 9 [] [\<lparr>amount = 10 ^ 19, out_address = ''mallory'', scriptPubKey = []\<rparr>]] demo_start = Some bc'
     \<and> Blockchain_isValid bc'"
  using addBlock_0 [OF demo_start_height demo_difficulty] transactions_unchecked [OF demo_start_inv] by metis

text \<open>C22: The identifier of a transaction binds what it pays: two transactions with the same time,
  kind and inputs, whose addresses have one length and do not start with a digit, have the same
  identifier only if they pay the same amounts to the same addresses in the same order, or their
  two texts collide under double SHA-256. The identifier of a coinbase does not bind the height of
  its block: two coinbase transactions of one miner with the same time and reward have the same
  identifier, and applying the second leaves the unspent outputs as they were, so that one reward
  is lost.\<close>

theorem transaction_identifiers:
  assumes "Transaction_calculateHash tx = Transaction_calculateHash tx'"
    and "timestamp tx = timestamp tx'" and "isCoinbase tx = isCoinbase tx'" and "inputs tx = inputs tx'"
    and "plain_addresses n (outputs tx)" and "plain_addresses n (outputs tx')" and "UTXOSet_ok s"
  shows "(map (\<lambda>out. (amount out, out_address out)) (outputs tx)
            = map (\<lambda>out. (amount out, out_address out)) (outputs tx')
          \<or> collides {tx_preimage tx, tx_preimage tx'})
       \<and> txHash (createCoinbase now a r h') = txHash (createCoinbase now a r h)
       \<and> unspent (apply_tx (createCoinbase now a r h') (apply_tx (createCoinbase now a r h) s))
           = unspent (apply_tx (createCoinbase now a r h) s)"
  using outputs_bound [OF assms(1-6)] createCoinbase_height_ignored same_coinbase_lost [OF assms(7)] by blast

theorem transaction_identifiers_witness:
  "unspent (apply_tx (createCoinbase 1700000000 ''m'' 50 8) (apply_tx (createCoinbase 1700000000 ''m'' 50 7) um_empty))
     = unspent (apply_tx (createCoinbase 1700000000 ''m'' 50 7) um_empty)"
proof -
  let ?tx = "Transaction_create 1 [] [\<lparr>amount = 7, out_address = ''RX'', scriptPubKey = ''s''\<rparr>]"
  have "is_digit 10 (CHR ''R'') = False" by code_simp
  then have "plain_addresses 2 (outputs ?tx)" by (simp add: plain_addresses_def)
  from transaction_identifiers [OF refl refl refl refl this this, of um_empty] show ?thesis by simp
qed

text \<open>C14: Whatever a store holds, a chain constructed on it starts again: it has one block and its
  unspent outputs are worth at most the reward of that block.\<close>

theorem restart_forgets_chain:
  assumes "Blockchain_new disk now0 now_tx now dir = Some (Inr bc)" and "um_ok disk"
  shows "getHeight bc = 1 \<and> Blockchain_isValid bc \<and> unspent_value (utxoSet bc) \<le> 50 * SATOSHIS"
  using Blockchain_new_inv [OF assms] new_value [OF assms(1)] by (simp add: getHeight_def chain_inv_def)

theorem restart_forgets_chain_witness:
  "getHeight demo_start = 1 \<and> unspent_value (utxoSet demo_start) \<le> 50 * SATOSHIS"
  using restart_forgets_chain [OF demo_new demo_disk_ok] by simp

text \<open>C15: A block just added is found by its hash, from the cache or from the store, but never by its
  height: adding a block leaves every lookup by height as it was, as long as the chain has fewer
  than a billion blocks.\<close>

theorem added_block_lookup:
  assumes "chain_inv bc" and "addBlock now_adj now txs bc = Some bc'" and "length (chain bc) < 1000000000"
  shows "fst (getBlockByHash (b_hash (last (chain bc'))) bc') = Some (serializeBlock (last (chain bc')))
       \<and> getHashAtHeight h (bdb bc') = getHashAtHeight h (bdb bc)"
  using added_block_found [OF assms(1,2)] height_index_lost [OF assms] by simp

theorem added_block_lookup_witness:
  "fst (getBlockByHash (b_hash (last (chain demo_next))) demo_next) = Some (serializeBlock (last (chain demo_next)))
     \<and> getHashAtHeight 1 (bdb demo_next) = getHashAtHeight 1 (bdb demo_start)"
  by (rule added_block_lookup [OF demo_start_inv demo_add]) (simp add: demo_start_height)

text \<open>C23: The reward of a block at height \<open>k\<close> is 50 coins halved once per 210000 blocks, in whole
  coins, and all rewards together are at most 20.37 million coins, below the cap of 21 million.\<close>

theorem reward_schedule:
  assumes "k < N" and "N \<le> 210000 * 2 ^ 32"
  shows "unat (reward_at k) = 50 div 2 ^ (k div 210000) \<and> (\<Sum>n < N. unat (reward_at n)) \<le> 20370000
       \<and> 20370000 < MAX_SUPPLY"
  using reward_at_halved [of k] reward_sum_le [OF assms(2)] assms
  by (simp add: halved_def MAX_SUPPLY_def)

theorem reward_schedule_witness:
  "unat (reward_at 420000) = 12 \<and> (\<Sum>n < 500000. unat (reward_at n)) \<le> 20370000"
  using reward_schedule [of 420000 500000] by simp

end
